(* ===== verification/Prelude.thy ===== *)
theory Prelude
  imports Main "HOL-Library.Word"
begin

text \<open>
  Shared vocabulary of the development: the machine integer types of the sources, the
  results of C++ code (a value, or the reason why the abstract machine gives none), bounds
  checked access to contiguous storage, and the arithmetic of \<^verbatim>\<open>std::size_t\<close>.

  Every place where the sources would read outside an object or after its lifetime, divide by
  zero, dereference an empty optional or loop for ever is a branch of the model that yields \<open>Inl\<close>, so a
  theorem that concludes \<open>Inr v\<close> also says that the code is free of these.
\<close>

unbundle bit_operations_syntax

section \<open>Machine integers\<close>

type_synonym byte = "8 word"
type_synonym u16 = "16 word"
type_synonym u32 = "32 word"
type_synonym u64 = "64 word"

lemma unat_less [simp]:
  "unat (b :: byte) < 256" "unat (h :: u16) < 65536" "unat (w :: u32) < 4294967296"
  "unat (l :: u64) < 18446744073709551616"
  using unsigned_less [of b, where ?'a = nat] unsigned_less [of h, where ?'a = nat]
    unsigned_less [of w, where ?'a = nat] unsigned_less [of l, where ?'a = nat] by simp_all

lemma unat_widen [simp]:
  "unat (ucast (b :: byte) :: u16) = unat b" "unat (ucast (b :: byte) :: u32) = unat b"
  "unat (ucast (b :: byte) :: u64) = unat b" "unat (ucast (h :: u16) :: u32) = unat h"
  "unat (ucast (h :: u16) :: u64) = unat h" "unat (ucast (w :: u32) :: u64) = unat w"
  using unat_less(1) [of b] unat_less(2) [of h] unat_less(3) [of w]
  by (simp_all add: unsigned_ucast_eq take_bit_nat_eq_self del: unat_less)

section \<open>Results of C++ code\<close>

datatype cxx_error =
    OutOfBounds      \<comment> \<open>an access outside the storage of an object\<close>
  | Uninitialized    \<comment> \<open>a read of an indeterminate value\<close>
  | NullDereference  \<comment> \<open>a dereference of an empty optional or a null pointer\<close>
  | DivisionByZero
  | Dangling         \<comment> \<open>an access to an object whose lifetime has ended\<close>
  | Diverges         \<comment> \<open>a loop that is never left\<close>
  | Thrown           \<comment> \<open>an exception leaves the function\<close>

type_synonym 'a result = "cxx_error + 'a"

definition bindr :: "'a result \<Rightarrow> ('a \<Rightarrow> 'b result) \<Rightarrow> 'b result" where
  "bindr m f = (case m of Inl e \<Rightarrow> Inl e | Inr x \<Rightarrow> f x)"

lemma bindr_Inl [simp]: "bindr (Inl e) f = Inl e"
  by (simp add: bindr_def)

lemma bindr_Inr [simp]: "bindr (Inr x) f = f x"
  by (simp add: bindr_def)

lemma bindr_cong [fundef_cong]:
  "m = m' \<Longrightarrow> (\<And>x. m' = Inr x \<Longrightarrow> f x = g x) \<Longrightarrow> bindr m f = bindr m' g"
  by (simp add: bindr_def split: sum.split)

lemma bindr_eq_Inr: "bindr m f = Inr y \<longleftrightarrow> (\<exists>x. m = Inr x \<and> f x = Inr y)"
  by (cases m) auto

lemma bindr_eq_Inl: "bindr m f = Inl e \<longleftrightarrow> m = Inl e \<or> (\<exists>x. m = Inr x \<and> f x = Inl e)"
  by (cases m) auto

lemma bindr_assoc: "bindr (bindr m f) g = bindr m (\<lambda>x. bindr (f x) g)"
  by (cases m) auto

lemma bindr_InrE:
  assumes "bindr m f = Inr y"
  obtains x where "m = Inr x" and "f x = Inr y"
  using assms by (auto simp: bindr_eq_Inr)

definition is_ok :: "'a result \<Rightarrow> bool" where
  "is_ok m = (case m of Inl _ \<Rightarrow> False | Inr _ \<Rightarrow> True)"

lemma is_ok_simps [simp]: "is_ok (Inr x)" "\<not> is_ok (Inl e)"
  by (simp_all add: is_ok_def)

lemma is_ok_iff: "is_ok m \<longleftrightarrow> (\<exists>x. m = Inr x)"
  by (cases m) auto

text \<open>A counted loop \<^verbatim>\<open>for (i = 0; i < n; ++i)\<close> whose body may fail.\<close>

primrec loopr :: "nat \<Rightarrow> ('s \<Rightarrow> 's result) \<Rightarrow> 's \<Rightarrow> 's result" where
  "loopr 0 f s = Inr s"
| "loopr (Suc n) f s = bindr (f s) (loopr n f)"

text \<open>A range-based \<^verbatim>\<open>for\<close> whose body may fail.\<close>

primrec foldr_res :: "('a \<Rightarrow> 's \<Rightarrow> 's result) \<Rightarrow> 'a list \<Rightarrow> 's \<Rightarrow> 's result" where
  "foldr_res f [] s = Inr s"
| "foldr_res f (x # xs) s = bindr (f x s) (foldr_res f xs)"

lemma foldr_res_append:
  "foldr_res f (xs @ ys) s = bindr (foldr_res f xs s) (foldr_res f ys)"
  by (induction xs arbitrary: s) (auto simp: bindr_assoc intro: bindr_cong)

lemma foldr_res_cong [fundef_cong]:
  assumes "xs = ys" and "s = t" and "\<And>x s. x \<in> set ys \<Longrightarrow> f x s = g x s"
  shows "foldr_res f xs s = foldr_res g ys t"
proof -
  have "foldr_res f ys s = foldr_res g ys s" if "\<And>x s. x \<in> set ys \<Longrightarrow> f x s = g x s" for ys s
    using that by (induction ys arbitrary: s) (auto intro: bindr_cong)
  with assms show ?thesis by simp
qed

lemma foldr_res_invariant:
  assumes "foldr_res f xs s = Inr t" and "P s"
    and "\<And>x s t. x \<in> set xs \<Longrightarrow> P s \<Longrightarrow> f x s = Inr t \<Longrightarrow> P t"
  shows "P t"
  using assms by (induction xs arbitrary: s) (auto elim!: bindr_InrE)

section \<open>Contiguous storage\<close>

text \<open>\<^verbatim>\<open>span.subspan(off, n)\<close>: defined only when the range lies inside the span.\<close>

definition slice :: "nat \<Rightarrow> nat \<Rightarrow> 'a list \<Rightarrow> 'a list" where
  "slice off n xs = take n (drop off xs)"

definition subspan :: "nat \<Rightarrow> nat \<Rightarrow> 'a list \<Rightarrow> 'a list result" where
  "subspan off n xs = (if off + n \<le> length xs then Inr (slice off n xs) else Inl OutOfBounds)"

text \<open>\<^verbatim>\<open>v[i]\<close> of a vector, span or view.\<close>

definition at :: "'a list \<Rightarrow> nat \<Rightarrow> 'a result" where
  "at xs i = (if i < length xs then Inr (xs ! i) else Inl OutOfBounds)"

text \<open>\<^verbatim>\<open>v[i] = x\<close>.\<close>

definition set_at :: "'a list \<Rightarrow> nat \<Rightarrow> 'a \<Rightarrow> 'a list result" where
  "set_at xs i x = (if i < length xs then Inr (xs[i := x]) else Inl OutOfBounds)"

lemma set_at_eq_Inr: "set_at xs i x = Inr ys \<longleftrightarrow> i < length xs \<and> ys = xs[i := x]"
  by (auto simp: set_at_def)

lemma set_at_ok [simp]: "i < length xs \<Longrightarrow> set_at xs i x = Inr (xs[i := x])"
  by (simp add: set_at_def)

text \<open>\<^verbatim>\<open>*opt\<close> of a \<^verbatim>\<open>std::optional\<close>.\<close>

definition deref :: "'a option \<Rightarrow> 'a result" where
  "deref x = (case x of None \<Rightarrow> Inl NullDereference | Some v \<Rightarrow> Inr v)"

lemma deref_simps [simp]: "deref None = Inl NullDereference" "deref (Some v) = Inr v"
  by (simp_all add: deref_def)

lemma length_slice [simp]: "length (slice off n xs) = min n (length xs - off)"
  by (simp add: slice_def)

lemma slice_0_length [simp]: "slice 0 (length xs) xs = xs"
  by (simp add: slice_def)

lemma slice_all: "length xs \<le> n \<Longrightarrow> slice 0 n xs = xs"
  by (simp add: slice_def)

lemma slice_append_left: "off + n \<le> length xs \<Longrightarrow> slice off n (xs @ ys) = slice off n xs"
  by (simp add: slice_def)

lemma slice_append_mid: "slice (length xs) (length ys) (xs @ ys @ zs) = ys"
  by (simp add: slice_def)

lemma subspan_eq_Inr: "subspan off n xs = Inr ys \<longleftrightarrow> off + n \<le> length xs \<and> ys = slice off n xs"
  by (auto simp: subspan_def)

lemma subspan_ok [simp]: "off + n \<le> length xs \<Longrightarrow> subspan off n xs = Inr (slice off n xs)"
  by (simp add: subspan_def)

lemma at_eq_Inr: "at xs i = Inr x \<longleftrightarrow> i < length xs \<and> x = xs ! i"
  by (auto simp: at_def)

lemma at_ok [simp]: "i < length xs \<Longrightarrow> at xs i = Inr (xs ! i)"
  by (simp add: at_def)

lemmas storage_conv = bindr_eq_Inr bindr_eq_Inl subspan_eq_Inr at_eq_Inr set_at_eq_Inr

section \<open>\<^verbatim>\<open>std::size_t\<close>\<close>

text \<open>
  Sizes and cursors are natural numbers below \<open>2\<^sup>6\<^sup>4\<close>; additions, subtractions and products
  whose wrap-around the sources do not exclude are written with the operations below.
\<close>

definition size_mod :: nat where
  "size_mod = 18446744073709551616"

definition add_sz :: "nat \<Rightarrow> nat \<Rightarrow> nat" where
  "add_sz a b = (a + b) mod size_mod"

definition sub_sz :: "nat \<Rightarrow> nat \<Rightarrow> nat" where
  "sub_sz a b = (a + size_mod - b) mod size_mod"

definition mul_sz :: "nat \<Rightarrow> nat \<Rightarrow> nat" where
  "mul_sz a b = (a * b) mod size_mod"

lemma size_mod_pow: "size_mod = 2 ^ 64"
  by (simp add: size_mod_def)

lemma size_mod_pos [simp]: "0 < size_mod"
  by (simp add: size_mod_def)

lemma add_sz_small [simp]: "a + b < size_mod \<Longrightarrow> add_sz a b = a + b"
  by (simp add: add_sz_def)

lemma sub_sz_small [simp]: "b \<le> a \<Longrightarrow> a < size_mod \<Longrightarrow> sub_sz a b = a - b"
  by (simp add: sub_sz_def mod_if)

lemma sub_sz_wrap: "a < b \<Longrightarrow> b \<le> size_mod \<Longrightarrow> sub_sz a b = a + size_mod - b"
  by (simp add: sub_sz_def)

lemma mul_sz_small [simp]: "a * b < size_mod \<Longrightarrow> mul_sz a b = a * b"
  by (simp add: mul_sz_def)

lemma add_sz_less [simp]: "add_sz a b < size_mod"
  by (simp add: add_sz_def)

lemma sub_sz_less [simp]: "sub_sz a b < size_mod"
  by (simp add: sub_sz_def)

lemma add_sub_sz: "a < size_mod \<Longrightarrow> b \<le> size_mod \<Longrightarrow> add_sz (sub_sz a b) b = a"
  by (cases "b \<le> a") (auto simp: add_sz_def sub_sz_def mod_if)

section \<open>Lists\<close>

lemma find_Some_nth:
  "find P xs = Some x \<Longrightarrow> \<exists>i < length xs. x = xs ! i \<and> P x \<and> (\<forall>j < i. \<not> P (xs ! j))"
  by (auto simp: find_Some_iff)

lemma find_append_case: "find P (xs @ ys) = (case find P xs of None \<Rightarrow> find P ys | Some x \<Rightarrow> Some x)"
  by (induction xs) auto

section \<open>Outcomes\<close>

text \<open>A computation that ends, with a result that satisfies \<open>P\<close> or with an error.\<close>

definition outcome :: "('a \<Rightarrow> bool) \<Rightarrow> 'a result \<Rightarrow> bool" where
  "outcome P r \<longleftrightarrow> (case r of Inl e \<Rightarrow> e \<noteq> Diverges | Inr x \<Rightarrow> P x)"

lemma outcome_simps [simp]: "outcome P (Inl e) \<longleftrightarrow> e \<noteq> Diverges" "outcome P (Inr x) \<longleftrightarrow> P x"
  by (simp_all add: outcome_def)

lemma outcome_bind: "outcome P r \<Longrightarrow> (\<And>x. P x \<Longrightarrow> outcome Q (f x)) \<Longrightarrow> outcome Q (bindr r f)"
  by (cases r) auto

lemma outcome_mono: "outcome P r \<Longrightarrow> (\<And>x. P x \<Longrightarrow> Q x) \<Longrightarrow> outcome Q r"
  by (cases r) auto

lemma outcome_ends: "outcome P r \<Longrightarrow> r \<noteq> Inl Diverges"
  by auto

end
