(* ===== verification/Lookup3.thy ===== *)
theory Lookup3
  imports Prelude
begin

text \<open>
  \<^verbatim>\<open>libtactmon/crypto/lookup3.hpp\<close>: Bob Jenkins' lookup3 hash, and
  \<^verbatim>\<open>libtactmon/crypto/Jenkins.cpp\<close>, the hash of a normalised path.

  A key is a pointer into memory: the model passes the memory as a function from offsets
  relative to the key to bytes, so that the word-wise paths, which read up to three bytes
  past the end of the key and mask them off, are modelled with those reads.
  \<open>le\<close> and \<open>be\<close> stand for \<^verbatim>\<open>HASH_LITTLE_ENDIAN\<close> and \<^verbatim>\<open>HASH_BIG_ENDIAN\<close>, \<open>addr\<close> for the
  address of the key (\<^verbatim>\<open>u.i\<close>), which selects the path.
\<close>

unbundle bit_operations_syntax

type_synonym hstate = "u32 \<times> u32 \<times> u32"
type_synonym memory = "nat \<Rightarrow> byte"

section \<open>The mixing steps\<close>

definition rot :: "u32 \<Rightarrow> nat \<Rightarrow> u32" where
  "rot x k = push_bit k x OR drop_bit (32 - k) x"

definition mix :: "hstate \<Rightarrow> hstate" where
  "mix s = (case s of (a, b, c) \<Rightarrow>
     let a = a - c; a = a XOR rot c 4;  c = c + b;
         b = b - a; b = b XOR rot a 6;  a = a + c;
         c = c - b; c = c XOR rot b 8;  b = b + a;
         a = a - c; a = a XOR rot c 16; c = c + b;
         b = b - a; b = b XOR rot a 19; a = a + c;
         c = c - b; c = c XOR rot b 4;  b = b + a
     in (a, b, c))"

definition final_mix :: "hstate \<Rightarrow> hstate" where
  "final_mix s = (case s of (a, b, c) \<Rightarrow>
     let c = c XOR b; c = c - rot b 14;
         a = a XOR c; a = a - rot c 11;
         b = b XOR a; b = b - rot a 25;
         c = c XOR b; c = c - rot b 16;
         a = a XOR c; a = a - rot c 4;
         b = b XOR a; b = b - rot a 14;
         c = c XOR b; c = c - rot b 24
     in (a, b, c))"

definition hseed :: "u32 \<Rightarrow> u32 \<Rightarrow> hstate" where
  "hseed len initval = (let x = 0xdeadbeef + len + initval in (x, x, x))"

definition add3 :: "hstate \<Rightarrow> hstate \<Rightarrow> hstate" where
  "add3 s t = (case (s, t) of ((a, b, c), (x, y, z)) \<Rightarrow> (a + x, b + y, c + z))"

section \<open>Hashing arrays of 32-bit words\<close>

text \<open>\<open>hw_loop\<close> is the \<^verbatim>\<open>while (length > 3)\<close> loop, \<open>hw_tail\<close> the \<^verbatim>\<open>switch\<close> with its
  fall-through cases: \<^verbatim>\<open>case k\<close> is executed when \<^verbatim>\<open>length >= k\<close>.\<close>

fun hw_loop :: "u32 list \<Rightarrow> hstate \<Rightarrow> u32 list \<times> hstate" where
  "hw_loop k s = (if 3 < length k
     then hw_loop (drop 3 k) (mix (add3 s (k ! 0, k ! 1, k ! 2)))
     else (k, s))"

declare hw_loop.simps [simp del]

definition hw_tail :: "u32 list \<Rightarrow> hstate \<Rightarrow> hstate" where
  "hw_tail k s = (case s of (a, b, c) \<Rightarrow>
     let c = (if 3 \<le> length k then c + k ! 2 else c);
         b = (if 2 \<le> length k then b + k ! 1 else b);
         a = (if 1 \<le> length k then a + k ! 0 else a)
     in if 1 \<le> length k then final_mix (a, b, c) else (a, b, c))"

definition hashword :: "u32 list \<Rightarrow> u32 \<Rightarrow> u32" where
  "hashword k initval =
     (let (k', s) = hw_loop k (hseed (push_bit 2 (word_of_nat (length k))) initval)
      in snd (snd (hw_tail k' s)))"

definition hashword2 :: "u32 list \<Rightarrow> u32 \<Rightarrow> u32 \<Rightarrow> u32 \<times> u32" where
  "hashword2 k pc pb =
     (let (a, b, c) = hseed (word_of_nat (4 * length k)) pc;
          (k', s) = hw_loop k (a, b, c + pb);
          (a, b, c) = hw_tail k' s
      in (c, b))"

section \<open>Loads of a little-endian machine\<close>

definition rd8 :: "memory \<Rightarrow> nat \<Rightarrow> u32" where
  "rd8 m i = ucast (m i)"

definition rd16 :: "memory \<Rightarrow> nat \<Rightarrow> u32" where
  "rd16 m i = rd8 m i + push_bit 8 (rd8 m (i + 1))"

definition rd32 :: "memory \<Rightarrow> nat \<Rightarrow> u32" where
  "rd32 m i = rd8 m i + push_bit 8 (rd8 m (i + 1)) + push_bit 16 (rd8 m (i + 2))
     + push_bit 24 (rd8 m (i + 3))"

section \<open>Blocks of twelve bytes\<close>

definition load32 :: "memory \<Rightarrow> nat \<Rightarrow> hstate" where
  "load32 m o' = (rd32 m o', rd32 m (o' + 4), rd32 m (o' + 8))"

definition load16 :: "memory \<Rightarrow> nat \<Rightarrow> hstate" where
  "load16 m o' = (rd16 m o' + push_bit 16 (rd16 m (o' + 2)),
     rd16 m (o' + 4) + push_bit 16 (rd16 m (o' + 6)),
     rd16 m (o' + 8) + push_bit 16 (rd16 m (o' + 10)))"

definition load8 :: "memory \<Rightarrow> nat \<Rightarrow> hstate" where
  "load8 m o' =
     (rd8 m o' + push_bit 8 (rd8 m (o' + 1)) + push_bit 16 (rd8 m (o' + 2))
        + push_bit 24 (rd8 m (o' + 3)),
      rd8 m (o' + 4) + push_bit 8 (rd8 m (o' + 5)) + push_bit 16 (rd8 m (o' + 6))
        + push_bit 24 (rd8 m (o' + 7)),
      rd8 m (o' + 8) + push_bit 8 (rd8 m (o' + 9)) + push_bit 16 (rd8 m (o' + 10))
        + push_bit 24 (rd8 m (o' + 11)))"

text \<open>\<^verbatim>\<open>while (length > 12)\<close>: the state, the offset reached and the bytes left.\<close>

fun blocks :: "(nat \<Rightarrow> hstate) \<Rightarrow> nat \<Rightarrow> nat \<Rightarrow> hstate \<Rightarrow> hstate \<times> nat \<times> nat" where
  "blocks ld o' len s =
     (if 12 < len then blocks ld (o' + 12) (len - 12) (mix (add3 s (ld o'))) else (s, o', len))"

declare blocks.simps [simp del]

section \<open>The last, possibly partial, block\<close>

text \<open>\<open>tail32\<close>: aligned words, the excess bytes of the last word masked off.\<close>

definition tail32 :: "memory \<Rightarrow> nat \<Rightarrow> nat \<Rightarrow> hstate \<Rightarrow> hstate" where
  "tail32 m o' len s = (case s of (a, b, c) \<Rightarrow>
     let k0 = rd32 m o'; k1 = rd32 m (o' + 4); k2 = rd32 m (o' + 8) in
     if len = 12 then (a + k0, b + k1, c + k2)
     else if len = 11 then (a + k0, b + k1, c + (k2 AND 0xffffff))
     else if len = 10 then (a + k0, b + k1, c + (k2 AND 0xffff))
     else if len = 9 then (a + k0, b + k1, c + (k2 AND 0xff))
     else if len = 8 then (a + k0, b + k1, c)
     else if len = 7 then (a + k0, b + (k1 AND 0xffffff), c)
     else if len = 6 then (a + k0, b + (k1 AND 0xffff), c)
     else if len = 5 then (a + k0, b + (k1 AND 0xff), c)
     else if len = 4 then (a + k0, b, c)
     else if len = 3 then (a + (k0 AND 0xffffff), b, c)
     else if len = 2 then (a + (k0 AND 0xffff), b, c)
     else if len = 1 then (a + (k0 AND 0xff), b, c)
     else (a, b, c))"

text \<open>\<open>tail32v\<close>: the same block as compiled with \<^verbatim>\<open>VALGRIND\<close> defined, with byte loads.\<close>

definition tail32v :: "memory \<Rightarrow> nat \<Rightarrow> nat \<Rightarrow> hstate \<Rightarrow> hstate" where
  "tail32v m o' len s = (case s of (a, b, c) \<Rightarrow>
     let k0 = rd32 m o'; k1 = rd32 m (o' + 4); k2 = rd32 m (o' + 8); k8 = (\<lambda>i. rd8 m (o' + i)) in
     if len = 12 then (a + k0, b + k1, c + k2)
     else if 8 \<le> len then
       let c = (if 11 \<le> len then c + push_bit 16 (k8 10) else c);
           c = (if 10 \<le> len then c + push_bit 8 (k8 9) else c);
           c = (if 9 \<le> len then c + k8 8 else c)
       in (a + k0, b + k1, c)
     else if 4 \<le> len then
       let b = (if 7 \<le> len then b + push_bit 16 (k8 6) else b);
           b = (if 6 \<le> len then b + push_bit 8 (k8 5) else b);
           b = (if 5 \<le> len then b + k8 4 else b)
       in (a + k0, b, c)
     else
       let a = (if 3 \<le> len then a + push_bit 16 (k8 2) else a);
           a = (if 2 \<le> len then a + push_bit 8 (k8 1) else a);
           a = (if 1 \<le> len then a + k8 0 else a)
       in (a, b, c))"

text \<open>\<open>tail16\<close>: half-word loads, odd lengths fall through after a byte load.\<close>

definition tail16 :: "memory \<Rightarrow> nat \<Rightarrow> nat \<Rightarrow> hstate \<Rightarrow> hstate" where
  "tail16 m o' len s = (case s of (a, b, c) \<Rightarrow>
     let k = (\<lambda>i. rd16 m (o' + 2 * i)); k8 = (\<lambda>i. rd8 m (o' + i));
         a4 = a + (k 0 + push_bit 16 (k 1)); b4 = b + (k 2 + push_bit 16 (k 3)) in
     if len = 12 then (a4, b4, c + (k 4 + push_bit 16 (k 5)))
     else if len = 11 then (a4, b4, c + push_bit 16 (k8 10) + k 4)
     else if len = 10 then (a4, b4, c + k 4)
     else if len = 9 then (a4, b4, c + k8 8)
     else if len = 8 then (a4, b4, c)
     else if len = 7 then (a4, b + push_bit 16 (k8 6) + k 2, c)
     else if len = 6 then (a4, b + k 2, c)
     else if len = 5 then (a4, b + k8 4, c)
     else if len = 4 then (a4, b, c)
     else if len = 3 then (a + push_bit 16 (k8 2) + k 0, b, c)
     else if len = 2 then (a + k 0, b, c)
     else if len = 1 then (a + k8 0, b, c)
     else (a, b, c))"

text \<open>\<open>tail8\<close>: byte loads, every case falls through to the next.\<close>

definition tail8 :: "memory \<Rightarrow> nat \<Rightarrow> nat \<Rightarrow> hstate \<Rightarrow> hstate" where
  "tail8 m o' len s = (case s of (a, b, c) \<Rightarrow>
     let k = (\<lambda>i. rd8 m (o' + i));
         c = (if 12 \<le> len then c + push_bit 24 (k 11) else c);
         c = (if 11 \<le> len then c + push_bit 16 (k 10) else c);
         c = (if 10 \<le> len then c + push_bit 8 (k 9) else c);
         c = (if 9 \<le> len then c + k 8 else c);
         b = (if 8 \<le> len then b + push_bit 24 (k 7) else b);
         b = (if 7 \<le> len then b + push_bit 16 (k 6) else b);
         b = (if 6 \<le> len then b + push_bit 8 (k 5) else b);
         b = (if 5 \<le> len then b + k 4 else b);
         a = (if 4 \<le> len then a + push_bit 24 (k 3) else a);
         a = (if 3 \<le> len then a + push_bit 16 (k 2) else a);
         a = (if 2 \<le> len then a + push_bit 8 (k 1) else a);
         a = (if 1 \<le> len then a + k 0 else a)
     in (a, b, c))"

section \<open>Hashing byte arrays\<close>

text \<open>One path of \<^verbatim>\<open>hashlittle\<close> and \<^verbatim>\<open>hashlittle2\<close>: the block loop, the last block, and
  \<^verbatim>\<open>final\<close> unless the key is exhausted.\<close>

definition hl_path :: "(nat \<Rightarrow> hstate) \<Rightarrow> (nat \<Rightarrow> nat \<Rightarrow> hstate \<Rightarrow> hstate) \<Rightarrow> nat \<Rightarrow> hstate \<Rightarrow> hstate" where
  "hl_path ld tail len s =
     (let (s', o', r) = blocks ld 0 len s
      in if r = 0 then s' else final_mix (tail o' r s'))"

definition hl_state :: "bool \<Rightarrow> nat \<Rightarrow> memory \<Rightarrow> nat \<Rightarrow> hstate \<Rightarrow> hstate" where
  "hl_state le addr m len s =
     (if le \<and> addr mod 4 = 0 then hl_path (load32 m) (tail32 m) len s
      else if le \<and> addr mod 2 = 0 then hl_path (load16 m) (tail16 m) len s
      else hl_path (load8 m) (tail8 m) len s)"

definition hashlittle :: "bool \<Rightarrow> nat \<Rightarrow> memory \<Rightarrow> nat \<Rightarrow> u32 \<Rightarrow> u32" where
  "hashlittle le addr m len initval =
     snd (snd (hl_state le addr m len (hseed (word_of_nat len) initval)))"

definition hashlittle2 :: "bool \<Rightarrow> nat \<Rightarrow> memory \<Rightarrow> nat \<Rightarrow> u32 \<Rightarrow> u32 \<Rightarrow> u32 \<times> u32" where
  "hashlittle2 le addr m len pc pb =
     (let (a, b, c) = hseed (word_of_nat len) pc;
          (a, b, c) = hl_state le addr m len (a, b, c + pb)
      in (c, b))"

section \<open>The big-endian hash\<close>

definition rd32be :: "memory \<Rightarrow> nat \<Rightarrow> u32" where
  "rd32be m i = push_bit 24 (rd8 m i) + push_bit 16 (rd8 m (i + 1)) + push_bit 8 (rd8 m (i + 2))
     + rd8 m (i + 3)"

definition load32be :: "memory \<Rightarrow> nat \<Rightarrow> hstate" where
  "load32be m o' = (rd32be m o', rd32be m (o' + 4), rd32be m (o' + 8))"

definition load8be :: "memory \<Rightarrow> nat \<Rightarrow> hstate" where
  "load8be m o' =
     (push_bit 24 (rd8 m o') + push_bit 16 (rd8 m (o' + 1)) + push_bit 8 (rd8 m (o' + 2))
        + rd8 m (o' + 3),
      push_bit 24 (rd8 m (o' + 4)) + push_bit 16 (rd8 m (o' + 5)) + push_bit 8 (rd8 m (o' + 6))
        + rd8 m (o' + 7),
      push_bit 24 (rd8 m (o' + 8)) + push_bit 16 (rd8 m (o' + 9)) + push_bit 8 (rd8 m (o' + 10))
        + rd8 m (o' + 11))"

definition tail32be :: "memory \<Rightarrow> nat \<Rightarrow> nat \<Rightarrow> hstate \<Rightarrow> hstate" where
  "tail32be m o' len s = (case s of (a, b, c) \<Rightarrow>
     let k0 = rd32be m o'; k1 = rd32be m (o' + 4); k2 = rd32be m (o' + 8) in
     if len = 12 then (a + k0, b + k1, c + k2)
     else if len = 11 then (a + k0, b + k1, c + (k2 AND 0xffffff00))
     else if len = 10 then (a + k0, b + k1, c + (k2 AND 0xffff0000))
     else if len = 9 then (a + k0, b + k1, c + (k2 AND 0xff000000))
     else if len = 8 then (a + k0, b + k1, c)
     else if len = 7 then (a + k0, b + (k1 AND 0xffffff00), c)
     else if len = 6 then (a + k0, b + (k1 AND 0xffff0000), c)
     else if len = 5 then (a + k0, b + (k1 AND 0xff000000), c)
     else if len = 4 then (a + k0, b, c)
     else if len = 3 then (a + (k0 AND 0xffffff00), b, c)
     else if len = 2 then (a + (k0 AND 0xffff0000), b, c)
     else if len = 1 then (a + (k0 AND 0xff000000), b, c)
     else (a, b, c))"

definition tail32bev :: "memory \<Rightarrow> nat \<Rightarrow> nat \<Rightarrow> hstate \<Rightarrow> hstate" where
  "tail32bev m o' len s = (case s of (a, b, c) \<Rightarrow>
     let k0 = rd32be m o'; k1 = rd32be m (o' + 4); k2 = rd32be m (o' + 8);
         k8 = (\<lambda>i. rd8 m (o' + i)) in
     if len = 12 then (a + k0, b + k1, c + k2)
     else if 8 \<le> len then
       let c = (if 11 \<le> len then c + push_bit 8 (k8 10) else c);
           c = (if 10 \<le> len then c + push_bit 16 (k8 9) else c);
           c = (if 9 \<le> len then c + push_bit 24 (k8 8) else c)
       in (a + k0, b + k1, c)
     else if 4 \<le> len then
       let b = (if 7 \<le> len then b + push_bit 8 (k8 6) else b);
           b = (if 6 \<le> len then b + push_bit 16 (k8 5) else b);
           b = (if 5 \<le> len then b + push_bit 24 (k8 4) else b)
       in (a + k0, b, c)
     else
       let a = (if 3 \<le> len then a + push_bit 8 (k8 2) else a);
           a = (if 2 \<le> len then a + push_bit 16 (k8 1) else a);
           a = (if 1 \<le> len then a + push_bit 24 (k8 0) else a)
       in (a, b, c))"

definition tail8be :: "memory \<Rightarrow> nat \<Rightarrow> nat \<Rightarrow> hstate \<Rightarrow> hstate" where
  "tail8be m o' len s = (case s of (a, b, c) \<Rightarrow>
     let k = (\<lambda>i. rd8 m (o' + i));
         c = (if 12 \<le> len then c + k 11 else c);
         c = (if 11 \<le> len then c + push_bit 8 (k 10) else c);
         c = (if 10 \<le> len then c + push_bit 16 (k 9) else c);
         c = (if 9 \<le> len then c + push_bit 24 (k 8) else c);
         b = (if 8 \<le> len then b + k 7 else b);
         b = (if 7 \<le> len then b + push_bit 8 (k 6) else b);
         b = (if 6 \<le> len then b + push_bit 16 (k 5) else b);
         b = (if 5 \<le> len then b + push_bit 24 (k 4) else b);
         a = (if 4 \<le> len then a + k 3 else a);
         a = (if 3 \<le> len then a + push_bit 8 (k 2) else a);
         a = (if 2 \<le> len then a + push_bit 16 (k 1) else a);
         a = (if 1 \<le> len then a + push_bit 24 (k 0) else a)
     in (a, b, c))"

definition hashbig :: "bool \<Rightarrow> nat \<Rightarrow> memory \<Rightarrow> nat \<Rightarrow> u32 \<Rightarrow> u32" where
  "hashbig be addr m len initval =
     (let s = hseed (word_of_nat len) initval in
      snd (snd (if be \<and> addr mod 4 = 0 then hl_path (load32be m) (tail32be m) len s
                else hl_path (load8be m) (tail8be m) len s)))"

text \<open>The memory that holds a byte string, and zeroes behind it.\<close>

definition mem_of :: "byte list \<Rightarrow> memory" where
  "mem_of bs i = (if i < length bs then bs ! i else 0)"

section \<open>The hash of a path (\<^verbatim>\<open>Jenkins.cpp\<close>)\<close>

definition normalize_char :: "byte \<Rightarrow> byte" where
  "normalize_char c = (if c = 0x2f then 0x5c
     else if 0x61 \<le> c \<and> c \<le> 0x7a then c + (0x41 - 0x61) else c)"

definition JenkinsHash :: "bool \<Rightarrow> nat \<Rightarrow> byte list \<Rightarrow> u32" where
  "JenkinsHash le addr path =
     (let normalizedPath = map normalize_char path
      in fst (hashlittle2 le addr (mem_of normalizedPath) (length normalizedPath) 0 0))"

section \<open>The word-wise loads and the byte-wise loads agree\<close>

lemma bit_rd8: "bit (rd8 m i) n \<longleftrightarrow> n < 8 \<and> bit (m i) n"
  by (auto simp: rd8_def bit_simps dest: bit_imp_le_length)

lemma rd16_or: "rd16 m i = rd8 m i OR push_bit 8 (rd8 m (i + 1))"
  unfolding rd16_def by (rule disjunctive_add_eq_or) (auto simp: bit_eq_iff bit_simps bit_rd8)

lemma rd24_or:
  "rd8 m i + push_bit 8 (rd8 m j) + push_bit 16 (rd8 m k) =
    rd8 m i OR push_bit 8 (rd8 m j) OR push_bit 16 (rd8 m k)"
proof -
  have "rd8 m i + push_bit 8 (rd8 m j) = rd8 m i OR push_bit 8 (rd8 m j)"
    by (rule disjunctive_add_eq_or) (auto simp: bit_eq_iff bit_simps bit_rd8)
  moreover have "(rd8 m i OR push_bit 8 (rd8 m j)) + push_bit 16 (rd8 m k) =
      (rd8 m i OR push_bit 8 (rd8 m j)) OR push_bit 16 (rd8 m k)"
    by (rule disjunctive_add_eq_or) (auto simp: bit_eq_iff bit_simps bit_rd8)
  ultimately show ?thesis by (simp add: or.assoc)
qed

lemma rd32_or:
  "rd32 m i = rd8 m i OR push_bit 8 (rd8 m (i + 1)) OR push_bit 16 (rd8 m (i + 2))
     OR push_bit 24 (rd8 m (i + 3))"
proof -
  have "(rd8 m i OR push_bit 8 (rd8 m (i + 1)) OR push_bit 16 (rd8 m (i + 2)))
      + push_bit 24 (rd8 m (i + 3)) =
      (rd8 m i OR push_bit 8 (rd8 m (i + 1)) OR push_bit 16 (rd8 m (i + 2)))
      OR push_bit 24 (rd8 m (i + 3))"
    by (rule disjunctive_add_eq_or) (auto simp: bit_eq_iff bit_simps bit_rd8)
  then show ?thesis by (simp add: rd32_def rd24_or or.assoc)
qed

lemma mask_consts:
  "(0xff :: u32) = mask 8" "(0xffff :: u32) = mask 16" "(0xffffff :: u32) = mask 24"
  by (simp_all add: mask_eq_exp_minus_1)

lemma rd32_mask:
  "rd32 m i AND 0xff = rd8 m i"
  "rd32 m i AND 0xffff = rd8 m i + push_bit 8 (rd8 m (i + 1))"
  "rd32 m i AND 0xffffff = rd8 m i + push_bit 8 (rd8 m (i + 1)) + push_bit 16 (rd8 m (i + 2))"
proof -
  show "rd32 m i AND 0xff = rd8 m i"
    unfolding mask_consts rd32_or by (auto simp: bit_eq_iff bit_simps bit_rd8)
  show "rd32 m i AND 0xffff = rd8 m i + push_bit 8 (rd8 m (i + 1))"
    unfolding mask_consts rd32_or rd16_or [unfolded rd16_def]
    by (auto simp: bit_eq_iff bit_simps bit_rd8)
  show "rd32 m i AND 0xffffff = rd8 m i + push_bit 8 (rd8 m (i + 1)) + push_bit 16 (rd8 m (i + 2))"
    unfolding mask_consts rd32_or rd24_or by (auto simp: bit_eq_iff bit_simps bit_rd8)
qed

lemma rd16_pair: "rd16 m i + push_bit 16 (rd16 m (i + 2)) = rd32 m i"
  by (simp add: rd16_def rd32_def push_bit_add add.assoc numeral_3_eq_3)

lemma rd32be_or:
  "rd32be m i = push_bit 24 (rd8 m i) OR push_bit 16 (rd8 m (i + 1)) OR push_bit 8 (rd8 m (i + 2))
     OR rd8 m (i + 3)"
proof -
  have "push_bit 24 (rd8 m i) + push_bit 16 (rd8 m (i + 1)) =
      push_bit 24 (rd8 m i) OR push_bit 16 (rd8 m (i + 1))"
    by (rule disjunctive_add_eq_or) (auto simp: bit_eq_iff bit_simps bit_rd8)
  moreover have "(push_bit 24 (rd8 m i) OR push_bit 16 (rd8 m (i + 1))) + push_bit 8 (rd8 m (i + 2)) =
      (push_bit 24 (rd8 m i) OR push_bit 16 (rd8 m (i + 1))) OR push_bit 8 (rd8 m (i + 2))"
    by (rule disjunctive_add_eq_or) (auto simp: bit_eq_iff bit_simps bit_rd8)
  moreover have "(push_bit 24 (rd8 m i) OR push_bit 16 (rd8 m (i + 1)) OR push_bit 8 (rd8 m (i + 2))) + rd8 m (i + 3) =
      (push_bit 24 (rd8 m i) OR push_bit 16 (rd8 m (i + 1)) OR push_bit 8 (rd8 m (i + 2))) OR rd8 m (i + 3)"
    by (rule disjunctive_add_eq_or) (auto simp: bit_eq_iff bit_simps bit_rd8)
  ultimately show ?thesis by (simp add: rd32be_def or.assoc)
qed

lemma mask_consts_be:
  "(0xff000000 :: u32) = push_bit 24 (mask 8)"
  "(0xffff0000 :: u32) = push_bit 16 (mask 16)"
  "(0xffffff00 :: u32) = push_bit 8 (mask 24)"
  by (simp_all add: mask_eq_exp_minus_1)

lemma rd32be_mask:
  "rd32be m i AND 0xff000000 = push_bit 24 (rd8 m i)"
  "rd32be m i AND 0xffff0000 = push_bit 24 (rd8 m i) + push_bit 16 (rd8 m (i + 1))"
  "rd32be m i AND 0xffffff00 = push_bit 24 (rd8 m i) + push_bit 16 (rd8 m (i + 1)) + push_bit 8 (rd8 m (i + 2))"
proof -
  have o1: "push_bit 24 (rd8 m i) + push_bit 16 (rd8 m (i + 1)) =
      push_bit 24 (rd8 m i) OR push_bit 16 (rd8 m (i + 1))"
    by (rule disjunctive_add_eq_or) (auto simp: bit_eq_iff bit_simps bit_rd8)
  have o2: "(push_bit 24 (rd8 m i) OR push_bit 16 (rd8 m (i + 1))) + push_bit 8 (rd8 m (i + 2)) =
      push_bit 24 (rd8 m i) OR push_bit 16 (rd8 m (i + 1)) OR push_bit 8 (rd8 m (i + 2))"
    unfolding or.assoc[symmetric]
    by (rule disjunctive_add_eq_or) (auto simp: bit_eq_iff bit_simps bit_rd8)
  show "rd32be m i AND 0xff000000 = push_bit 24 (rd8 m i)"
    "rd32be m i AND 0xffff0000 = push_bit 24 (rd8 m i) + push_bit 16 (rd8 m (i + 1))"
    "rd32be m i AND 0xffffff00 = push_bit 24 (rd8 m i) + push_bit 16 (rd8 m (i + 1)) + push_bit 8 (rd8 m (i + 2))"
    unfolding mask_consts_be o1 o2 rd32be_or
    by (auto simp: bit_eq_iff bit_simps bit_rd8)
qed

section \<open>paths\<close>

lemma load_paths: "load32 m = load8 m" "load16 m = load8 m" "load32be m = load8be m"
proof -
  have "load16 m o' = load32 m o'" for o'
    using rd16_pair [of m o'] rd16_pair [of m "o' + 4"] rd16_pair [of m "o' + 8"]
    by (simp add: load16_def load32_def add.commute add.left_commute)
  moreover have "load32 m o' = load8 m o'" for o'
    by (simp add: load32_def load8_def rd32_def add.commute add.left_commute)
  moreover have "load32be m o' = load8be m o'" for o'
    by (simp add: load32be_def load8be_def rd32be_def add.commute add.left_commute)
  ultimately show "load32 m = load8 m" "load16 m = load8 m" "load32be m = load8be m"
    by (simp_all add: fun_eq_iff)
qed

lemma le12_cases:
  assumes "n \<le> (12::nat)"
  obtains "n = 0" | "n = 1" | "n = 2" | "n = 3" | "n = 4" | "n = 5" | "n = 6" | "n = 7" | "n = 8"
    | "n = 9" | "n = 10" | "n = 11" | "n = 12"
proof -
  from assms have "n \<in> {0, 1, 2, 3, 4, 5, 6, 7, 8, 9, 10, 11, 12}"
    by (simp add: numeral_eq_Suc le_Suc_eq)
  then show ?thesis using that by blast
qed

lemmas tail_defs = tail32_def tail32v_def tail16_def tail8_def tail32be_def tail32bev_def tail8be_def

lemma tail32_eq_tail8: "len \<le> 12 \<Longrightarrow> tail32 m o' len s = tail8 m o' len s"
  by (cases s, elim le12_cases)
    (simp_all add: tail32_def tail8_def rd32_mask, simp_all add: rd32_def ac_simps)

lemma Suc3: "Suc (Suc (Suc n)) = n + 3"
  by simp

lemma tail16_eq_tail8: "len \<le> 12 \<Longrightarrow> tail16 m o' len s = tail8 m o' len s"
  by (cases s, elim le12_cases)
    (simp_all add: tail16_def tail8_def rd16_def push_bit_add Suc3 ac_simps)

lemma tail32v_eq_tail8: "len \<le> 12 \<Longrightarrow> tail32v m o' len s = tail8 m o' len s"
  by (cases s, elim le12_cases)
    (simp_all add: tail32v_def tail8_def rd32_def ac_simps)

lemma tail32be_eq_tail8be: "len \<le> 12 \<Longrightarrow> tail32be m o' len s = tail8be m o' len s"
  by (cases s, elim le12_cases)
    (simp_all add: tail32be_def tail8be_def rd32be_mask, simp_all add: rd32be_def ac_simps)

lemma tail32bev_eq_tail8be: "len \<le> 12 \<Longrightarrow> tail32bev m o' len s = tail8be m o' len s"
  by (cases s, elim le12_cases)
    (simp_all add: tail32bev_def tail8be_def rd32be_def ac_simps)

section \<open>The mixing steps can be undone\<close>
definition mix_line :: "nat \<Rightarrow> hstate \<Rightarrow> hstate" where
  "mix_line k s = (case s of (x, y, z) \<Rightarrow> (y, z + y, (x - z) XOR rot z k))"

definition unmix_line :: "nat \<Rightarrow> hstate \<Rightarrow> hstate" where
  "unmix_line k s = (case s of (y, z, x) \<Rightarrow> let z = z - y in ((x XOR rot z k) + z, y, z))"

definition unmix :: "hstate \<Rightarrow> hstate" where
  "unmix s = unmix_line 4 (unmix_line 6 (unmix_line 8 (unmix_line 16 (unmix_line 19
     (unmix_line 4 s)))))"

lemma mix_lines:
  "mix s = mix_line 4 (mix_line 19 (mix_line 16 (mix_line 8 (mix_line 6 (mix_line 4 s)))))"
  by (cases s) (simp add: mix_def mix_line_def Let_def)

lemma unmix_line_mix_line [simp]: "unmix_line k (mix_line k s) = s"
  by (cases s) (simp add: mix_line_def unmix_line_def xor.assoc)

lemma mix_line_unmix_line [simp]: "mix_line k (unmix_line k s) = s"
  by (cases s) (simp add: mix_line_def unmix_line_def xor.assoc Let_def)

text \<open>\<^verbatim>\<open>mix\<close> is reversible, as the comment of \<^verbatim>\<open>lookup3.hpp\<close> asks of it ("any information in
  (a,b,c) before mix() is still in (a,b,c) after mix()"): an explicit inverse undoes it on every
  state, so no two states are mixed into one.\<close>

theorem mix_reversible: "unmix (mix s) = s \<and> mix (unmix s) = s"
  by (simp add: mix_lines unmix_def)

section \<open>All paths compute the same hash\<close>

lemma blocks_rest:
  "blocks ld o' len s = (s', o'', r) \<Longrightarrow> r \<le> 12 \<and> o'' + r = o' + len"
proof (induction ld o' len s rule: blocks.induct)
  case (1 ld o' len s)
  show ?case
  proof (cases "12 < len")
    case True
    with "1.IH" "1.prems" show ?thesis by (simp add: blocks.simps [of ld o' len s])
  next
    case False
    with "1.prems" show ?thesis by (auto simp: blocks.simps [of ld o' len s])
  qed
qed

lemma hl_path_tail_cong:
  assumes "\<And>o' r s. r \<le> 12 \<Longrightarrow> t o' r s = t' o' r s"
  shows "hl_path ld t len s = hl_path ld t' len s"
  using assms blocks_rest [of ld 0 len s]
  by (auto simp: hl_path_def split: prod.split)

lemma hl_path_byte:
  "hl_path (load32 m) (tail32 m) len s = hl_path (load8 m) (tail8 m) len s"
  "hl_path (load16 m) (tail16 m) len s = hl_path (load8 m) (tail8 m) len s"
  "hl_path (load32 m) (tail32v m) len s = hl_path (load8 m) (tail8 m) len s"
  "hl_path (load32be m) (tail32be m) len s = hl_path (load8be m) (tail8be m) len s"
  "hl_path (load32be m) (tail32bev m) len s = hl_path (load8be m) (tail8be m) len s"
  unfolding load_paths
  by (rule hl_path_tail_cong,
      simp add: tail32_eq_tail8 tail16_eq_tail8 tail32v_eq_tail8 tail32be_eq_tail8be
        tail32bev_eq_tail8be)+

lemma hl_state_byte: "hl_state le addr m len s = hl_path (load8 m) (tail8 m) len s"
  by (simp add: hl_state_def hl_path_byte)

lemma blocks_agree:
  assumes "\<And>p. o' \<le> p \<Longrightarrow> p + 12 \<le> o' + len \<Longrightarrow> ld p = ld' p"
  shows "blocks ld o' len s = blocks ld' o' len s"
  using assms
proof (induction ld o' len s rule: blocks.induct)
  case (1 ld o' len s)
  show ?case
  proof (cases "12 < len")
    case True
    have "blocks ld (o' + 12) (len - 12) (mix (add3 s (ld o')))
        = blocks ld' (o' + 12) (len - 12) (mix (add3 s (ld o')))"
      using True by (intro "1.IH") (auto intro: "1.prems")
    moreover have "ld o' = ld' o'" using True by (intro "1.prems") auto
    ultimately show ?thesis
      using True by (simp add: blocks.simps [of ld o' len s] blocks.simps [of ld' o' len s])
  next
    case False
    then show ?thesis by (simp add: blocks.simps [of ld o' len s] blocks.simps [of ld' o' len s])
  qed
qed

lemma tail8_agree:
  "(\<And>i. i < o' + r \<Longrightarrow> m i = m' i) \<Longrightarrow> tail8 m o' r s = tail8 m' o' r s"
  by (cases s) (simp add: tail8_def rd8_def cong: if_cong)

lemma load8_agree:
  "(\<And>i. i < p + 12 \<Longrightarrow> m i = m' i) \<Longrightarrow> load8 m p = load8 m' p"
  by (simp add: load8_def rd8_def)

lemma hl_path_agree:
  assumes "\<And>i. i < len \<Longrightarrow> m i = m' i"
  shows "hl_path (load8 m) (tail8 m) len s = hl_path (load8 m') (tail8 m') len s"
proof -
  obtain s' o' r where b: "blocks (load8 m) 0 len s = (s', o', r)"
    by (cases "blocks (load8 m) 0 len s")
  then have "o' + r = len" using blocks_rest by fastforce
  then have "tail8 m o' r s' = tail8 m' o' r s'"
    using assms by (intro tail8_agree) auto
  moreover have "blocks (load8 m') 0 len s = blocks (load8 m) 0 len s"
    using assms by (intro blocks_agree load8_agree) auto
  ultimately show ?thesis by (simp add: hl_path_def b)
qed

lemma hashlittle_agree:
  assumes "\<And>i. i < len \<Longrightarrow> m i = m' i"
  shows "hashlittle le addr m len initval = hashlittle le' addr' m' len initval"
  unfolding hashlittle_def hl_state_byte using hl_path_agree [of len m m'] assms by simp

lemma hashlittle2_fst:
  "fst (hashlittle2 le addr m len pc 0) = hashlittle le addr m len pc"
  by (simp add: hashlittle2_def hashlittle_def hseed_def Let_def split: prod.split)

text \<open>C9: the hash of a byte string does not depend on the alignment of the key, on the byte order
  the header detected (which only disables the word-wise paths) or on the bytes the word-wise paths
  read behind the end of the key: the 32-bit, the 16-bit and the byte-wise code compute the same
  value on every key and every length.\<close>

theorem hashlittle_paths_agree:
  assumes "\<And>i. i < len \<Longrightarrow> m i = m' i"
  shows "hashlittle le addr m len initval = hashlittle le' addr' m' len initval"
  using assms by (rule hashlittle_agree)

lemma hashlittle_paths_agree_witness:
  "hashlittle True 4 (\<lambda>i. if i < 3 then 0x61 else 0xff) 3 0
    = hashlittle False 1 (\<lambda>i. 0x61) 3 0"
  by (rule hashlittle_paths_agree) simp

lemma hw_blocks:
  assumes "\<And>i. i < length k \<Longrightarrow> k ! i = w (o' + 4 * i)"
    and "\<And>p. ld p = (w p, w (p + 4), w (p + 8))"
    and "hw_loop k s = (k', s')"
  shows "\<exists>o''. blocks ld o' (4 * length k) s = (s', o'', 4 * length k') \<and> length k' \<le> 3 \<and>
    (\<forall>i < length k'. k' ! i = w (o'' + 4 * i))"
  using assms
proof (induction k s arbitrary: o' rule: hw_loop.induct)
  case (1 k s)
  show ?case
  proof (cases "3 < length k")
    case True
    let ?s = "mix (add3 s (k ! 0, k ! 1, k ! 2))"
    have ld: "ld o' = (k ! 0, k ! 1, k ! 2)"
    proof -
      have "k ! 0 = w o'" "k ! 1 = w (o' + 4)" "k ! 2 = w (o' + 8)"
        using "1.prems"(1) [of 0] "1.prems"(1) [of 1] "1.prems"(1) [of 2] True
        by (fastforce simp del: One_nat_def)+
      then show ?thesis by (simp add: "1.prems"(2))
    qed
    have "hw_loop (drop 3 k) ?s = (k', s')"
      using "1.prems"(3) True by (simp add: hw_loop.simps [of k s])
    moreover have "drop 3 k ! i = w (o' + 12 + 4 * i)" if "i < length (drop 3 k)" for i
      using "1.prems"(1) [of "3 + i"] that by (simp add: algebra_simps)
    ultimately obtain o'' where
      "blocks ld (o' + 12) (4 * length (drop 3 k)) ?s = (s', o'', 4 * length k')"
      "length k' \<le> 3" "\<forall>i < length k'. k' ! i = w (o'' + 4 * i)"
      using "1.IH" [OF True _ "1.prems"(2)] by blast
    moreover have "4 * length (drop 3 k) = 4 * length k - 12" by simp
    ultimately show ?thesis
      using True ld by (auto simp: blocks.simps [of ld o' "4 * length k" s])
  next
    case False
    then have "k' = k" "s' = s"
      using "1.prems"(3) by (simp_all add: hw_loop.simps [of k s])
    moreover have "blocks ld o' (4 * length k) s = (s, o', 4 * length k)"
      using False by (simp add: blocks.simps)
    ultimately show ?thesis using "1.prems"(1) False by auto
  qed
qed

lemma hw_tail_bytes:
  assumes "length k \<le> 3" and "\<And>i. i < length k \<Longrightarrow> k ! i = rd32 m (o' + 4 * i)"
  shows "hw_tail k s = (if length k = 0 then s else final_mix (tail32 m o' (4 * length k) s))"
proof -
  consider "length k = 0" | "length k = 1" | "length k = 2" | "length k = 3"
    using assms(1) by linarith
  then show ?thesis
    using assms(2) [of 0] assms(2) [of 1] assms(2) [of 2]
    by cases (cases s; simp add: hw_tail_def tail32_def)+
qed

lemma hw_tail_bytes_be:
  assumes "length k \<le> 3" and "\<And>i. i < length k \<Longrightarrow> k ! i = rd32be m (o' + 4 * i)"
  shows "hw_tail k s = (if length k = 0 then s else final_mix (tail32be m o' (4 * length k) s))"
proof -
  consider "length k = 0" | "length k = 1" | "length k = 2" | "length k = 3"
    using assms(1) by linarith
  then show ?thesis
    using assms(2) [of 0] assms(2) [of 1] assms(2) [of 2]
    by cases (cases s; simp add: hw_tail_def tail32be_def)+
qed

lemma hw_state:
  assumes "\<And>i. i < length k \<Longrightarrow> k ! i = rd32 m (4 * i)"
  shows "(case hw_loop k s of (k', s') \<Rightarrow> hw_tail k' s') = hl_path (load32 m) (tail32 m) (4 * length k) s"
proof -
  obtain k' s' where h: "hw_loop k s = (k', s')" by (cases "hw_loop k s")
  obtain o'' where "blocks (load32 m) 0 (4 * length k) s = (s', o'', 4 * length k')"
    and "length k' \<le> 3" and "\<forall>i < length k'. k' ! i = rd32 m (o'' + 4 * i)"
    using hw_blocks [of k "rd32 m" 0 "load32 m", OF _ _ h] assms by (auto simp: load32_def)
  then show ?thesis
    by (simp add: h hl_path_def hw_tail_bytes)
qed

lemma hw_state_be:
  assumes "\<And>i. i < length k \<Longrightarrow> k ! i = rd32be m (4 * i)"
  shows "(case hw_loop k s of (k', s') \<Rightarrow> hw_tail k' s') = hl_path (load32be m) (tail32be m) (4 * length k) s"
proof -
  obtain k' s' where h: "hw_loop k s = (k', s')" by (cases "hw_loop k s")
  obtain o'' where "blocks (load32be m) 0 (4 * length k) s = (s', o'', 4 * length k')"
    and "length k' \<le> 3" and "\<forall>i < length k'. k' ! i = rd32be m (o'' + 4 * i)"
    using hw_blocks [of k "rd32be m" 0 "load32be m", OF _ _ h] assms by (auto simp: load32be_def)
  then show ?thesis
    by (simp add: h hl_path_def hw_tail_bytes_be)
qed

lemma seed_words: "push_bit 2 (word_of_nat n) = (word_of_nat (4 * n) :: u32)"
  by (simp add: push_bit_eq_mult)

text \<open>\<^verbatim>\<open>hashword\<close> of an array of 32-bit words is \<^verbatim>\<open>hashlittle\<close> of the same storage read as bytes
  on a little-endian machine ("hashword() ... is identical to hashlittle() on little-endian
  machines"), for every number of words, every alignment and every seed.\<close>

theorem hashword_is_hashlittle:
  assumes "\<And>i. i < length k \<Longrightarrow> k ! i = rd32 m (4 * i)"
  shows "hashword k initval = hashlittle le addr m (4 * length k) initval"
proof -
  have "hashword k initval = snd (snd (case hw_loop k (hseed (word_of_nat (4 * length k)) initval)
      of (k', s') \<Rightarrow> hw_tail k' s'))"
    by (simp add: hashword_def seed_words split: prod.split)
  then show ?thesis
    by (simp only: hw_state [of k m, OF assms] hashlittle_def hl_state_byte hl_path_byte)
qed

lemma hashword_is_hashlittle_witness:
  "hashword [0x64636261, 0x68676665] 7 = hashlittle True 0
     (mem_of [0x61, 0x62, 0x63, 0x64, 0x65, 0x66, 0x67, 0x68]) (4 * length [0x64636261 :: u32, 0x68676665]) 7"
proof (rule hashword_is_hashlittle)
  fix i :: nat
  assume "i < length [0x64636261 :: u32, 0x68676665]"
  then have "i = 0 \<or> i = 1" by auto
  then show "[0x64636261, 0x68676665] ! i = rd32
      (mem_of [0x61, 0x62, 0x63, 0x64, 0x65, 0x66, 0x67, 0x68]) (4 * i)"
    by (elim disjE) (simp_all add: rd32_def rd8_def mem_of_def)
qed

text \<open>\<^verbatim>\<open>hashword\<close> is \<^verbatim>\<open>hashbig\<close> of the same storage on a big-endian machine, through either of
  the paths of \<^verbatim>\<open>hashbig\<close>.\<close>

theorem hashword_is_hashbig:
  assumes "\<And>i. i < length k \<Longrightarrow> k ! i = rd32be m (4 * i)"
  shows "hashword k initval = hashbig be addr m (4 * length k) initval"
proof -
  have "hashword k initval = snd (snd (case hw_loop k (hseed (word_of_nat (4 * length k)) initval)
      of (k', s') \<Rightarrow> hw_tail k' s'))"
    by (simp add: hashword_def seed_words split: prod.split)
  then show ?thesis
    by (simp only: hw_state_be [of k m, OF assms] hashbig_def hl_path_byte if_cancel Let_def)
qed

lemma hashword_is_hashbig_witness:
  "hashword [0x61626364, 0x65666768] 7 = hashbig False 3
     (mem_of [0x61, 0x62, 0x63, 0x64, 0x65, 0x66, 0x67, 0x68]) (4 * length [0x61626364 :: u32, 0x65666768]) 7"
proof (rule hashword_is_hashbig)
  fix i :: nat
  assume "i < length [0x61626364 :: u32, 0x65666768]"
  then have "i = 0 \<or> i = 1" by auto
  then show "[0x61626364, 0x65666768] ! i = rd32be
      (mem_of [0x61, 0x62, 0x63, 0x64, 0x65, 0x66, 0x67, 0x68]) (4 * i)"
    by (elim disjE) (simp_all add: rd32be_def rd8_def mem_of_def)
qed

text \<open>\<^verbatim>\<open>hashword2\<close> and \<^verbatim>\<open>hashlittle2\<close>, which return two hashes, extend the single ones: with a
  second seed of zero their first result is \<^verbatim>\<open>hashword\<close> resp. \<^verbatim>\<open>hashlittle\<close>.\<close>

theorem hashword2_extends_hashword: "fst (hashword2 k pc 0) = hashword k pc \<and>
    fst (hashlittle2 le addr m len pc 0) = hashlittle le addr m len pc"
  by (simp add: hashlittle2_fst, simp add: hashword2_def hashword_def seed_words hseed_def Let_def
      split: prod.split)

lemma normalize_char_idem [simp]: "normalize_char (normalize_char c) = normalize_char c"
proof (cases "0x61 \<le> c \<and> c \<le> 0x7a")
  case True
  then have "unat c \<ge> 0x61" "unat c \<le> 0x7a" by (simp_all add: word_le_nat_alt)
  then have "unat (c - 0x20) = unat c - 0x20"
    by (simp add: unat_sub word_le_nat_alt)
  then have "unat (c - 0x20) < 0x61" "unat (c - 0x20) \<noteq> 0x2f"
    using \<open>unat c \<le> 0x7a\<close> \<open>unat c \<ge> 0x61\<close> by simp_all
  then have "\<not> 0x61 \<le> c - 0x20" "c - 0x20 \<noteq> 0x2f"
    by (auto simp: word_le_nat_alt)
  moreover have "c \<noteq> 0x2f" using True by (auto simp: word_le_nat_alt)
  ultimately show ?thesis using True by (simp add: normalize_char_def)
qed (auto simp: normalize_char_def)

lemma JenkinsHash_hashlittle:
  "JenkinsHash le addr p =
    hashlittle False 0 (mem_of (map normalize_char p)) (length p) 0"
  by (simp add: JenkinsHash_def Let_def hashlittle2_fst) (rule hashlittle_agree, simp)

text \<open>\<^verbatim>\<open>JenkinsHash\<close> is \<^verbatim>\<open>hashlittle\<close> (seeded with zero) of the path with upper case letters and
  backslashes, so two spellings of a path that differ only in case and in the direction of the
  slashes have the same hash, wherever the strings are stored.\<close>

theorem JenkinsHash_normalised:
  assumes "map normalize_char p = map normalize_char q"
  shows "JenkinsHash le addr p = hashlittle False 0 (mem_of (map normalize_char q)) (length q) 0 \<and>
    JenkinsHash le addr p = JenkinsHash le' addr' q"
  using map_eq_imp_length_eq [OF assms] assms by (simp add: JenkinsHash_hashlittle)

lemma JenkinsHash_normalised_witness:
  "JenkinsHash True 0 [0x61, 0x2f, 0x62] = JenkinsHash False 1 [0x41, 0x5c, 0x42]"
  by (rule conjunct2 [OF JenkinsHash_normalised]) (simp add: normalize_char_def)

end
