(* ===== verification/Endian.thy ===== *)
theory Endian
  imports Prelude
begin

text \<open>
  \<^verbatim>\<open>libtactmon/utility/Endian.hpp\<close>: the object representation of integers and the conversion
  between byte orders. The machine is little-endian (\<^verbatim>\<open>std::endian::native\<close>), so the object
  representation of an integer is \<open>bytes_of\<close> and \<^verbatim>\<open>bit_cast\<close> back is \<open>word_of\<close>.
\<close>

unbundle bit_operations_syntax

datatype endian = Little | Big

definition native :: endian where
  "native = Little"

primrec word_of :: "byte list \<Rightarrow> 'a::len word" where
  "word_of [] = 0"
| "word_of (b # bs) = ucast b OR push_bit 8 (word_of bs)"

definition bytes_of :: "'a::len word \<Rightarrow> byte list" where
  "bytes_of w = map (\<lambda>i. ucast (drop_bit (8 * i) w)) [0..<LENGTH('a) div 8]"

definition byteswap :: "'a::len word \<Rightarrow> 'a word" where
  "byteswap value = (let value_representation = bytes_of value in word_of (rev value_representation))"

definition to_endianness :: "endian \<Rightarrow> endian \<Rightarrow> 'a::len word \<Rightarrow> 'a word" where
  "to_endianness to from value = (if from = to then value else byteswap value)"

section \<open>Object representations\<close>

lemma length_bytes_of [simp]: "length (bytes_of (w :: 'a::len word)) = LENGTH('a) div 8"
  by (simp add: bytes_of_def)

lemma nth_bytes_of: "i < LENGTH('a) div 8 \<Longrightarrow> bytes_of (w :: 'a::len word) ! i = ucast (drop_bit (8 * i) w)"
  by (simp add: bytes_of_def)

lemma bit_word_of:
  "bit (word_of bs :: 'a::len word) n \<longleftrightarrow>
    n < LENGTH('a) \<and> n div 8 < length bs \<and> bit (bs ! (n div 8)) (n mod 8)"
proof (induction bs arbitrary: n)
  case (Cons b bs)
  show ?case
  proof (cases "n < 8")
    case True
    then show ?thesis by (auto simp: bit_simps)
  next
    case False
    then have "n div 8 = Suc ((n - 8) div 8)" "(n - 8) mod 8 = n mod 8"
      by (simp_all add: div_if mod_if)
    moreover have "\<not> bit b n" using False by (auto dest: bit_imp_le_length)
    ultimately show ?thesis using False by (auto simp: bit_simps Cons.IH)
  qed
qed simp

lemma bytes_of_word_of:
  assumes "length bs = LENGTH('a) div 8"
  shows "bytes_of (word_of bs :: 'a::len word) = bs"
proof (rule nth_equalityI)
  fix i assume "i < length (bytes_of (word_of bs :: 'a word))"
  then have i: "i < LENGTH('a) div 8" by simp
  have "ucast (drop_bit (8 * i) (word_of bs :: 'a word)) = bs ! i"
  proof (rule bit_word_eqI)
    fix n assume n: "n < LENGTH(8)"
    then have "(8 * i + n) div 8 = i" "(8 * i + n) mod 8 = n" by simp_all
    moreover have "8 * i + n < LENGTH('a)"
      using i n by (auto simp: less_eq_div_iff_mult_less_eq)
    ultimately show "bit (ucast (drop_bit (8 * i) (word_of bs :: 'a word)) :: byte) n = bit (bs ! i) n"
      using i n assms by (simp add: bit_simps bit_word_of)
  qed
  then show "bytes_of (word_of bs :: 'a word) ! i = bs ! i"
    using i by (simp add: nth_bytes_of)
qed (simp add: assms)

lemma word_of_bytes_of:
  assumes "8 dvd LENGTH('a)"
  shows "word_of (bytes_of w) = (w :: 'a::len word)"
proof (rule bit_word_eqI)
  fix n assume n: "n < LENGTH('a)"
  then have "n div 8 < LENGTH('a) div 8"
    using assms by (auto elim!: dvdE simp: less_mult_imp_div_less mult.commute)
  then show "bit (word_of (bytes_of w) :: 'a word) n = bit w n"
    using n by (simp add: bit_word_of nth_bytes_of bit_simps)
qed

lemma word_of_append_zero: "word_of (bs @ replicate n 0) = word_of bs"
  by (rule bit_word_eqI) (auto simp: bit_word_of nth_append)

text \<open>The low bytes of a small value, and the loop that folds big-endian bytes into a value.\<close>

lemma word_of_take_bytes:
  fixes v :: "'a::len word"
  assumes "8 dvd LENGTH('a)" and "unat v < 2 ^ (8 * k)"
  shows "word_of (take k (bytes_of v)) = v"
proof (rule bit_word_eqI)
  fix n assume n: "n < LENGTH('a)"
  have d: "n div 8 < LENGTH('a) div 8"
    using n assms(1) by (auto elim!: dvdE simp: less_mult_imp_div_less mult.commute)
  show "bit (word_of (take k (bytes_of v)) :: 'a word) n = bit v n"
  proof (cases "n < 8 * k")
    case True
    then have "n div 8 < k" by (simp add: less_mult_imp_div_less mult.commute)
    then show ?thesis using n d by (simp add: bit_word_of nth_bytes_of bit_simps)
  next
    case False
    have v: "take_bit (8 * k) (unat v) = unat v" using assms(2) by (rule take_bit_nat_eq_self)
    have "bit (take_bit (8 * k) (unat v)) n = False" using False by (simp only: bit_take_bit_iff) simp
    then have "\<not> bit (unat v) n" unfolding v by simp
    then have "\<not> bit v n" using n by (simp add: bit_unsigned_iff)
    moreover have "k \<le> n div 8" using False div_le_mono [of "8 * k" n 8] by simp
    ultimately show ?thesis by (simp add: bit_word_of)
  qed
qed

definition fold_uint :: "byte list \<Rightarrow> 'a::len word" where
  "fold_uint bs = fold (\<lambda>byte value. push_bit 8 value OR ucast byte) bs 0"

lemma fold_uint_rev [simp]: "fold_uint (rev bs) = word_of bs"
  unfolding fold_uint_def by (induction bs) (simp_all add: or.commute)

lemma fold_uint_be:
  "8 dvd LENGTH('a) \<Longrightarrow> unat v < 2 ^ (8 * k) \<Longrightarrow> fold_uint (rev (take k (bytes_of v))) = (v :: 'a::len word)"
  by (simp add: word_of_take_bytes)

lemma bytes_of_byteswap: "bytes_of (byteswap (w :: 'a::len word)) = rev (bytes_of w)"
  by (simp add: byteswap_def Let_def bytes_of_word_of)

lemma byteswap_byteswap: "8 dvd LENGTH('a) \<Longrightarrow> byteswap (byteswap w) = (w :: 'a::len word)"
  using bytes_of_byteswap [of w] by (simp add: byteswap_def [of "byteswap w"] Let_def word_of_bytes_of)

text \<open>Converting a 8, 16, 32 or 64-bit integer to another byte order reverses its object
  representation, and converting back restores the value; without a change of byte order both
  conversions are the identity.\<close>

theorem to_endianness_roundtrip:
  fixes w :: "'a::len word"
  assumes "8 dvd LENGTH('a)"
  shows "to_endianness from to (to_endianness to from w) = w \<and>
    bytes_of (to_endianness to from w) = (if from = to then bytes_of w else rev (bytes_of w))"
  using assms by (auto simp: to_endianness_def byteswap_byteswap bytes_of_byteswap)

lemma to_endianness_roundtrip_witness:
  "to_endianness Little Big (to_endianness Big Little (0x01020304 :: u32)) = 0x01020304"
  by (rule conjunct1 [OF to_endianness_roundtrip]) simp

end
