(* ===== verification/Hex.thy ===== *)
theory Hex
  imports Prelude "HOL-Library.Sublist"
begin

text \<open>
  \<^verbatim>\<open>libtactmon/utility/Hex.cpp\<close>: hexadecimal text. The \<^verbatim>\<open>DEBUG_ASSERT\<close>s are absent from release
  builds: what they state is a hypothesis of the theorems, and the model says what happens
  without it.
\<close>

unbundle bit_operations_syntax

definition byte_of_char :: "char \<Rightarrow> byte" where
  "byte_of_char c = word_of_nat (of_char c)"

definition char_of_byte :: "byte \<Rightarrow> char" where
  "char_of_byte b = char_of (unat b)"

lemma char_of_byte_of_char [simp]: "char_of_byte (byte_of_char c) = c"
  by (simp add: char_of_byte_def byte_of_char_def unat_of_nat)

lemma byte_of_char_of_byte [simp]: "byte_of_char (char_of_byte b) = b"
proof -
  have "unat b < 256" using unsigned_less [of b] by simp
  then show ?thesis by (simp add: char_of_byte_def byte_of_char_def)
qed

definition alphabet :: "char list" where
  "alphabet = ''0123456789abcdef''"

definition hex :: "byte list \<Rightarrow> string" where
  "hex data = concat (map (\<lambda>b. let loPart = b AND 0xF; hiPart = drop_bit 4 b
     in [alphabet ! unat hiPart, alphabet ! unat loPart]) data)"

definition LOOKUP :: "byte list" where
  "LOOKUP = replicate 48 0 @ [0, 1, 2, 3, 4, 5, 6, 7, 8, 9] @ replicate 7 0
     @ [0x0a, 0x0b, 0x0c, 0x0d, 0x0e, 0x0f] @ replicate 26 0
     @ [0x0a, 0x0b, 0x0c, 0x0d, 0x0e, 0x0f] @ replicate 153 0"

function unhex_loop :: "nat \<Rightarrow> string \<Rightarrow> byte list \<Rightarrow> byte list result" where
  "unhex_loop i input data =
     (if i < length input
      then bindr (at input (i + 1)) (\<lambda>lo.
        let loPart = byte_of_char lo; hiPart = byte_of_char (input ! i) in
        bindr (set_at data (i div 2) (LOOKUP ! unat loPart OR push_bit 4 (LOOKUP ! unat hiPart)))
          (unhex_loop (i + 2) input))
      else Inr data)"
  by pat_completeness auto
termination by (relation "measure (\<lambda>(i, input, data). length input - i)") auto

declare unhex_loop.simps [simp del]

definition unhex :: "string \<Rightarrow> byte list \<Rightarrow> byte list result" where
  "unhex input data = unhex_loop 0 input data"

section \<open>What the loop computes\<close>

text \<open>The value of one pair of digits, and of a string of pairs.\<close>

definition hex_pair :: "char \<Rightarrow> char \<Rightarrow> byte" where
  "hex_pair hi lo = LOOKUP ! unat (byte_of_char lo) OR push_bit 4 (LOOKUP ! unat (byte_of_char hi))"

fun unhex_bytes :: "string \<Rightarrow> byte list" where
  "unhex_bytes (hi # lo # s) = hex_pair hi lo # unhex_bytes s"
| "unhex_bytes _ = []"

lemma length_unhex_bytes [simp]: "length (unhex_bytes s) = length s div 2"
  by (induction s rule: unhex_bytes.induct) auto

lemma unhex_loop_bytes:
  assumes "even i" and "i \<le> length input" and "even (length input)"
    and "length input div 2 \<le> length data"
  shows "unhex_loop i input data =
    Inr (take (i div 2) data @ unhex_bytes (drop i input) @ drop (length input div 2) data)"
  using assms
proof (induction i input data rule: unhex_loop.induct)
  case (1 i input data)
  show ?case
  proof (cases "i < length input")
    case True
    with "1.prems" have i: "i + 1 < length input" by (metis Suc_eq_plus1 Suc_lessI even_Suc)
    then have "i div 2 < length data" using "1.prems" by linarith
    let ?b = "hex_pair (input ! i) (input ! (i + 1))"
    have "unhex_loop i input data = unhex_loop (i + 2) input (data[i div 2 := ?b])"
      using i \<open>i div 2 < length data\<close>
      by (simp add: unhex_loop.simps [of i input data] hex_pair_def)
    also have "\<dots> = Inr (take ((i + 2) div 2) (data[i div 2 := ?b]) @ unhex_bytes (drop (i + 2) input)
        @ drop (length input div 2) (data[i div 2 := ?b]))"
      using "1.IH" [of "input ! (i + 1)"] "1.prems" i by (simp add: hex_pair_def)
    also have "take ((i + 2) div 2) (data[i div 2 := ?b]) = take (i div 2) data @ [?b]"
      using \<open>i div 2 < length data\<close> by (simp add: take_Suc_conv_app_nth)
    also have "drop (length input div 2) (data[i div 2 := ?b]) = drop (length input div 2) data"
      using i "1.prems" by (intro drop_update_cancel) linarith
    finally have "unhex_loop i input data = Inr ((take (i div 2) data @ [?b])
        @ unhex_bytes (drop (i + 2) input) @ drop (length input div 2) data)" .
    moreover have "unhex_bytes (drop i input) = ?b # unhex_bytes (drop (i + 2) input)"
      using i by (simp add: Cons_nth_drop_Suc [symmetric])
    ultimately show ?thesis by simp
  next
    case False
    then have "i = length input" using "1.prems" by simp
    then show ?thesis using "1.prems" by (simp add: unhex_loop.simps [of "length input"])
  qed
qed

lemma unhex_ok:
  "even (length input) \<Longrightarrow> length input div 2 \<le> length data \<Longrightarrow>
    unhex input data = Inr (unhex_bytes input @ drop (length input div 2) data)"
  by (simp add: unhex_def unhex_loop_bytes)

lemma unhex_loop_error:
  assumes "even i" and "i \<le> length input" and "odd (length input) \<or> length data < length input div 2"
    and "i div 2 \<le> length data"
  shows "unhex_loop i input data = Inl OutOfBounds"
  using assms
proof (induction i input data rule: unhex_loop.induct)
  case (1 i input data)
  have lt: "i < length input"
    using "1.prems" by (metis add_le_cancel_left div_le_mono le_neq_implies_less linorder_not_le)
  show ?case
  proof (cases "i + 1 < length input \<and> i div 2 < length data")
    case True
    then show ?thesis
      using lt "1.prems" "1.IH" [of "input ! (i + 1)"] by (simp add: unhex_loop.simps [of i input data])
  next
    case False
    then show ?thesis
      using lt by (auto simp: unhex_loop.simps [of i input data] at_def set_at_def)
  qed
qed

lemma unhex_is_ok_iff:
  "is_ok (unhex input data) \<longleftrightarrow> even (length input) \<and> length input div 2 \<le> length data"
proof (cases "even (length input) \<and> length input div 2 \<le> length data")
  case True
  then show ?thesis by (simp add: unhex_ok)
next
  case False
  then have "unhex input data = Inl OutOfBounds"
    unfolding unhex_def by (intro unhex_loop_error) auto
  then show ?thesis using False by simp
qed

section \<open>Digits\<close>

lemma less_16: "n < 16 \<Longrightarrow> n \<in> {0, 1, 2, 3, 4, 5, 6, 7, 8, 9, 10, 11, 12, 13, 14, 15 :: nat}"
  by (simp only: insert_iff empty_iff simp_thms) presburger

lemma length_alphabet [simp]: "length alphabet = 16"
  by (simp add: alphabet_def)

lemma alphabetE:
  assumes "c \<in> set alphabet"
  obtains n where "n < 16" and "c = alphabet ! n"
  using assms by (auto simp: in_set_conv_nth)

lemma map_LOOKUP_alphabet:
  "map (\<lambda>c. LOOKUP ! unat (byte_of_char c)) alphabet = map word_of_nat [0..<16]"
  by code_simp

lemma LOOKUP_alphabet: "n < 16 \<Longrightarrow> LOOKUP ! unat (byte_of_char (alphabet ! n)) = word_of_nat n"
  using arg_cong [OF map_LOOKUP_alphabet, of "\<lambda>xs. xs ! n"] by simp

lemma nibbles:
  fixes b :: byte
  shows "unat (b AND 0xF) < 16" and "unat (drop_bit 4 b) < 16"
    and "(b AND 0xF) OR push_bit 4 (drop_bit 4 b) = b"
proof -
  have F: "(0xF :: byte) = mask 4" by (simp add: mask_eq_exp_minus_1)
  have "unat (b AND 0xF) = take_bit 4 (unat b)"
    unfolding F by (simp only: unsigned_take_bit_eq flip: take_bit_eq_mask)
  then show "unat (b AND 0xF) < 16" using take_bit_nat_less_exp [of 4 "unat b"] by simp
  have "unat b < 256" by simp
  then show "unat (drop_bit 4 b) < 16"
    by (simp only: unat_drop_bit_eq drop_bit_eq_div [of _ "unat b"]) (simp del: unat_less)
  show "(b AND 0xF) OR push_bit 4 (drop_bit 4 b) = b"
  proof (rule bit_word_eqI)
    fix n assume "n < LENGTH(8)"
    then show "bit ((b AND 0xF) OR push_bit 4 (drop_bit 4 b)) n = bit b n"
      unfolding F by (cases "n < 4") (auto simp: bit_simps)
  qed
qed

lemma hex_pair_alphabet:
  "hex_pair (alphabet ! unat (drop_bit 4 b)) (alphabet ! unat (b AND 0xF)) = b"
  using nibbles [of b] by (simp add: hex_pair_def LOOKUP_alphabet)

lemma length_hex [simp]: "length (hex bs) = 2 * length bs"
  by (induction bs) (simp_all add: hex_def Let_def)

lemma unhex_bytes_hex [simp]: "unhex_bytes (hex bs) = bs"
  by (induction bs) (simp_all add: hex_def Let_def hex_pair_alphabet)

lemma set_hex: "set (hex bs) \<subseteq> set alphabet"
proof -
  have "alphabet ! unat (drop_bit 4 b) \<in> set alphabet" "alphabet ! unat (b AND 0xF) \<in> set alphabet" for b :: byte
    using nibbles [of b] by (intro nth_mem; simp add: alphabet_def)+
  then show ?thesis by (auto simp: hex_def Let_def)
qed

lemma hex_pair_hex:
  assumes "hi \<in> set alphabet" and "lo \<in> set alphabet"
  shows "hex [hex_pair hi lo] = [hi, lo]"
proof -
  obtain h l where hl: "h < 16" "l < 16" "hi = alphabet ! h" "lo = alphabet ! l"
    using assms by (metis alphabetE)
  have "(word_of_nat l OR push_bit 4 (word_of_nat h) :: byte) AND 0xF = word_of_nat l"
    "drop_bit 4 (word_of_nat l OR push_bit 4 (word_of_nat h) :: byte) = word_of_nat h"
  proof -
    have "l \<in> {0, 1, 2, 3, 4, 5, 6, 7, 8, 9, 10, 11, 12, 13, 14, 15}"
      "h \<in> {0, 1, 2, 3, 4, 5, 6, 7, 8, 9, 10, 11, 12, 13, 14, 15}" using hl less_16 by auto
    then show "(word_of_nat l OR push_bit 4 (word_of_nat h) :: byte) AND 0xF = word_of_nat l"
      "drop_bit 4 (word_of_nat l OR push_bit 4 (word_of_nat h) :: byte) = word_of_nat h"
      by auto
  qed
  then show ?thesis
    using hl by (simp add: hex_def hex_pair_def LOOKUP_alphabet unat_of_nat)
qed

lemma hex_unhex_bytes:
  assumes "set s \<subseteq> set alphabet" and "even (length s)"
  shows "hex (unhex_bytes s) = s"
  using assms
proof (induction s rule: unhex_bytes.induct)
  case (1 hi lo s)
  then have "hex [hex_pair hi lo] = [hi, lo]" by (intro hex_pair_hex) auto
  moreover have "hex (unhex_bytes s) = s" using 1 by auto
  ultimately show ?case by (simp add: hex_def)
qed (auto simp: hex_def)

end
