(* ===== verification/Key.thy ===== *)
theory Key
  imports Hex
begin

text \<open>
  \<^verbatim>\<open>libtactmon/tact/detail/Key.cpp\<close>, \<^verbatim>\<open>CKey.cpp\<close> and \<^verbatim>\<open>EKey.cpp\<close>: content and encoding keys. A key
  owns an array of \<^verbatim>\<open>_size\<close> bytes behind a \<^verbatim>\<open>unique_ptr\<close>; the null pointer of a key that was
  default constructed or moved from is the empty array. \<open>CKey\<close> and \<open>EKey\<close> have the same code.
\<close>

record Key =
  k_data :: "byte list"   \<comment> \<open>\<^verbatim>\<open>_data\<close>\<close>
  k_size :: nat           \<comment> \<open>\<^verbatim>\<open>_size\<close>\<close>

type_synonym CKey = Key
type_synonym EKey = Key

definition Key_default :: Key where
  "Key_default = \<lparr>k_data = [], k_size = 0\<rparr>"

definition Key_of_span :: "byte list \<Rightarrow> Key" where
  "Key_of_span data = \<lparr>k_data = data, k_size = length data\<rparr>"

text \<open>\<^verbatim>\<open>std::copy_n\<close> of \<^verbatim>\<open>other._size\<close> bytes out of the array of the other key.\<close>

definition Key_copy :: "Key \<Rightarrow> Key result" where
  "Key_copy other = bindr (subspan 0 (k_size other) (k_data other))
     (\<lambda>bs. Inr \<lparr>k_data = bs, k_size = k_size other\<rparr>)"

text \<open>The copy assignment allocates before it copies, so assigning a key to itself copies from the
  new array of zeroes.\<close>

definition Key_assign :: "Key \<Rightarrow> Key result" where
  "Key_assign = Key_copy"

definition Key_assign_self :: "Key \<Rightarrow> Key" where
  "Key_assign_self k = k\<lparr>k_data := replicate (k_size k) 0\<rparr>"

text \<open>The move constructor and assignment: the new key and what is left of the other one.\<close>

definition Key_move :: "Key \<Rightarrow> Key \<times> Key" where
  "Key_move other =
     (\<lparr>k_data = k_data other, k_size = k_size other\<rparr>, other\<lparr>k_data := [], k_size := 0\<rparr>)"

definition Key_ToString :: "Key \<Rightarrow> string result" where
  "Key_ToString k = bindr (subspan 0 (k_size k) (k_data k)) (\<lambda>bs. Inr (hex bs))"

definition Key_data :: "Key \<Rightarrow> byte list result" where
  "Key_data k = subspan 0 (k_size k) (k_data k)"

text \<open>\<^verbatim>\<open>operator ==\<close> on two keys, and on a key and a range.\<close>

definition Key_eq :: "Key \<Rightarrow> Key \<Rightarrow> bool result" where
  "Key_eq left right =
     (if k_size left \<noteq> k_size right then Inr False
      else bindr (Key_data left) (\<lambda>l. bindr (Key_data right) (\<lambda>r. Inr (l = r))))"

definition Key_eq_range :: "Key \<Rightarrow> byte list \<Rightarrow> bool result" where
  "Key_eq_range left right = bindr (Key_data left) (\<lambda>l. Inr (l = right))"

text \<open>\<^verbatim>\<open>TryParse\<close>: the boolean result and the key written to \<^verbatim>\<open>target\<close>.\<close>

definition CKey_TryParse :: "string \<Rightarrow> (bool \<times> CKey) result" where
  "CKey_TryParse value =
     (let size = length value div 2 in
      bindr (unhex value (replicate size 0)) (\<lambda>data. Inr (True, \<lparr>k_data = data, k_size = size\<rparr>)))"

definition EKey_TryParse :: "string \<Rightarrow> (bool \<times> EKey) result" where
  "EKey_TryParse value =
     (let size = length value div 2 in
      bindr (unhex value (replicate size 0)) (\<lambda>data. Inr (True, \<lparr>k_data = data, k_size = size\<rparr>)))"

section \<open>Keys own exactly \<^verbatim>\<open>_size\<close> bytes\<close>

definition key_wf :: "Key \<Rightarrow> bool" where
  "key_wf k \<longleftrightarrow> length (k_data k) = k_size k"

lemma key_wf_simps [simp]:
  "key_wf Key_default" "key_wf (Key_of_span bs)" "key_wf \<lparr>k_data = bs, k_size = length bs\<rparr>"
  by (simp_all add: key_wf_def Key_default_def Key_of_span_def)

lemma key_wf_ops:
  assumes "key_wf k"
  shows "Key_copy k = Inr k" and "Key_data k = Inr (k_data k)" and "Key_ToString k = Inr (hex (k_data k))"
    and "key_wf (fst (Key_move k))" and "key_wf (snd (Key_move k))"
  using assms by (auto simp: key_wf_def Key_copy_def Key_data_def Key_ToString_def Key_move_def slice_all)

lemma Key_eq_wf [simp]: "key_wf k \<Longrightarrow> key_wf l \<Longrightarrow> Key_eq k l = Inr (k = l)"
  by (auto simp: Key_eq_def key_wf_ops key_wf_def)

lemma Key_eq_range_wf [simp]: "key_wf k \<Longrightarrow> Key_eq_range k bs = Inr (k_data k = bs)"
  by (simp add: Key_eq_range_def key_wf_ops)

lemma TryParse_unhex:
  "even (length s) \<Longrightarrow> CKey_TryParse s = Inr (True, Key_of_span (unhex_bytes s))"
  "even (length s) \<Longrightarrow> EKey_TryParse s = Inr (True, Key_of_span (unhex_bytes s))"
  by (simp_all add: CKey_TryParse_def EKey_TryParse_def Let_def unhex_ok Key_of_span_def)

lemma TryParse_odd:
  "odd (length s) \<Longrightarrow> CKey_TryParse s = Inl OutOfBounds"
  "odd (length s) \<Longrightarrow> EKey_TryParse s = Inl OutOfBounds"
  by (simp_all add: CKey_TryParse_def EKey_TryParse_def Let_def unhex_def unhex_loop_error)

lemma TryParse_wf:
  "CKey_TryParse s = Inr (b, k) \<Longrightarrow> b \<and> key_wf k"
  "EKey_TryParse s = Inr (b, k) \<Longrightarrow> b \<and> key_wf k"
  by (cases "even (length s)"; auto simp: TryParse_unhex TryParse_odd)+

text \<open>A key survives the round trip through its hexadecimal text: parsing what \<^verbatim>\<open>ToString\<close> prints
  restores the key, for content keys and for encoding keys, and every key that is parsed from a
  text of lower case hexadecimal digits prints as that text.\<close>

theorem Key_ToString_TryParse:
  assumes "key_wf k" and "set s \<subseteq> set alphabet" and "even (length s)"
  shows "bindr (Key_ToString k) CKey_TryParse = Inr (True, k) \<and>
    bindr (Key_ToString k) EKey_TryParse = Inr (True, k) \<and>
    bindr (CKey_TryParse s) (\<lambda>(b, k'). Key_ToString k') = Inr s"
  using assms
  by (simp add: key_wf_ops TryParse_unhex) (simp add: Key_of_span_def key_wf_def hex_unhex_bytes)

lemma Key_ToString_TryParse_witness:
  "bindr (Key_ToString (Key_of_span [0xde, 0x01])) CKey_TryParse = Inr (True, Key_of_span [0xde, 0x01]) \<and>
    bindr (CKey_TryParse ''c0de'') (\<lambda>(b, k'). Key_ToString k') = Inr ''c0de''"
  using Key_ToString_TryParse [of "Key_of_span [0xde, 0x01]" "''c0de''"] by (simp add: alphabet_def)

text \<open>\<^verbatim>\<open>TryParse\<close> always reports success and never rejects a text: it stays inside the text and the
  key exactly when the text has an even number of characters, and characters that are no digits are
  read as zero.\<close>

theorem TryParse_never_rejects:
  "(is_ok (CKey_TryParse s) \<longleftrightarrow> even (length s)) \<and>
   (is_ok (EKey_TryParse s) \<longleftrightarrow> even (length s)) \<and>
   (\<forall>b k. CKey_TryParse s = Inr (b, k) \<longrightarrow> b \<and> k_data k = unhex_bytes s)"
  by (cases "even (length s)") (auto simp: TryParse_unhex TryParse_odd Key_of_span_def)

lemma TryParse_never_rejects_witness:
  "\<exists>k. CKey_TryParse ''zz'' = Inr (True, k) \<and> k_data k = [0]"
proof -
  have "unhex_bytes ''zz'' = [0]" by code_simp
  then show ?thesis using TryParse_never_rejects [of "''zz''"] by (auto simp: is_ok_iff)
qed

end
