(* ===== verification/Tokenizer.thy ===== *)
theory Tokenizer
  imports Prelude "HOL-Library.Sublist"
begin

text \<open>
  \<^verbatim>\<open>libtactmon/detail/Tokenizer.hpp\<close>: the four overloads of \<^verbatim>\<open>Tokenize\<close>, over any character type.
  A string view is a list. \<open>find_char\<close> and \<open>find_sub\<close> are the two overloads of
  \<^verbatim>\<open>basic_string_view::find\<close> that the function calls.
\<close>

section \<open>\<^verbatim>\<open>basic_string_view::find\<close>\<close>

primrec find_char :: "'c \<Rightarrow> 'c list \<Rightarrow> nat option" where
  "find_char c [] = None"
| "find_char c (x # xs) = (if x = c then Some 0 else map_option Suc (find_char c xs))"

primrec find_sub :: "'c list \<Rightarrow> 'c list \<Rightarrow> nat option" where
  "find_sub t [] = (if t = [] then Some 0 else None)"
| "find_sub t (x # xs) = (if prefix t (x # xs) then Some 0 else map_option Suc (find_sub t xs))"

lemma find_char_None: "find_char c s = None \<longleftrightarrow> c \<notin> set s"
  by (induction s) auto

lemma find_char_Some:
  "find_char c s = Some n \<longleftrightarrow> n < length s \<and> s ! n = c \<and> c \<notin> set (take n s)"
proof (induction s arbitrary: n)
  case (Cons x s)
  then show ?case by (cases n) auto
qed simp

lemma find_char_split:
  assumes "find_char c s = Some n"
  shows "s = take n s @ c # drop (Suc n) s" and "c \<notin> set (take n s)"
  using assms by (auto simp: find_char_Some id_take_nth_drop [symmetric])

lemma find_sub_Some:
  assumes "find_sub t s = Some n"
  shows "n + length t \<le> length s" and "s = take n s @ t @ drop (n + length t) s"
  using assms
proof (induction s arbitrary: n)
  case (Cons x s)
  {
    case 1
    with Cons.IH(1) show ?case by (auto split: if_splits dest: prefix_length_le)
  next
    case 2
    with Cons.IH(2) show ?case
      by (auto split: if_splits elim!: prefixE simp: drop_append)
  }
qed (auto split: if_splits)

lemma find_sub_Nil [simp]: "find_sub [] s = Some 0"
  by (cases s) auto

section \<open>The overload with one character\<close>

function Tokenize_char :: "'c list \<Rightarrow> 'c \<Rightarrow> bool \<Rightarrow> 'c list list" where
  "Tokenize_char input token removeEmptyTokens =
     (if input = [] then []
      else case find_char token input of
        None \<Rightarrow> if \<not> removeEmptyTokens \<or> input \<noteq> [] then [input] else []
      | Some pos \<Rightarrow>
          let elem = take pos input;
              rest = Tokenize_char (drop (pos + 1) input) token removeEmptyTokens
          in if \<not> removeEmptyTokens \<or> elem \<noteq> [] then elem # rest else rest)"
  by pat_completeness auto
termination
  by (relation "measure (\<lambda>(input, _). length input)") auto

declare Tokenize_char.simps [simp del]

section \<open>The overload with a set of characters\<close>

text \<open>The inner loop: the first position of any of the tokens.\<close>

definition closest :: "('t \<Rightarrow> nat option) \<Rightarrow> 't list \<Rightarrow> nat option" where
  "closest position tokens = fold (\<lambda>token tokenPosition.
     case position token of
       None \<Rightarrow> tokenPosition
     | Some pos \<Rightarrow> (case tokenPosition of None \<Rightarrow> Some pos
                    | Some p \<Rightarrow> if pos < p then Some pos else Some p)) tokens None"

function Tokenize_chars :: "'c list \<Rightarrow> 'c list \<Rightarrow> bool \<Rightarrow> 'c list list" where
  "Tokenize_chars input tokens removeEmptyTokens =
     (if input = [] then []
      else case closest (\<lambda>token. find_char token input) tokens of
        None \<Rightarrow> [input]
      | Some tokenPosition \<Rightarrow>
          let rest = Tokenize_chars (drop (tokenPosition + 1) input) tokens removeEmptyTokens
          in if \<not> removeEmptyTokens \<or> 0 < tokenPosition
             then take tokenPosition input # rest else rest)"
  by pat_completeness auto
termination
  by (relation "measure (\<lambda>(input, _). length input)") auto

declare Tokenize_chars.simps [simp del]

section \<open>The overload with one string\<close>

text \<open>With an empty token the position is always zero and the view never shrinks; \<open>fuel\<close> bounds the
  number of iterations, \<open>Diverges\<close> is what remains when it is used up.\<close>

primrec Tokenize_sub_loop ::
  "nat \<Rightarrow> 'c list \<Rightarrow> 'c list \<Rightarrow> bool \<Rightarrow> 'c list list \<Rightarrow> 'c list list result" where
  "Tokenize_sub_loop 0 input token removeEmptyTokens result =
     (if input = [] then Inr result else Inl Diverges)"
| "Tokenize_sub_loop (Suc fuel) input token removeEmptyTokens result =
     (if input = [] then Inr result
      else case find_sub token input of
        None \<Rightarrow> Inr (if \<not> removeEmptyTokens \<or> input \<noteq> [] then result @ [input] else result)
      | Some pos \<Rightarrow>
          let elem = take pos input in
          Tokenize_sub_loop fuel (drop (pos + length token) input) token removeEmptyTokens
            (if \<not> removeEmptyTokens \<or> elem \<noteq> [] then result @ [elem] else result))"

definition Tokenize_sub :: "'c list \<Rightarrow> 'c list \<Rightarrow> bool \<Rightarrow> 'c list list result" where
  "Tokenize_sub input token removeEmptyTokens =
     Tokenize_sub_loop (length input) input token removeEmptyTokens []"

section \<open>The overload with a set of strings\<close>

text \<open>\<^verbatim>\<open>selectedToken\<close> points to the loop variable, a copy that is gone when its length is read.\<close>

definition Tokenize_subs :: "'c list \<Rightarrow> 'c list list \<Rightarrow> bool \<Rightarrow> 'c list list result" where
  "Tokenize_subs input tokens removeEmptyTokens =
     (if input = [] then Inr []
      else case closest (\<lambda>token. find_sub token input) tokens of
        None \<Rightarrow> Inr (if \<not> removeEmptyTokens \<or> input \<noteq> [] then [input] else [])
      | Some tokenPosition \<Rightarrow> Inl Dangling)"

section \<open>Splitting and joining\<close>

lemma find_sub_None: "find_sub t s = None \<longleftrightarrow> \<not> sublist t s"
  by (induction s) (auto simp: sublist_Cons_right)

lemma find_sub_first:
  "find_sub t s = Some n \<Longrightarrow> k < n \<Longrightarrow> \<not> prefix t (drop k s)"
proof (induction s arbitrary: n k)
  case (Cons x s)
  then show ?case by (cases k) (auto split: if_splits)
qed (auto split: if_splits)

lemma find_sub_take:
  assumes "find_sub t s = Some n" and "t \<noteq> []"
  shows "\<not> sublist t (take n s)"
proof
  assume "sublist t (take n s)"
  then obtain us vs where uv: "take n s = us @ t @ vs" by (auto simp: sublist_def)
  then have "length us < n" using assms(2) find_sub_Some(1) [OF assms(1)]
    by (metis length_append length_greater_0_conv length_take less_add_same_cancel1 min.strict_boundedE
        order_le_less_trans add_gr_0 le_add1 not_add_less1 linorder_neqE_nat)
  moreover have "prefix t (drop (length us) s)"
  proof -
    have "s = us @ t @ vs @ drop n s" using append_take_drop_id [of n s] uv by simp
    then have "drop (length us) s = t @ vs @ drop n s" by (metis append_eq_conv_conj)
    then show ?thesis by simp
  qed
  ultimately show False using find_sub_first [OF assms(1)] by blast
qed

text \<open>The pieces joined again, with the separator after each of them.\<close>

definition rejoin :: "'c list \<Rightarrow> 'c list list \<Rightarrow> 'c list" where
  "rejoin t es = concat (map (\<lambda>e. e @ t) es)"

lemma rejoin_simps [simp]: "rejoin t [] = []" "rejoin t (e # es) = e @ t @ rejoin t es"
  by (simp_all add: rejoin_def)

text \<open>What a tokenizer promises: \<open>es\<close> are the pieces of \<open>s\<close> between the occurrences of \<open>t\<close>, and a
  separator at the very end does not open another piece.\<close>

definition pieces :: "'c list \<Rightarrow> 'c list \<Rightarrow> 'c list list \<Rightarrow> bool" where
  "pieces t s es \<longleftrightarrow> (\<forall>e \<in> set es. \<not> sublist t e) \<and>
     (rejoin t es = s \<or> rejoin t es = s @ t \<and> es \<noteq> [] \<and> last es \<noteq> [])"

lemma pieces_Nil [simp]: "pieces t [] []"
  by (simp add: pieces_def)

lemma pieces_single: "s \<noteq> [] \<Longrightarrow> \<not> sublist t s \<Longrightarrow> pieces t s [s]"
  by (simp add: pieces_def)

lemma pieces_Cons:
  assumes "find_sub t s = Some n" and "t \<noteq> []" and "pieces t (drop (n + length t) s) es"
  shows "pieces t s (take n s # es)"
proof -
  have "rejoin t (take n s # es) = take n s @ t @ rejoin t es" by simp
  then show ?thesis
    using assms find_sub_take [OF assms(1,2)] find_sub_Some(2) [OF assms(1)]
    unfolding pieces_def by (auto simp: append_assoc [symmetric] simp del: append_assoc)
qed

lemma Tokenize_sub_loop_pieces:
  assumes "t \<noteq> []" and "length s \<le> fuel"
  shows "\<exists>es. pieces t s es \<and> (\<forall>acc. Tokenize_sub_loop fuel s t False acc = Inr (acc @ es)) \<and>
    (\<forall>acc. Tokenize_sub_loop fuel s t True acc = Inr (acc @ filter (\<lambda>e. e \<noteq> []) es))"
  using assms(2)
proof (induction fuel arbitrary: s)
  case 0
  then show ?case by (intro exI [of _ "[]"]) simp
next
  case (Suc fuel)
  show ?case
  proof (cases "s = []")
    case True
    then show ?thesis by (intro exI [of _ "[]"]) simp
  next
    case s: False
    show ?thesis
    proof (cases "find_sub t s")
      case None
      then have "pieces t s [s]" using s by (simp add: find_sub_None pieces_single)
      then show ?thesis using s None by (intro exI [of _ "[s]"]) simp
    next
      case (Some n)
      have "length (drop (n + length t) s) \<le> fuel"
        using Suc.prems s assms(1) by (cases t) auto
      from Suc.IH [OF this] obtain es where es: "pieces t (drop (n + length t) s) es"
        "\<forall>acc. Tokenize_sub_loop fuel (drop (n + length t) s) t False acc = Inr (acc @ es)"
        "\<forall>acc. Tokenize_sub_loop fuel (drop (n + length t) s) t True acc
          = Inr (acc @ filter (\<lambda>e. e \<noteq> []) es)" by blast
      then show ?thesis
        using s Some pieces_Cons [OF Some assms(1)]
        by (intro exI [of _ "take n s # es"]) (simp add: Let_def)
    qed
  qed
qed

lemma Tokenize_sub_loop_empty_token:
  "s \<noteq> [] \<Longrightarrow> Tokenize_sub_loop fuel s [] r acc = Inl Diverges"
  by (induction fuel arbitrary: acc) (simp_all add: Let_def)

section \<open>The overloads agree\<close>

lemma find_sub_char: "find_sub [c] s = find_char c s"
  by (induction s) auto

lemma Tokenize_sub_loop_char:
  "length s \<le> fuel \<Longrightarrow> Tokenize_sub_loop fuel s [c] r acc = Inr (acc @ Tokenize_char s c r)"
proof (induction fuel arbitrary: s acc)
  case 0
  then show ?case by (simp add: Tokenize_char.simps)
next
  case (Suc fuel)
  show ?case
  proof (cases "find_char c s")
    case None
    then show ?thesis by (simp add: find_sub_char Tokenize_char.simps [of s])
  next
    case (Some n)
    then have "length (drop (n + 1) s) \<le> fuel" using Suc.prems by simp
    then show ?thesis
      using Some Suc.IH [of "drop (n + 1) s"]
      by (simp add: find_sub_char Tokenize_char.simps [of s] Let_def)
  qed
qed

lemma Tokenize_sub_char: "Tokenize_sub s [c] r = Inr (Tokenize_char s c r)"
  by (simp add: Tokenize_sub_def Tokenize_sub_loop_char)

lemma closest_single [simp]: "closest f [c] = f c"
  by (simp add: closest_def split: option.split)

lemma Tokenize_chars_char: "Tokenize_chars s [c] r = Tokenize_char s c r"
proof (induction s c r rule: Tokenize_char.induct)
  case (1 s c r)
  show ?case
  proof (cases "find_char c s")
    case None
    then show ?thesis by (simp add: Tokenize_chars.simps [of s] Tokenize_char.simps [of s])
  next
    case (Some n)
    then have "s \<noteq> []" by auto
    then show ?thesis
      using Some "1.IH" [OF _ Some refl]
      by (simp add: Tokenize_chars.simps [of s] Tokenize_char.simps [of s] Let_def)
  qed
qed

lemma Tokenize_char_pieces:
  "pieces [c] s (Tokenize_char s c False)"
  "Tokenize_char s c True = filter (\<lambda>e. e \<noteq> []) (Tokenize_char s c False)"
  using Tokenize_sub_loop_pieces [of "[c]" s "length s"]
  by (auto simp: Tokenize_sub_loop_char)

section \<open>Splitting a text that was joined\<close>

lemma find_char_append: "c \<notin> set e \<Longrightarrow> find_char c (e @ c # s) = Some (length e)"
  by (induction e) auto

lemma Tokenize_char_step:
  "c \<notin> set e \<Longrightarrow> Tokenize_char (e @ c # s) c r =
    (if \<not> r \<or> e \<noteq> [] then e # Tokenize_char s c r else Tokenize_char s c r)"
  by (simp add: Tokenize_char.simps [of "e @ c # s"] find_char_append Let_def)

lemma Tokenize_char_Nil [simp]: "Tokenize_char [] c r = []"
  by (simp add: Tokenize_char.simps)

lemma Tokenize_char_none: "c \<notin> set e \<Longrightarrow> e \<noteq> [] \<Longrightarrow> Tokenize_char e c r = [e]"
  by (simp add: Tokenize_char.simps [of e] find_char_None [symmetric])

lemma Tokenize_char_rejoin:
  "(\<And>e. e \<in> set es \<Longrightarrow> c \<notin> set e) \<Longrightarrow> Tokenize_char (rejoin [c] es) c False = es"
  by (induction es) (auto simp: Tokenize_char_step)

lemma Tokenize_char_rejoin_nonempty:
  "(\<And>e. e \<in> set es \<Longrightarrow> c \<notin> set e \<and> e \<noteq> []) \<Longrightarrow> Tokenize_char (rejoin [c] es) c True = es"
  by (induction es) (auto simp: Tokenize_char_step)

lemma closest_snoc:
  "closest f (ts @ [t]) = (case f t of None \<Rightarrow> closest f ts
    | Some p \<Rightarrow> (case closest f ts of None \<Rightarrow> Some p | Some q \<Rightarrow> if p < q then Some p else Some q))"
  unfolding closest_def by simp

lemma closest_None: "(\<And>t. t \<in> set ts \<Longrightarrow> f t = None) \<Longrightarrow> closest f ts = None"
  by (induction ts rule: rev_induct) (simp_all add: closest_snoc closest_def)

lemma closest_least:
  assumes "\<And>t p. t \<in> set ts \<Longrightarrow> f t = Some p \<Longrightarrow> n \<le> p"
  shows "(\<exists>t \<in> set ts. f t = Some n) \<Longrightarrow> closest f ts = Some n"
    and "\<And>q. closest f ts = Some q \<Longrightarrow> n \<le> q"
  using assms
proof (induction ts rule: rev_induct)
  case (snoc t ts)
  {
    case 1
    then show ?case
      using snoc.IH by (auto simp: closest_snoc split: option.splits) (metis le_antisym not_le)+
  next
    case 2
    then show ?case
      using snoc.IH(2) by (auto simp: closest_snoc split: option.splits if_splits)
  }
qed (simp_all add: closest_def)

lemma closest_find_char:
  assumes "set w \<inter> set ts = {}"
  shows "c \<in> set ts \<Longrightarrow> closest (\<lambda>t. find_char t (w @ c # s)) ts = Some (length w)"
    and "closest (\<lambda>t. find_char t w) ts = None"
proof -
  assume c: "c \<in> set ts"
  show "closest (\<lambda>t. find_char t (w @ c # s)) ts = Some (length w)"
  proof (rule closest_least(1))
    fix t p
    assume t: "t \<in> set ts" and "find_char t (w @ c # s) = Some p"
    then have "(w @ c # s) ! p = t" by (simp add: find_char_Some)
    moreover have "t \<notin> set w" using assms t by auto
    ultimately show "length w \<le> p" by (auto simp: nth_append split: if_splits)
  next
    show "\<exists>t \<in> set ts. find_char t (w @ c # s) = Some (length w)"
      using c assms by (intro bexI [of _ c] find_char_append) auto
  qed
next
  show "closest (\<lambda>t. find_char t w) ts = None"
    using assms by (intro closest_None) (auto simp: find_char_None)
qed

lemma Tokenize_chars_step:
  "set w \<inter> set ts = {} \<Longrightarrow> c \<in> set ts \<Longrightarrow> Tokenize_chars (w @ c # s) ts r =
    (if \<not> r \<or> w \<noteq> [] then w # Tokenize_chars s ts r else Tokenize_chars s ts r)"
  by (simp add: Tokenize_chars.simps [of "w @ c # s"] closest_find_char Let_def)

lemma Tokenize_chars_skip: "c \<in> set ts \<Longrightarrow> Tokenize_chars (c # s) ts True = Tokenize_chars s ts True"
  using Tokenize_chars_step [of "[]" ts c s True] by simp

lemma Tokenize_chars_Nil [simp]: "Tokenize_chars [] ts r = []"
  by (simp add: Tokenize_chars.simps)

lemma Tokenize_chars_none: "set w \<inter> set ts = {} \<Longrightarrow> w \<noteq> [] \<Longrightarrow> Tokenize_chars w ts r = [w]"
  by (simp add: Tokenize_chars.simps [of w] closest_find_char)

section \<open>Properties\<close>

text \<open>With a non-empty separator \<^verbatim>\<open>Tokenize\<close> returns, for every text: no token contains the
  separator, the tokens joined by it are the text again (a separator at the end of the text opens
  no further token), and \<^verbatim>\<open>removeEmptyTokens\<close> drops exactly the empty tokens. With an empty
  separator and a non-empty text the loop never ends, however many iterations it is given.\<close>

theorem Tokenize_sub_splits:
  "(token \<noteq> [] \<longrightarrow> (\<exists>es. Tokenize_sub input token False = Inr es \<and> pieces token input es \<and>
      Tokenize_sub input token True = Inr (filter (\<lambda>e. e \<noteq> []) es))) \<and>
   (token = [] \<longrightarrow> input \<noteq> [] \<longrightarrow> Tokenize_sub_loop fuel input token r [] = Inl Diverges)"
  using Tokenize_sub_loop_pieces [of token input "length input"]
  by (auto simp: Tokenize_sub_def Tokenize_sub_loop_empty_token)

lemma Tokenize_sub_splits_witness:
  "Tokenize_sub ''a = = b = '' '' = '' False = Inr [''a'', ''= b''] \<and>
    Tokenize_sub_loop 7 ''x'' [] False [] = Inl Diverges"
proof -
  have "\<exists>es. Tokenize_sub ''a = = b = '' '' = '' False = Inr es"
    using Tokenize_sub_splits [of "'' = ''" "''a = = b = ''" 0 False] by auto
  moreover have "Tokenize_sub ''a = = b = '' '' = '' False = Inr [''a'', ''= b'']"
    by code_simp
  ultimately show ?thesis
    using Tokenize_sub_splits [of "[]" "''x''" 7 False] by simp
qed

text \<open>The overloads of \<^verbatim>\<open>Tokenize\<close> agree: splitting at a character is splitting at the string of
  that character, and at the set that contains only it. The overload with several strings returns
  only for texts that contain none of them: otherwise it reads the length of a loop variable that
  no longer exists.\<close>

theorem Tokenize_overloads_agree:
  "Tokenize_sub input [c] r = Inr (Tokenize_char input c r) \<and>
   Tokenize_chars input [c] r = Tokenize_char input c r \<and>
   (Tokenize_subs input [token] r = Inl Dangling \<longleftrightarrow> input \<noteq> [] \<and> sublist token input)"
proof -
  have "sublist token input \<longleftrightarrow> find_sub token input \<noteq> None" by (simp add: find_sub_None)
  then show ?thesis
    by (auto simp: Tokenize_sub_char Tokenize_chars_char Tokenize_subs_def split: option.split)
qed

end
