(* ===== verification/Streams.thy ===== *)
theory Streams
  imports Endian Hex
begin

text \<open>
  \<^verbatim>\<open>libtactmon/io\<close>: the stream interfaces and their implementations. A stream class is a record of
  its virtual functions (\<open>readable\<close>) over the type of its objects; the templates of
  \<^verbatim>\<open>IReadableStream\<close>, which call them, take that record. A function that fills a buffer takes the
  contents of the buffer and returns the new ones, so a function that leaves it alone is visible.
  The locale \<open>readable_stream\<close> states what a client relies on; \<^verbatim>\<open>FileStream\<close> and
  \<^verbatim>\<open>GrowableMemoryStream\<close> provide it, \<^verbatim>\<open>SpanStream\<close> and \<^verbatim>\<open>MemoryStream\<close> do not.
\<close>

unbundle bit_operations_syntax

section \<open>\<^verbatim>\<open>IReadableStream\<close>\<close>

record 's readable =
  GetLength :: "'s \<Rightarrow> nat"
  GetReadCursor :: "'s \<Rightarrow> nat"
  SeekRead :: "nat \<Rightarrow> 's \<Rightarrow> nat \<times> 's"
  SkipRead :: "nat \<Rightarrow> 's \<Rightarrow> 's"
  CanRead :: "nat \<Rightarrow> 's \<Rightarrow> bool"
  Data :: "'s \<Rightarrow> byte list result"
  ReadImpl :: "byte list \<Rightarrow> 's \<Rightarrow> (byte list \<times> nat \<times> 's) result"

text \<open>The loop of \<^verbatim>\<open>_ReadSpan\<close> and \<^verbatim>\<open>_WriteSpan\<close> that reverses the bytes of each element between
  \<open>first\<close> and \<open>last'\<close>. It compares for inequality only, so it walks out of the buffer when the
  range is no multiple of the element size.\<close>

function reverse_elements :: "nat \<Rightarrow> nat \<Rightarrow> nat \<Rightarrow> byte list \<Rightarrow> byte list result" where
  "reverse_elements elementSize first last' buf =
     (if first = last' then Inr buf
      else if elementSize = 0 then Inl Diverges
      else if length buf < first + elementSize then Inl OutOfBounds
      else reverse_elements elementSize (first + elementSize) last'
        (take first buf @ rev (slice first elementSize buf) @ drop (first + elementSize) buf))"
  by pat_completeness auto
termination
  by (relation "measure (\<lambda>(_, first, _, buf). length buf - first)") auto

declare reverse_elements.simps [simp del]

definition ReadSpan ::
  "'s readable \<Rightarrow> byte list \<Rightarrow> endian \<Rightarrow> nat \<Rightarrow> 's \<Rightarrow> (byte list \<times> nat \<times> 's) result" where
  "ReadSpan io writableSpan endianness elementSize s =
     bindr (ReadImpl io writableSpan s) (\<lambda>(buf, readCount, s').
       if endianness \<noteq> native
       then bindr (reverse_elements elementSize 0 readCount buf) (\<lambda>buf. Inr (buf, readCount, s'))
       else Inr (buf, readCount, s'))"

text \<open>\<^verbatim>\<open>Read(T&, std::endian)\<close>: the value, the number of bytes read and the stream.\<close>

definition Read :: "'s readable \<Rightarrow> 'a::len word \<Rightarrow> endian \<Rightarrow> 's \<Rightarrow> ('a word \<times> nat \<times> 's) result" where
  "Read io value endianness s =
     bindr (ReadSpan io (bytes_of value) endianness (LENGTH('a) div 8) s)
       (\<lambda>(buf, n, s'). Inr (word_of buf, n, s'))"

text \<open>\<^verbatim>\<open>T Read(std::endian)\<close>.\<close>

definition ReadValue :: "'s readable \<Rightarrow> endian \<Rightarrow> 's \<Rightarrow> ('a::len word \<times> 's) result" where
  "ReadValue io endianness s =
     bindr (Read io 0 endianness s) (\<lambda>(value, _, s'). Inr (value, s'))"

text \<open>\<^verbatim>\<open>Read(std::span<T>)\<close> and \<^verbatim>\<open>Read(std::vector<T>&)\<close> for a \<open>T\<close> of one byte.\<close>

definition ReadBytes :: "'s readable \<Rightarrow> byte list \<Rightarrow> endian \<Rightarrow> 's \<Rightarrow> (byte list \<times> nat \<times> 's) result" where
  "ReadBytes io span endianness s = ReadSpan io span endianness 1 s"

definition ReadString :: "'s readable \<Rightarrow> nat \<Rightarrow> 's \<Rightarrow> (string \<times> nat \<times> 's) result" where
  "ReadString io n s =
     bindr (ReadBytes io (replicate n 0) native s)
       (\<lambda>(buf, count, s'). Inr (map char_of_byte buf, count, s'))"

text \<open>\<^verbatim>\<open>ReadCString\<close>: \<^verbatim>\<open>elem\<close> keeps its value when nothing can be read, so at the end of the stream the
  loop appends the last character for ever. Each iteration before that consumes a byte: the length
  of the stream, and one more iteration, are enough (\<open>ReadCString_fuel\<close> below).\<close>

primrec ReadCString_loop ::
  "nat \<Rightarrow> 's readable \<Rightarrow> byte \<Rightarrow> string \<Rightarrow> 's \<Rightarrow> (string \<times> 's) result" where
  "ReadCString_loop 0 io elem value s = Inl Diverges"
| "ReadCString_loop (Suc fuel) io elem value s =
     bindr (Read io elem native s) (\<lambda>(elem, _, s').
       if elem = 0 then Inr (value, s')
       else ReadCString_loop fuel io elem (value @ [char_of_byte elem]) s')"

definition ReadCString :: "'s readable \<Rightarrow> 's \<Rightarrow> (string \<times> nat \<times> 's) result" where
  "ReadCString io s =
     bindr (ReadCString_loop (GetLength io s + 1) io 0 [] s)
       (\<lambda>(value, s'). Inr (value, length value, s'))"

section \<open>\<^verbatim>\<open>FileStream\<close>\<close>

text \<open>The mapped file is its bytes; opening a file that does not exist or is empty fails and leaves
  the mapping closed, with size zero.\<close>

record FileStream =
  fs_stream :: "byte list"
  fs_open :: bool
  fs_cursor :: nat

definition FileStream_new :: "byte list option \<Rightarrow> FileStream" where
  "FileStream_new content = (case content of
     Some bs \<Rightarrow> if bs = [] then \<lparr>fs_stream = [], fs_open = False, fs_cursor = 0\<rparr>
                else \<lparr>fs_stream = bs, fs_open = True, fs_cursor = 0\<rparr>
   | None \<Rightarrow> \<lparr>fs_stream = [], fs_open = False, fs_cursor = 0\<rparr>)"

definition FileStream_SeekRead :: "nat \<Rightarrow> FileStream \<Rightarrow> nat \<times> FileStream" where
  "FileStream_SeekRead off s = (off, s\<lparr>fs_cursor := off\<rparr>)"

definition FileStream_SkipRead :: "nat \<Rightarrow> FileStream \<Rightarrow> FileStream" where
  "FileStream_SkipRead off s = s\<lparr>fs_cursor := add_sz (fs_cursor s) off\<rparr>"

definition FileStream_CanRead :: "nat \<Rightarrow> FileStream \<Rightarrow> bool" where
  "FileStream_CanRead count s \<longleftrightarrow> add_sz (fs_cursor s) count \<le> length (fs_stream s)"

text \<open>A span of \<open>n\<close> bytes at \<open>p\<close> of an array.\<close>

definition FileStream_Data :: "FileStream \<Rightarrow> byte list result" where
  "FileStream_Data s = subspan (fs_cursor s) (sub_sz (length (fs_stream s)) (fs_cursor s)) (fs_stream s)"

definition FileStream_ReadImpl :: "byte list \<Rightarrow> FileStream \<Rightarrow> (byte list \<times> nat \<times> FileStream) result" where
  "FileStream_ReadImpl bytes s =
     (let len = min (length bytes) (sub_sz (length (fs_stream s)) (fs_cursor s)) in
      bindr (subspan (fs_cursor s) len (fs_stream s)) (\<lambda>src.
        Inr (src @ drop len bytes, len, s\<lparr>fs_cursor := add_sz (fs_cursor s) len\<rparr>)))"

definition FileStream_vt :: "FileStream readable" where
  "FileStream_vt = \<lparr>
     GetLength = (\<lambda>s. length (fs_stream s)),
     GetReadCursor = fs_cursor,
     SeekRead = FileStream_SeekRead,
     SkipRead = FileStream_SkipRead,
     CanRead = FileStream_CanRead,
     Data = FileStream_Data,
     ReadImpl = FileStream_ReadImpl\<rparr>"

section \<open>\<^verbatim>\<open>SpanStream\<close>\<close>

text \<open>A span into a larger piece of memory: reads outside the span are visible as long as they stay
  inside that memory.\<close>

record SpanStream =
  ss_memory :: "byte list"
  ss_base :: nat
  ss_size :: nat
  ss_cursor :: nat

definition SpanStream_new :: "byte list \<Rightarrow> nat \<Rightarrow> nat \<Rightarrow> SpanStream" where
  "SpanStream_new memory base n =
     \<lparr>ss_memory = memory, ss_base = base, ss_size = n, ss_cursor = 0\<rparr>"

definition SpanStream_SeekRead :: "nat \<Rightarrow> SpanStream \<Rightarrow> nat \<times> SpanStream" where
  "SpanStream_SeekRead off s = (let c = min off (ss_size s) in (c, s\<lparr>ss_cursor := c\<rparr>))"

definition SpanStream_SkipRead :: "nat \<Rightarrow> SpanStream \<Rightarrow> SpanStream" where
  "SpanStream_SkipRead off s = s\<lparr>ss_cursor := add_sz (ss_cursor s) off\<rparr>"

definition SpanStream_CanRead :: "nat \<Rightarrow> SpanStream \<Rightarrow> bool" where
  "SpanStream_CanRead amount s \<longleftrightarrow> add_sz (ss_cursor s) amount \<le> ss_size s"

definition SpanStream_Data :: "SpanStream \<Rightarrow> byte list result" where
  "SpanStream_Data s =
     (if ss_size s < ss_cursor s then Inl OutOfBounds
      else subspan (ss_base s + ss_cursor s) (ss_size s - ss_cursor s) (ss_memory s))"

definition SpanStream_ReadImpl :: "byte list \<Rightarrow> SpanStream \<Rightarrow> (byte list \<times> nat \<times> SpanStream) result" where
  "SpanStream_ReadImpl bytes s =
     (let len = min (length bytes) (sub_sz (ss_size s) (ss_cursor s)) in
      bindr (SpanStream_Data s) (\<lambda>view.
        if length view < len then Inl OutOfBounds
        else bindr (subspan (ss_base s + ss_cursor s + len) len (ss_memory s)) (\<lambda>src.
          Inr (src @ drop len bytes, len, s\<lparr>ss_cursor := add_sz (ss_cursor s) len\<rparr>))))"

definition SpanStream_vt :: "SpanStream readable" where
  "SpanStream_vt = \<lparr>
     GetLength = ss_size,
     GetReadCursor = ss_cursor,
     SeekRead = SpanStream_SeekRead,
     SkipRead = SpanStream_SkipRead,
     CanRead = SpanStream_CanRead,
     Data = SpanStream_Data,
     ReadImpl = SpanStream_ReadImpl\<rparr>"

section \<open>\<^verbatim>\<open>MemoryStream\<close>\<close>

record MemoryStream =
  ms_data :: "byte list"
  ms_cursor :: nat

definition MemoryStream_new :: "byte list \<Rightarrow> MemoryStream" where
  "MemoryStream_new data = \<lparr>ms_data = data, ms_cursor = 0\<rparr>"

definition MemoryStream_SeekRead :: "nat \<Rightarrow> MemoryStream \<Rightarrow> nat \<times> MemoryStream" where
  "MemoryStream_SeekRead off s = (let c = min (length (ms_data s)) off in (c, s\<lparr>ms_cursor := c\<rparr>))"

definition MemoryStream_SkipRead :: "nat \<Rightarrow> MemoryStream \<Rightarrow> MemoryStream" where
  "MemoryStream_SkipRead off s = s\<lparr>ms_cursor := add_sz (ms_cursor s) off\<rparr>"

definition MemoryStream_CanRead :: "nat \<Rightarrow> MemoryStream \<Rightarrow> bool" where
  "MemoryStream_CanRead amount s \<longleftrightarrow> add_sz (ms_cursor s) amount \<le> length (ms_data s)"

definition MemoryStream_Data :: "MemoryStream \<Rightarrow> byte list result" where
  "MemoryStream_Data s =
     (if length (ms_data s) < ms_cursor s then Inl OutOfBounds else Inr (drop (ms_cursor s) (ms_data s)))"

text \<open>The assignment rebinds the parameter, a span passed by value: the caller's bytes are not
  written.\<close>

definition MemoryStream_ReadImpl :: "byte list \<Rightarrow> MemoryStream \<Rightarrow> (byte list \<times> nat \<times> MemoryStream) result" where
  "MemoryStream_ReadImpl bytes s =
     (let len = min (length bytes) (sub_sz (length (ms_data s)) (ms_cursor s)) in
      bindr (subspan (ms_cursor s) len (ms_data s)) (\<lambda>bytes'.
        Inr (bytes, len, s\<lparr>ms_cursor := add_sz (ms_cursor s) len\<rparr>)))"

definition MemoryStream_vt :: "MemoryStream readable" where
  "MemoryStream_vt = \<lparr>
     GetLength = (\<lambda>s. length (ms_data s)),
     GetReadCursor = ms_cursor,
     SeekRead = MemoryStream_SeekRead,
     SkipRead = MemoryStream_SkipRead,
     CanRead = MemoryStream_CanRead,
     Data = MemoryStream_Data,
     ReadImpl = MemoryStream_ReadImpl\<rparr>"

section \<open>\<^verbatim>\<open>GrowableMemoryStream\<close>\<close>

record GrowableMemoryStream =
  gs_data :: "byte list"
  gs_readCursor :: nat
  gs_writeCursor :: nat

definition GrowableMemoryStream_new :: "byte list \<Rightarrow> GrowableMemoryStream" where
  "GrowableMemoryStream_new data = \<lparr>gs_data = data, gs_readCursor = 0, gs_writeCursor = 0\<rparr>"

text \<open>\<^verbatim>\<open>std::vector::resize\<close>.\<close>

definition resize :: "nat \<Rightarrow> byte list \<Rightarrow> byte list" where
  "resize n xs = take n xs @ replicate (n - length xs) 0"

definition GrowableMemoryStream_SeekRead :: "nat \<Rightarrow> GrowableMemoryStream \<Rightarrow> nat \<times> GrowableMemoryStream" where
  "GrowableMemoryStream_SeekRead off s =
     (let c = min off (length (gs_data s)) in (c, s\<lparr>gs_readCursor := c\<rparr>))"

definition GrowableMemoryStream_SkipRead :: "nat \<Rightarrow> GrowableMemoryStream \<Rightarrow> GrowableMemoryStream" where
  "GrowableMemoryStream_SkipRead off s = s\<lparr>gs_readCursor := add_sz (gs_readCursor s) off\<rparr>"

definition GrowableMemoryStream_CanRead :: "nat \<Rightarrow> GrowableMemoryStream \<Rightarrow> bool" where
  "GrowableMemoryStream_CanRead amount s \<longleftrightarrow> add_sz (gs_readCursor s) amount \<le> length (gs_data s)"

definition GrowableMemoryStream_Data :: "GrowableMemoryStream \<Rightarrow> byte list result" where
  "GrowableMemoryStream_Data s =
     (if length (gs_data s) < gs_readCursor s then Inl OutOfBounds
      else Inr (drop (gs_readCursor s) (gs_data s)))"

definition GrowableMemoryStream_ReadImpl ::
  "byte list \<Rightarrow> GrowableMemoryStream \<Rightarrow> (byte list \<times> nat \<times> GrowableMemoryStream) result" where
  "GrowableMemoryStream_ReadImpl bytes s =
     (let len = min (length bytes) (sub_sz (length (gs_data s)) (gs_readCursor s)) in
      bindr (GrowableMemoryStream_Data s) (\<lambda>view.
        bindr (subspan 0 len view) (\<lambda>src.
          Inr (src @ drop len bytes, len, s\<lparr>gs_readCursor := add_sz (gs_readCursor s) len\<rparr>))))"

definition GrowableMemoryStream_vt :: "GrowableMemoryStream readable" where
  "GrowableMemoryStream_vt = \<lparr>
     GetLength = (\<lambda>s. length (gs_data s)),
     GetReadCursor = gs_readCursor,
     SeekRead = GrowableMemoryStream_SeekRead,
     SkipRead = GrowableMemoryStream_SkipRead,
     CanRead = GrowableMemoryStream_CanRead,
     Data = GrowableMemoryStream_Data,
     ReadImpl = GrowableMemoryStream_ReadImpl\<rparr>"

section \<open>\<^verbatim>\<open>IWritableStream\<close>, as implemented by \<^verbatim>\<open>GrowableMemoryStream\<close>\<close>

definition SeekWrite :: "nat \<Rightarrow> GrowableMemoryStream \<Rightarrow> nat \<times> GrowableMemoryStream" where
  "SeekWrite off s = (off, s\<lparr>gs_writeCursor := off, gs_data := resize off (gs_data s)\<rparr>)"

definition SkipWrite :: "nat \<Rightarrow> GrowableMemoryStream \<Rightarrow> GrowableMemoryStream" where
  "SkipWrite off s = s\<lparr>gs_writeCursor := add_sz (gs_writeCursor s) off\<rparr>"

text \<open>\<^verbatim>\<open>_WriteImpl\<close> returns the span it has written: the offset and the size of it in the data.\<close>

definition WriteImpl ::
  "byte list \<Rightarrow> GrowableMemoryStream \<Rightarrow> ((nat \<times> nat) \<times> GrowableMemoryStream) result" where
  "WriteImpl bytes s =
     (let w = gs_writeCursor s; n = length bytes;
          data = (if length (gs_data s) < add_sz w n then resize (add_sz w n) (gs_data s) else gs_data s)
      in if length data < w + n then Inl OutOfBounds
         else Inr ((w, n), s\<lparr>gs_data := take w data @ bytes @ drop (w + n) data,
                              gs_writeCursor := add_sz w n\<rparr>))"

definition WriteSpan ::
  "byte list \<Rightarrow> endian \<Rightarrow> nat \<Rightarrow> GrowableMemoryStream \<Rightarrow> (nat \<times> GrowableMemoryStream) result" where
  "WriteSpan valueSpan endianness elementSize s =
     bindr (WriteImpl valueSpan s) (\<lambda>((off, n), s').
       if endianness \<noteq> native
       then bindr (reverse_elements elementSize 0 n (slice off n (gs_data s'))) (\<lambda>written.
         Inr (n, s'\<lparr>gs_data := take off (gs_data s') @ written @ drop (off + n) (gs_data s')\<rparr>))
       else Inr (n, s'))"

definition Write :: "'a::len word \<Rightarrow> endian \<Rightarrow> GrowableMemoryStream \<Rightarrow> (nat \<times> GrowableMemoryStream) result" where
  "Write value endianness s = WriteSpan (bytes_of value) endianness (LENGTH('a) div 8) s"

text \<open>\<^verbatim>\<open>Write\<close> of a span: the element size passed on is the size of the span object itself, a pointer
  and a length.\<close>

definition sizeof_span :: nat where
  "sizeof_span = 16"

definition Write_span :: "byte list \<Rightarrow> endian \<Rightarrow> GrowableMemoryStream \<Rightarrow> (nat \<times> GrowableMemoryStream) result" where
  "Write_span value endianness s = WriteSpan value endianness sizeof_span s"

definition WriteString :: "string \<Rightarrow> GrowableMemoryStream \<Rightarrow> (nat \<times> GrowableMemoryStream) result" where
  "WriteString value s = Write_span (map byte_of_char value) native s"

definition WriteCString :: "string \<Rightarrow> GrowableMemoryStream \<Rightarrow> (nat \<times> GrowableMemoryStream) result" where
  "WriteCString value s =
     bindr (WriteString value s) (\<lambda>(bytesWritten, s').
       if bytesWritten = length value
       then bindr (Write (0 :: byte) native s') (\<lambda>(n, s''). Inr (bytesWritten + n, s''))
       else Inr (bytesWritten, s'))"

section \<open>Reversing elements\<close>

lemma reverse_elements_dvd:
  assumes "0 < k" and "reverse_elements k first last' buf = Inr buf'"
  shows "first \<le> last' \<and> k dvd last' - first \<and> length buf' = length buf"
  using assms
proof (induction k first last' buf rule: reverse_elements.induct)
  case (1 k first last' buf)
  show ?case
  proof (cases "first = last' \<or> length buf < first + k")
    case True
    then show ?thesis using "1.prems" by (auto simp: reverse_elements.simps [of k first] split: if_splits)
  next
    case False
    let ?buf = "take first buf @ rev (slice first k buf) @ drop (first + k) buf"
    from False "1.prems" have r: "reverse_elements k (first + k) last' ?buf = Inr buf'"
      by (auto simp: reverse_elements.simps [of k first last' buf] split: if_splits)
    from False "1.prems"(1) "1.IH" [OF _ _ _ "1.prems"(1) r]
    have IH: "first + k \<le> last' \<and> k dvd last' - (first + k) \<and> length buf' = length ?buf" by simp
    then have "k dvd (last' - (first + k)) + k" by (intro dvd_add) auto
    then show ?thesis using IH False by auto
  qed
qed

lemma reverse_elements_one:
  "length buf = k \<Longrightarrow> reverse_elements k 0 k buf = Inr (rev buf)"
  by (cases "k = 0") (simp_all add: reverse_elements.simps slice_all)

lemma reverse_elements_bytes:
  "first \<le> last' \<Longrightarrow> last' \<le> length buf \<Longrightarrow> reverse_elements 1 first last' buf = Inr buf"
proof (induction "last' - first" arbitrary: first)
  case (Suc n)
  have "take first buf @ rev (slice first 1 buf) @ drop (first + 1) buf = buf"
    using Suc by (simp add: slice_def take_Suc_conv_app_nth [symmetric] take_Suc hd_drop_conv_nth
        Cons_nth_drop_Suc)
  moreover have "reverse_elements 1 (first + 1) last' buf = Inr buf"
    using Suc.prems Suc.hyps(2) by (intro Suc.hyps(1)) simp_all
  ultimately show ?case
    using Suc.prems by (subst reverse_elements.simps) simp
qed (simp add: reverse_elements.simps)

lemma reverse_elements_overrun:
  assumes "first < last'" and "last' < first + k" and "length buf \<le> first + k"
  shows "reverse_elements k first last' buf = Inl OutOfBounds"
proof (cases "length buf < first + k")
  case True
  then show ?thesis using assms by (simp add: reverse_elements.simps)
next
  case False
  then show ?thesis using assms
    by (simp add: reverse_elements.simps [of k first] reverse_elements.simps [of k "first + k"])
qed

section \<open>The interface of a readable stream\<close>

locale readable_stream =
  fixes io :: "'s readable" and content :: "'s \<Rightarrow> byte list" and ok :: "'s \<Rightarrow> bool"
  assumes GetLength: "ok s \<Longrightarrow> GetLength io s = length (content s)"
    and length_content: "ok s \<Longrightarrow> length (content s) < size_mod"
    and cursor: "ok s \<Longrightarrow> GetReadCursor io s \<le> length (content s)"
    and CanRead: "ok s \<Longrightarrow> GetReadCursor io s + n < size_mod \<Longrightarrow>
      CanRead io n s \<longleftrightarrow> GetReadCursor io s + n \<le> length (content s)"
    and Data: "ok s \<Longrightarrow> Data io s = Inr (drop (GetReadCursor io s) (content s))"
    and SeekRead: "ok s \<Longrightarrow> n \<le> length (content s) \<Longrightarrow>
      \<exists>s'. SeekRead io n s = (n, s') \<and> ok s' \<and> content s' = content s \<and> GetReadCursor io s' = n"
    and SkipRead: "ok s \<Longrightarrow> GetReadCursor io s + n \<le> length (content s) \<Longrightarrow>
      ok (SkipRead io n s) \<and> content (SkipRead io n s) = content s \<and>
      GetReadCursor io (SkipRead io n s) = GetReadCursor io s + n"
    and ReadImpl: "ok s \<Longrightarrow> k = min (length buf) (length (content s) - GetReadCursor io s) \<Longrightarrow>
      \<exists>s'. ReadImpl io buf s = Inr (slice (GetReadCursor io s) k (content s) @ drop k buf, k, s') \<and>
        ok s' \<and> content s' = content s \<and> GetReadCursor io s' = GetReadCursor io s + k"

text \<open>What is left to read, and a step that consumes \<open>k\<close> bytes of it.\<close>

definition rest_of :: "'s readable \<Rightarrow> ('s \<Rightarrow> byte list) \<Rightarrow> 's \<Rightarrow> byte list" where
  "rest_of io content s = drop (GetReadCursor io s) (content s)"

definition consumed :: "'s readable \<Rightarrow> ('s \<Rightarrow> byte list) \<Rightarrow> ('s \<Rightarrow> bool) \<Rightarrow> nat \<Rightarrow> 's \<Rightarrow> 's \<Rightarrow> bool" where
  "consumed io content ok k s s' \<longleftrightarrow>
     ok s' \<and> content s' = content s \<and> GetReadCursor io s' = GetReadCursor io s + k"

definition decode :: "endian \<Rightarrow> byte list \<Rightarrow> 'a::len word" where
  "decode e bs = word_of (if e = native then bs else rev bs)"

text \<open>The representation of an integer in the other byte order.\<close>

definition be :: "'a::len word \<Rightarrow> byte list" where
  "be w = rev (bytes_of w)"

lemma length_be [simp]: "length (be (w :: 'a::len word)) = LENGTH('a) div 8"
  by (simp add: be_def)

lemma decode_be: "8 dvd LENGTH('a) \<Longrightarrow> decode Big (be w) = (w :: 'a::len word)"
  by (simp add: be_def decode_def native_def word_of_bytes_of)

lemma consumed_0 [intro]: "ok s \<Longrightarrow> consumed io content ok 0 s s"
  by (simp add: consumed_def)

lemma consumed_trans [trans]:
  "consumed io content ok j s t \<Longrightarrow> consumed io content ok k t u \<Longrightarrow> consumed io content ok (j + k) s u"
  by (simp add: consumed_def)

lemma rest_of_consumed: "consumed io content ok k s s' \<Longrightarrow> rest_of io content s' = drop k (rest_of io content s)"
  by (simp add: consumed_def rest_of_def add.commute)

lemma consumed_inv: "consumed io content ok k s s' \<Longrightarrow> ok s'"
  by (simp add: consumed_def)

lemma ReadCString_loop_mono:
  "ReadCString_loop fuel io elem acc s = Inr r \<Longrightarrow> fuel \<le> fuel' \<Longrightarrow>
    ReadCString_loop fuel' io elem acc s = Inr r"
proof (induction fuel arbitrary: fuel' elem acc s)
  case (Suc fuel)
  then obtain f where "fuel' = Suc f" "fuel \<le> f" by (cases fuel') auto
  with Suc show ?case by (auto elim!: bindr_InrE split: if_splits)
qed simp

context readable_stream
begin

abbreviation rest where "rest \<equiv> rest_of io content"
abbreviation eats where "eats \<equiv> consumed io content ok"

lemma length_rest: "ok s \<Longrightarrow> length (rest s) = length (content s) - GetReadCursor io s"
  by (simp add: rest_of_def)

lemma CanRead_rest:
  "ok s \<Longrightarrow> n < size_mod - length (content s) \<Longrightarrow> CanRead io n s \<longleftrightarrow> n \<le> length (rest s)"
  using cursor [of s] by (subst CanRead) (auto simp: length_rest)

lemma SkipRead_rest: "ok s \<Longrightarrow> n \<le> length (rest s) \<Longrightarrow> eats n s (SkipRead io n s)"
  using SkipRead [of s n] cursor [of s] by (simp add: consumed_def length_rest)

lemma ReadImpl_rest:
  assumes "ok s"
  shows "\<exists>s'. ReadImpl io buf s = Inr (take (length buf) (rest s) @ drop (length (rest s)) buf,
      min (length buf) (length (rest s)), s') \<and> eats (min (length buf) (length (rest s))) s s'"
proof -
  let ?k = "min (length buf) (length (rest s))"
  obtain s' where "ReadImpl io buf s = Inr (slice (GetReadCursor io s) ?k (content s) @ drop ?k buf, ?k, s')"
    "eats ?k s s'"
    using ReadImpl [OF assms refl, of buf] assms by (auto simp: consumed_def length_rest)
  moreover have "slice (GetReadCursor io s) ?k (content s) = take (length buf) (rest s)"
    by (simp add: slice_def rest_of_def min_def)
  moreover have "drop ?k buf = drop (length (rest s)) buf" by (simp add: min_def)
  ultimately show ?thesis by auto
qed

lemma ReadSpan_native:
  assumes "ok s"
  shows "\<exists>s'. ReadSpan io buf native k s = Inr (take (length buf) (rest s) @ drop (length (rest s)) buf,
      min (length buf) (length (rest s)), s') \<and> eats (min (length buf) (length (rest s))) s s'"
  using ReadImpl_rest [OF assms, of buf] by (auto simp: ReadSpan_def)

lemma ReadSpan_single:
  assumes "ok s" and "length buf \<le> length (rest s)"
  shows "\<exists>s'. ReadSpan io buf e (length buf) s =
      Inr (if e = native then take (length buf) (rest s) else rev (take (length buf) (rest s)), length buf, s') \<and>
      eats (length buf) s s'"
  using ReadImpl_rest [OF assms(1), of buf] assms(2)
  by (auto simp: ReadSpan_def reverse_elements_one)

lemma Read_ok:
  assumes "ok s" and "LENGTH('a::len) div 8 \<le> length (rest s)"
  shows "\<exists>s'. Read io (v :: 'a word) e s =
      Inr (decode e (take (LENGTH('a) div 8) (rest s)), LENGTH('a) div 8, s') \<and> eats (LENGTH('a) div 8) s s'"
  using ReadSpan_single [OF assms(1), of "bytes_of v" e] assms(2)
  by (auto simp: Read_def decode_def)

lemma ReadValue_ok:
  assumes "ok s" and "LENGTH('a::len) div 8 \<le> length (rest s)"
  shows "\<exists>s'. ReadValue io e s = Inr (decode e (take (LENGTH('a) div 8) (rest s)) :: 'a word, s') \<and>
    eats (LENGTH('a) div 8) s s'"
  using Read_ok [OF assms, of 0 e] by (auto simp: ReadValue_def)

lemma ReadValue_be:
  assumes "ok s" and "rest s = be w @ tail" and "8 dvd LENGTH('a)"
  shows "\<exists>s'. ReadValue io Big s = Inr (w :: 'a::len word, s') \<and> eats (LENGTH('a) div 8) s s'"
  using ReadValue_ok [where 'a = 'a, OF assms(1), of Big] assms(2) decode_be [OF assms(3), of w] by auto

lemma ReadValue_le:
  assumes "ok s" and "rest s = bytes_of w @ tail" and "8 dvd LENGTH('a)"
  shows "\<exists>s'. ReadValue io native s = Inr (w :: 'a::len word, s') \<and> eats (LENGTH('a) div 8) s s'"
  using ReadValue_ok [where 'a = 'a, OF assms(1), of native] assms(2,3) by (auto simp: decode_def word_of_bytes_of)

lemma ReadValue_byte:
  assumes "ok s" and "rest s = b # tail"
  shows "\<exists>s'. ReadValue io e s = Inr (b :: byte, s') \<and> eats 1 s s'"
  using ReadValue_ok [where 'a = 8, OF assms(1), of e] assms(2) by (auto simp: decode_def)

text \<open>A short native read leaves the high bytes of the value; a short big-endian read of a value of
  several bytes walks out of it, unless nothing at all is left.\<close>

lemma Read_short_native:
  assumes "ok s" and "length (rest s) \<le> LENGTH('a::len) div 8"
  shows "\<exists>s'. Read io (v :: 'a word) native s =
      Inr (word_of (rest s @ drop (length (rest s)) (bytes_of v)), length (rest s), s') \<and>
      eats (length (rest s)) s s'"
  using ReadSpan_native [OF assms(1), of "bytes_of v" "LENGTH('a) div 8"] assms(2)
  by (auto simp: Read_def min_absorb2)

lemma Read_short_big:
  assumes "ok s" and "length (rest s) < LENGTH('a::len) div 8" and "rest s \<noteq> []"
  shows "Read io (v :: 'a word) Big s = Inl OutOfBounds"
proof -
  obtain buf s' where "ReadImpl io (bytes_of v) s = Inr (buf, length (rest s), s')"
    "length buf = LENGTH('a) div 8"
    using ReadImpl_rest [OF assms(1), of "bytes_of v"] assms(2) by auto
  moreover have "reverse_elements (LENGTH('a) div 8) 0 (length (rest s)) buf = Inl OutOfBounds"
    if "length buf = LENGTH('a) div 8" for buf
    using assms(2,3) that by (intro reverse_elements_overrun) auto
  ultimately show ?thesis by (simp add: Read_def ReadSpan_def native_def)
qed

lemma ReadBytes_ok:
  assumes "ok s" and "length buf \<le> length (rest s)"
  shows "\<exists>s'. ReadBytes io buf e s = Inr (take (length buf) (rest s), length buf, s') \<and> eats (length buf) s s'"
  using ReadImpl_rest [OF assms(1), of buf] assms(2) reverse_elements_bytes [of 0 "length buf"]
  by (auto simp: ReadBytes_def ReadSpan_def)

lemma ReadString_ok:
  assumes "ok s" and "n \<le> length (rest s)"
  shows "\<exists>s'. ReadString io n s = Inr (map char_of_byte (take n (rest s)), n, s') \<and> eats n s s'"
  using ReadBytes_ok [OF assms(1), of "replicate n 0" native] assms(2) by (auto simp: ReadString_def)

lemma Read_byte:
  assumes "ok s" and "rest s = b # bs"
  shows "\<exists>s'. Read io (v :: byte) native s = Inr (b, 1, s') \<and> eats 1 s s'"
  using Read_ok [where 'a = 8, OF assms(1), of v native] assms(2) by (auto simp: decode_def)

lemma Read_byte_end:
  assumes "ok s" and "rest s = []"
  shows "\<exists>s'. Read io (v :: byte) native s = Inr (v, 0, s') \<and> eats 0 s s'"
  using Read_short_native [where 'a = 8, OF assms(1), of v] assms(2)
  by (auto simp: word_of_bytes_of)

lemma ReadCString_loop_zero:
  assumes "ok s" and "rest s = bs @ 0 # tail" and "0 \<notin> set bs" and "length bs < fuel"
  shows "\<exists>s'. ReadCString_loop fuel io elem acc s = Inr (acc @ map char_of_byte bs, s') \<and>
    eats (length bs + 1) s s'"
  using assms
proof (induction bs arbitrary: fuel elem acc s)
  case Nil
  then obtain f where "fuel = Suc f" by (cases fuel) auto
  with Nil Read_byte [of s 0 tail elem] show ?case by auto
next
  case (Cons b bs)
  then obtain f where f: "fuel = Suc f" by (cases fuel) auto
  obtain s' where s': "Read io elem native s = Inr (b, 1, s')" "eats 1 s s'"
    using Read_byte [of s b "bs @ 0 # tail" elem] Cons.prems by auto
  have "rest s' = bs @ 0 # tail" using rest_of_consumed [OF s'(2)] Cons.prems by simp
  moreover have "0 \<notin> set bs" "length bs < f" using Cons.prems f by simp_all
  ultimately obtain s'' where
    "ReadCString_loop f io b (acc @ [char_of_byte b]) s'
      = Inr ((acc @ [char_of_byte b]) @ map char_of_byte bs, s'')" "eats (length bs + 1) s' s''"
    using Cons.IH [OF consumed_inv [OF s'(2)], of f b "acc @ [char_of_byte b]"] by blast
  moreover have "b \<noteq> 0" using Cons.prems by auto
  ultimately show ?case using s'(1) f consumed_trans [OF s'(2), of "length bs + 1" s'']
    by (intro exI [of _ s'']) (simp add: add.commute)
qed

lemma ReadCString_loop_stuck:
  assumes "ok s" and "rest s = []" and "elem \<noteq> 0"
  shows "ReadCString_loop fuel io elem acc s = Inl Diverges"
  using assms
proof (induction fuel arbitrary: acc s)
  case (Suc fuel)
  obtain s' where "Read io elem native s = Inr (elem, 0, s')" "eats 0 s s'"
    using Read_byte_end [of s elem] Suc.prems by auto
  moreover from this have "rest s' = []" using rest_of_consumed [of io content ok 0 s s'] Suc.prems by simp
  ultimately show ?case using Suc by (auto simp: consumed_inv)
qed simp

lemma ReadCString_loop_no_zero:
  assumes "ok s" and "0 \<notin> set (rest s)" and "rest s \<noteq> [] \<or> elem \<noteq> 0"
  shows "ReadCString_loop fuel io elem acc s = Inl Diverges"
  using assms
proof (induction fuel arbitrary: elem acc s)
  case (Suc fuel)
  show ?case
  proof (cases "rest s")
    case Nil
    then show ?thesis using Suc.prems by (intro ReadCString_loop_stuck) auto
  next
    case (Cons b bs)
    then obtain s' where s': "Read io elem native s = Inr (b, 1, s')" "eats 1 s s'"
      using Read_byte [of s b bs elem] Suc.prems by auto
    have "rest s' = bs" using rest_of_consumed [OF s'(2)] Cons by simp
    moreover have "b \<noteq> 0" using Cons Suc.prems by auto
    moreover have "0 \<notin> set bs" using Cons Suc.prems by simp
    ultimately have "ReadCString_loop fuel io b (acc @ [char_of_byte b]) s' = Inl Diverges"
      using consumed_inv [OF s'(2)] by (intro Suc.IH) simp_all
    then show ?thesis using s'(1) \<open>b \<noteq> 0\<close> by simp
  qed
qed simp

lemma ReadCString_ok:
  assumes "ok s" and "rest s = bs @ 0 # tail" and "0 \<notin> set bs"
  shows "\<exists>s'. ReadCString io s = Inr (map char_of_byte bs, length bs, s') \<and> eats (length bs + 1) s s'"
proof -
  have "length bs < GetLength io s + 1"
    using assms GetLength [OF assms(1)] length_rest [OF assms(1)] by simp
  from ReadCString_loop_zero [OF assms this, of 0 "[]"] show ?thesis by (auto simp: ReadCString_def)
qed

lemma ReadCString_no_zero:
  assumes "ok s" and "0 \<notin> set (rest s)"
  shows "rest s \<noteq> [] \<Longrightarrow> ReadCString io s = Inl Diverges"
    and "rest s = [] \<Longrightarrow> \<exists>s'. ReadCString io s = Inr ([], 0, s') \<and> eats 0 s s'"
  using ReadCString_loop_no_zero [OF assms, of 0] Read_byte_end [OF assms(1), of 0]
  by (auto simp: ReadCString_def)

text \<open>The fuel of \<^verbatim>\<open>ReadCString\<close> is enough: more of it does not change the outcome.\<close>

lemma ReadCString_fuel:
  assumes "ok s" and "GetLength io s < fuel"
  shows "ReadCString_loop fuel io 0 [] s = ReadCString_loop (GetLength io s + 1) io 0 [] s"
proof (cases "0 \<notin> set (rest s) \<and> rest s \<noteq> []")
  case True
  then show ?thesis using ReadCString_loop_no_zero [OF assms(1), of 0] by simp
next
  case False
  have "\<exists>r. ReadCString_loop (GetLength io s + 1) io 0 [] s = Inr r"
  proof (cases "rest s = []")
    case True
    then show ?thesis using Read_byte_end [OF assms(1), of 0] by auto
  next
    case nonempty: False
    with False obtain bs tail where b: "rest s = bs @ 0 # tail" "0 \<notin> set bs"
      by (meson split_list_first)
    then have "length bs < GetLength io s + 1"
      using GetLength [OF assms(1)] length_rest [OF assms(1)] by simp
    from ReadCString_loop_zero [OF assms(1) b this, of 0 "[]"] show ?thesis by blast
  qed
  then obtain r where "ReadCString_loop (GetLength io s + 1) io 0 [] s = Inr r" ..
  from ReadCString_loop_mono [OF this, of fuel] show ?thesis using assms(2) \<open>_ = Inr r\<close> by simp
qed

end

section \<open>The streams that provide the interface\<close>

definition FileStream_ok :: "FileStream \<Rightarrow> bool" where
  "FileStream_ok s \<longleftrightarrow> fs_cursor s \<le> length (fs_stream s) \<and> length (fs_stream s) < size_mod"

definition GrowableMemoryStream_ok :: "GrowableMemoryStream \<Rightarrow> bool" where
  "GrowableMemoryStream_ok s \<longleftrightarrow> gs_readCursor s \<le> length (gs_data s) \<and> length (gs_data s) < size_mod"

lemma FileStream_vt_simps [simp]:
  "GetLength FileStream_vt = (\<lambda>s. length (fs_stream s))"
  "GetReadCursor FileStream_vt = fs_cursor"
  "SeekRead FileStream_vt = FileStream_SeekRead"
  "SkipRead FileStream_vt = FileStream_SkipRead"
  "CanRead FileStream_vt = FileStream_CanRead"
  "Data FileStream_vt = FileStream_Data"
  "ReadImpl FileStream_vt = FileStream_ReadImpl"
  by (simp_all add: FileStream_vt_def)

lemma GrowableMemoryStream_vt_simps [simp]:
  "GetLength GrowableMemoryStream_vt = (\<lambda>s. length (gs_data s))"
  "GetReadCursor GrowableMemoryStream_vt = gs_readCursor"
  "SeekRead GrowableMemoryStream_vt = GrowableMemoryStream_SeekRead"
  "SkipRead GrowableMemoryStream_vt = GrowableMemoryStream_SkipRead"
  "CanRead GrowableMemoryStream_vt = GrowableMemoryStream_CanRead"
  "Data GrowableMemoryStream_vt = GrowableMemoryStream_Data"
  "ReadImpl GrowableMemoryStream_vt = GrowableMemoryStream_ReadImpl"
  by (simp_all add: GrowableMemoryStream_vt_def)

interpretation fstream: readable_stream FileStream_vt fs_stream FileStream_ok
  by unfold_locales
    (auto simp: FileStream_ok_def FileStream_CanRead_def FileStream_Data_def FileStream_SeekRead_def
      FileStream_SkipRead_def FileStream_ReadImpl_def Let_def slice_def)

interpretation gstream: readable_stream GrowableMemoryStream_vt gs_data GrowableMemoryStream_ok
  by unfold_locales
    (auto simp: GrowableMemoryStream_ok_def GrowableMemoryStream_CanRead_def GrowableMemoryStream_Data_def
      GrowableMemoryStream_SeekRead_def GrowableMemoryStream_SkipRead_def
      GrowableMemoryStream_ReadImpl_def Let_def slice_def)

section \<open>Writing\<close>

lemma byte_of_char_zero: "byte_of_char c = 0 \<longleftrightarrow> c = CHR 0x00"
proof
  assume "byte_of_char c = 0"
  then have "char_of_byte (byte_of_char c) = char_of_byte 0" by simp
  moreover have "char_of_byte 0 = CHR 0x00" by code_simp
  ultimately show "c = CHR 0x00" unfolding char_of_byte_of_char by simp
qed (simp add: byte_of_char_def)

lemma length_resize [simp]: "length (resize n xs) = n"
  by (simp add: resize_def)

lemma take_resize [simp]: "k \<le> n \<Longrightarrow> take k (resize n xs) = resize k xs"
  by (simp add: resize_def min_def)

lemma drop_resize: "length xs \<le> n \<Longrightarrow> n \<le> k \<Longrightarrow> drop k (resize n xs) = drop k xs"
  by (simp add: resize_def)

lemma resize_le: "n \<le> length xs \<Longrightarrow> resize n xs = take n xs"
  by (simp add: resize_def)

text \<open>What a write does: the bytes land at the write cursor, behind the prefix that was there (or
  zeroes), in front of what followed them.\<close>

definition written :: "nat \<Rightarrow> byte list \<Rightarrow> byte list \<Rightarrow> byte list" where
  "written w bs data = resize w data @ bs @ drop (w + length bs) data"

lemma WriteImpl_ok:
  assumes "gs_writeCursor s + length bs < size_mod"
  shows "WriteImpl bs s = Inr ((gs_writeCursor s, length bs),
    s\<lparr>gs_data := written (gs_writeCursor s) bs (gs_data s), gs_writeCursor := gs_writeCursor s + length bs\<rparr>)"
  using assms by (auto simp: WriteImpl_def Let_def written_def not_less resize_le)

lemma slice_written: "slice w (length bs) (written w bs data) = bs"
  by (simp add: slice_def written_def)

lemma length_written: "length (written w bs data) = max (length data) (w + length bs)"
  by (simp add: written_def)

lemma written_again:
  assumes "length bs' = length bs"
  shows "take w (written w bs data) @ bs' @ drop (w + length bs) (written w bs data) = written w bs' data"
  using assms by (simp add: written_def)

lemma WriteSpan_ok:
  assumes "gs_writeCursor s + length bs < size_mod"
  shows "WriteSpan bs e (length bs) s = Inr (length bs,
    s\<lparr>gs_data := written (gs_writeCursor s) (if e = native then bs else rev bs) (gs_data s),
      gs_writeCursor := gs_writeCursor s + length bs\<rparr>)"
  using assms
  by (simp add: WriteSpan_def WriteImpl_ok slice_written reverse_elements_one written_again)

lemma WriteString_ok:
  assumes "gs_writeCursor s + length str < size_mod"
  shows "WriteString str s = Inr (length str,
    s\<lparr>gs_data := written (gs_writeCursor s) (map byte_of_char str) (gs_data s),
      gs_writeCursor := gs_writeCursor s + length str\<rparr>)"
  using assms by (simp add: WriteString_def Write_span_def WriteSpan_def WriteImpl_ok)

lemma written_append:
  "written (w + length bs) cs (written w bs data) = written w (bs @ cs) data"
proof -
  have "resize (w + length bs) (written w bs data) = resize w data @ bs"
    by (simp add: resize_le length_written) (simp add: written_def)
  moreover have "drop (w + length bs + length cs) (written w bs data) = drop (w + length bs + length cs) data"
    by (simp add: written_def add.commute add.left_commute)
  ultimately show ?thesis unfolding written_def [of "w + length bs"] by (simp add: written_def add.assoc)
qed

lemma WriteCString_ok:
  assumes "gs_writeCursor s + length str + 1 < size_mod"
  shows "WriteCString str s = Inr (length str + 1,
    s\<lparr>gs_data := written (gs_writeCursor s) (map byte_of_char str @ [0]) (gs_data s),
      gs_writeCursor := gs_writeCursor s + length str + 1\<rparr>)"
proof -
  have z: "bytes_of (0 :: byte) = [0]" by (simp add: bytes_of_def)
  show ?thesis
    using assms
      WriteSpan_ok [of "s\<lparr>gs_data := written (gs_writeCursor s) (map byte_of_char str) (gs_data s),
        gs_writeCursor := gs_writeCursor s + length str\<rparr>" "[0]" native]
      written_append [of "gs_writeCursor s" "map byte_of_char str" "[0]" "gs_data s"]
    by (simp add: WriteCString_def WriteString_ok Write_def z)
qed

lemma rest_written:
  assumes "gs_data t = written w bs data" and "gs_readCursor t = w" and "w \<le> length data"
  shows "rest_of GrowableMemoryStream_vt gs_data t = bs @ drop (w + length bs) data"
  using assms by (simp add: rest_of_def written_def)

section \<open>Properties\<close>

text \<open>What is written to a growable stream is read back: an integer written in either byte order at
  the write cursor is the integer read in that order at that position, and no byte outside of the
  written range changes.\<close>

theorem Write_Read_roundtrip:
  fixes v :: "'a::len word"
  assumes "8 dvd LENGTH('a)" and "gs_writeCursor s \<le> length (gs_data s)"
    and "length (gs_data s) + LENGTH('a) div 8 < size_mod"
  shows "\<exists>s' s''. Write v e s = Inr (LENGTH('a) div 8, s') \<and>
    gs_writeCursor s' = gs_writeCursor s + LENGTH('a) div 8 \<and>
    take (gs_writeCursor s) (gs_data s') = take (gs_writeCursor s) (gs_data s) \<and>
    drop (gs_writeCursor s') (gs_data s') = drop (gs_writeCursor s') (gs_data s) \<and>
    ReadValue GrowableMemoryStream_vt e (s'\<lparr>gs_readCursor := gs_writeCursor s\<rparr>) = Inr (v, s'')"
proof -
  let ?w = "gs_writeCursor s" and ?n = "LENGTH('a) div 8"
  let ?bs = "if e = native then bytes_of v else rev (bytes_of v)"
  let ?s = "s\<lparr>gs_data := written ?w ?bs (gs_data s), gs_writeCursor := ?w + ?n\<rparr>"
  let ?t = "?s\<lparr>gs_readCursor := ?w\<rparr>"
  have len: "length ?bs = ?n" by simp
  have "Write v e s = Inr (?n, ?s)"
    using WriteSpan_ok [of s "bytes_of v" e] assms by (simp add: Write_def)
  moreover have "GrowableMemoryStream_ok ?t"
    using assms len length_written [of ?w ?bs "gs_data s"] by (simp add: GrowableMemoryStream_ok_def)
  moreover have r: "rest_of GrowableMemoryStream_vt gs_data ?t = ?bs @ drop (?w + ?n) (gs_data s)"
    using rest_written [of ?t ?w ?bs "gs_data s"] assms(2) len by simp
  moreover have "decode e ?bs = v"
    by (simp add: decode_def word_of_bytes_of assms(1))
  ultimately have "\<exists>s''. ReadValue GrowableMemoryStream_vt e ?t = Inr (v, s'')"
    using gstream.ReadValue_ok [where 'a = 'a, of ?t e] by (auto simp: len)
  moreover have "take ?w (gs_data ?s) = take ?w (gs_data s)"
    using assms(2) by (simp add: written_def resize_le)
  moreover have "drop (?w + ?n) (gs_data ?s) = drop (?w + ?n) (gs_data s)"
    using assms(2) by (simp add: written_def)
  ultimately show ?thesis
    using \<open>Write v e s = _\<close> by (intro exI [where P = "\<lambda>s'. \<exists>s''. P s' s''" and x = ?s for P]) auto
qed

lemma Write_Read_roundtrip_witness:
  "\<exists>s' s''. Write (0x01020304 :: u32) Big (GrowableMemoryStream_new [9]) = Inr (4, s') \<and>
    ReadValue GrowableMemoryStream_vt Big (s'\<lparr>gs_readCursor := 0\<rparr>) = Inr (0x01020304 :: u32, s'')"
  using Write_Read_roundtrip [of "GrowableMemoryStream_new [9]" "0x01020304 :: u32" Big]
  by (auto simp: GrowableMemoryStream_new_def size_mod_def)

text \<open>A string without NUL characters written by \<^verbatim>\<open>WriteCString\<close> is what \<^verbatim>\<open>ReadCString\<close> reads at that
  position; at a position from which the stream holds characters but no NUL, \<^verbatim>\<open>ReadCString\<close> never
  returns, however long it is left running.\<close>

theorem WriteCString_ReadCString:
  assumes "CHR 0x00 \<notin> set str" and "gs_writeCursor s \<le> length (gs_data s)"
    and "length (gs_data s) + length str + 1 < size_mod"
  shows "(\<exists>s' s''. WriteCString str s = Inr (length str + 1, s') \<and>
      ReadCString GrowableMemoryStream_vt (s'\<lparr>gs_readCursor := gs_writeCursor s\<rparr>)
        = Inr (str, length str, s'')) \<and>
    (GrowableMemoryStream_ok t \<and> gs_readCursor t < length (gs_data t) \<and>
      0 \<notin> set (drop (gs_readCursor t) (gs_data t)) \<longrightarrow>
      ReadCString_loop fuel GrowableMemoryStream_vt 0 [] t = Inl Diverges)"
proof (intro conjI impI)
  let ?w = "gs_writeCursor s" and ?bs = "map byte_of_char str @ [0]"
  let ?s = "s\<lparr>gs_data := written ?w ?bs (gs_data s), gs_writeCursor := ?w + length str + 1\<rparr>"
  let ?t = "?s\<lparr>gs_readCursor := ?w\<rparr>"
  have "rest_of GrowableMemoryStream_vt gs_data ?t
      = map byte_of_char str @ 0 # drop (?w + length ?bs) (gs_data s)"
    using rest_written [of ?t ?w ?bs "gs_data s"] assms(2) by simp
  moreover have "0 \<notin> set (map byte_of_char str)"
    using assms(1) by (auto simp: byte_of_char_zero)
  moreover have "GrowableMemoryStream_ok ?t"
    using assms(2,3) length_written [of ?w ?bs "gs_data s"] by (simp add: GrowableMemoryStream_ok_def)
  ultimately obtain s'' where "ReadCString GrowableMemoryStream_vt ?t = Inr (str, length str, s'')"
    using gstream.ReadCString_ok [of ?t] by (fastforce simp: o_def)
  moreover have "WriteCString str s = Inr (length str + 1, ?s)"
    using WriteCString_ok [of s str] assms(2,3) by simp
  ultimately show "\<exists>s' s''. WriteCString str s = Inr (length str + 1, s') \<and>
      ReadCString GrowableMemoryStream_vt (s'\<lparr>gs_readCursor := ?w\<rparr>) = Inr (str, length str, s'')"
    by blast
qed (auto simp: rest_of_def intro!: gstream.ReadCString_loop_no_zero)

lemma WriteCString_ReadCString_witness:
  "(\<exists>s' s''. WriteCString ''ab'' (GrowableMemoryStream_new []) = Inr (3, s') \<and>
      ReadCString GrowableMemoryStream_vt (s'\<lparr>gs_readCursor := 0\<rparr>) = Inr (''ab'', 2, s'')) \<and>
    ReadCString_loop 9 GrowableMemoryStream_vt 0 [] (GrowableMemoryStream_new [1]) = Inl Diverges"
  using WriteCString_ReadCString [of "''ab''" "GrowableMemoryStream_new []"
      "GrowableMemoryStream_new [1]" 9]
  by (simp add: GrowableMemoryStream_new_def size_mod_def GrowableMemoryStream_ok_def numeral_2_eq_2 numeral_3_eq_3)

text \<open>\<^verbatim>\<open>Read\<close> on a memory mapped file, on every branch: with enough bytes left it returns the integer
  they encode in the requested byte order and moves the cursor behind them; a short read in native
  order returns the bytes that are left, padded with zeroes, without any error; a short read in the
  other order reverses bytes outside of the value.\<close>

theorem FileStream_Read_branches:
  assumes "FileStream_ok s" and "n = LENGTH('a::len) div 8"
    and "left = drop (fs_cursor s) (fs_stream s)"
  shows "(n \<le> length left \<longrightarrow> (\<exists>s'. ReadValue FileStream_vt e s = Inr (decode e (take n left) :: 'a word, s') \<and>
      fs_cursor s' = fs_cursor s + n \<and> FileStream_ok s')) \<and>
    (length left < n \<longrightarrow> e = Little \<longrightarrow> (\<exists>s'. ReadValue FileStream_vt e s = Inr (word_of left :: 'a word, s') \<and>
      fs_cursor s' = length (fs_stream s))) \<and>
    (length left < n \<longrightarrow> left \<noteq> [] \<longrightarrow> e = Big \<longrightarrow>
      (ReadValue FileStream_vt e s :: ('a word \<times> FileStream) result) = Inl OutOfBounds)"
proof (intro conjI impI)
  have left: "left = rest_of FileStream_vt fs_stream s" using assms(3) by (simp add: rest_of_def)
  assume "n \<le> length left"
  then show "\<exists>s'. ReadValue FileStream_vt e s = Inr (decode e (take n left) :: 'a word, s') \<and>
      fs_cursor s' = fs_cursor s + n \<and> FileStream_ok s'"
    using fstream.ReadValue_ok [OF assms(1), where 'a = 'a and e = e] assms(2)
    by (auto simp: left consumed_def)
next
  have left: "left = rest_of FileStream_vt fs_stream s" using assms(3) by (simp add: rest_of_def)
  have z: "drop k (bytes_of (0 :: 'a word)) = replicate (n - k) 0" for k
    using assms(2) by (intro nth_equalityI) (auto simp: nth_bytes_of)
  assume l: "length left < n" and "e = Little"
  then obtain s' where "ReadValue FileStream_vt e s = Inr (word_of (left @ replicate (n - length left) 0) :: 'a word, s')"
    "consumed FileStream_vt fs_stream FileStream_ok (length left) s s'"
    using fstream.Read_short_native [OF assms(1), where 'a = 'a and v = 0] assms(2)
    by (auto simp: left ReadValue_def native_def z)
  then show "\<exists>s'. ReadValue FileStream_vt e s = Inr (word_of left :: 'a word, s') \<and>
      fs_cursor s' = length (fs_stream s)"
    using assms(1,3) by (auto simp: consumed_def word_of_append_zero FileStream_ok_def)
next
  have left: "left = rest_of FileStream_vt fs_stream s" using assms(3) by (simp add: rest_of_def)
  assume "length left < n" and "left \<noteq> []" and "e = Big"
  then show "(ReadValue FileStream_vt e s :: ('a word \<times> FileStream) result) = Inl OutOfBounds"
    using fstream.Read_short_big [OF assms(1), where 'a = 'a and v = 0] assms(2)
    by (simp add: left ReadValue_def)
qed

lemma FileStream_Read_branches_witness:
  "\<exists>s'. ReadValue FileStream_vt Little (FileStream_new (Some [1, 2, 3])) = Inr (0x00030201 :: u32, s')"
  using FileStream_Read_branches [of "FileStream_new (Some [1, 2, 3])" 4 "[1, 2, 3]" Little, where 'a = 32]
  by (auto simp: FileStream_ok_def FileStream_new_def size_mod_def)

lemma ReadValue_SpanStream:
  assumes "n = LENGTH('a::len) div 8" and "0 < n"
    and "ss_cursor s + n \<le> ss_size s" and "ss_base s + ss_size s \<le> length (ss_memory s)"
    and "ss_size s < size_mod"
  shows "ReadValue SpanStream_vt e s =
      (if ss_base s + ss_cursor s + 2 * n \<le> length (ss_memory s)
       then Inr (decode e (slice (ss_base s + ss_cursor s + n) n (ss_memory s)) :: 'a word,
         s\<lparr>ss_cursor := ss_cursor s + n\<rparr>)
       else Inl OutOfBounds)"
proof -
  let ?src = "slice (ss_base s + ss_cursor s + n) n (ss_memory s)"
  have m: "min n (sub_sz (ss_size s) (ss_cursor s)) = n" using assms by simp
  have "ReadImpl SpanStream_vt (bytes_of (0 :: 'a word)) s =
      (if ss_base s + ss_cursor s + 2 * n \<le> length (ss_memory s)
       then Inr (?src, n, s\<lparr>ss_cursor := ss_cursor s + n\<rparr>) else Inl OutOfBounds)"
    using assms by (simp add: SpanStream_vt_def SpanStream_ReadImpl_def SpanStream_Data_def m Let_def
        subspan_def flip: assms(1)) arith
  moreover have "ss_base s + ss_cursor s + 2 * n \<le> length (ss_memory s) \<Longrightarrow>
      reverse_elements n 0 n ?src = Inr (rev ?src)"
    by (intro reverse_elements_one) simp
  ultimately show ?thesis
    by (simp add: ReadValue_def Read_def ReadSpan_def decode_def flip: assms(1))
qed

text \<open>The two other streams do not read at their cursor: \<^verbatim>\<open>SpanStream\<close> delivers the bytes that follow
  the ones asked for, when the underlying memory has them, and otherwise reads outside of it;
  \<^verbatim>\<open>MemoryStream\<close> delivers nothing, so every value it reads is zero. Both advance the cursor as if
  they had read.\<close>

theorem SpanStream_MemoryStream_misread:
  assumes "n = LENGTH('a::len) div 8" and "0 < n"
    and "ss_cursor s + n \<le> ss_size s" and "ss_base s + ss_size s \<le> length (ss_memory s)"
    and "ss_size s < size_mod"
    and "ms_cursor t + n \<le> length (ms_data t)" and "length (ms_data t) < size_mod"
  shows "ReadValue SpanStream_vt e s =
      (if ss_base s + ss_cursor s + 2 * n \<le> length (ss_memory s)
       then Inr (decode e (slice (ss_base s + ss_cursor s + n) n (ss_memory s)) :: 'a word,
         s\<lparr>ss_cursor := ss_cursor s + n\<rparr>)
       else Inl OutOfBounds) \<and>
    ReadValue MemoryStream_vt e t = Inr (0 :: 'a word, t\<lparr>ms_cursor := ms_cursor t + n\<rparr>)"
proof
  show "ReadValue SpanStream_vt e s =
      (if ss_base s + ss_cursor s + 2 * n \<le> length (ss_memory s)
       then Inr (decode e (slice (ss_base s + ss_cursor s + n) n (ss_memory s)) :: 'a word,
         s\<lparr>ss_cursor := ss_cursor s + n\<rparr>)
       else Inl OutOfBounds)"
    using assms(1-5) by (rule ReadValue_SpanStream)
next
  have "ReadImpl MemoryStream_vt (bytes_of (0 :: 'a word)) t =
      Inr (bytes_of (0 :: 'a word), n, t\<lparr>ms_cursor := ms_cursor t + n\<rparr>)"
    using assms by (simp add: MemoryStream_vt_def MemoryStream_ReadImpl_def Let_def flip: assms(1))
  moreover have z: "bytes_of (0 :: 'a word) = replicate n 0"
    using assms(1) by (intro nth_equalityI) (auto simp: nth_bytes_of)
  moreover have "word_of (replicate n 0) = (0 :: 'a word)"
    using word_of_append_zero [of "[]" n] by simp
  ultimately show "ReadValue MemoryStream_vt e t = Inr (0 :: 'a word, t\<lparr>ms_cursor := ms_cursor t + n\<rparr>)"
    by (simp add: ReadValue_def Read_def ReadSpan_def reverse_elements_one flip: assms(1))
qed

lemma SpanStream_MemoryStream_misread_witness:
  "ReadValue SpanStream_vt Little (SpanStream_new [1, 0, 2, 0, 3, 0] 0 4) =
      Inr (2 :: u16, \<lparr>ss_memory = [1, 0, 2, 0, 3, 0], ss_base = 0, ss_size = 4, ss_cursor = 2\<rparr>) \<and>
    ReadValue MemoryStream_vt Little (MemoryStream_new [7, 7]) = Inr (0 :: u16, \<lparr>ms_data = [7, 7], ms_cursor = 2\<rparr>)"
  using SpanStream_MemoryStream_misread [of 2 "SpanStream_new [1, 0, 2, 0, 3, 0] 0 4"
      "MemoryStream_new [7, 7]" Little, where 'a = 16]
  by (simp add: SpanStream_new_def MemoryStream_new_def size_mod_def slice_def decode_def native_def)

end
