(* ===== verification/Reads.thy ===== *)
theory Reads
  imports Streams
begin

text \<open>
  A small calculus for parsers on a stream that keeps the contract of \<open>readable_stream\<close>: \<open>reads f bs x\<close> says that
  \<open>f\<close>, at any place where \<open>bs\<close> is next, returns \<open>x\<close> and consumes exactly \<open>bs\<close>. The
  component theories compose the readers of their records and lists from these rules.
\<close>

text \<open>A string without a zero, as bytes with one behind it.\<close>

definition cstring :: "string \<Rightarrow> byte list" where
  "cstring str = map byte_of_char str @ [0]"

definition cstring_ok :: "string \<Rightarrow> bool" where
  "cstring_ok str \<longleftrightarrow> list_all (\<lambda>c. byte_of_char c \<noteq> 0) str"

lemma length_cstring [simp]: "length (cstring str) = length str + 1"
  by (simp add: cstring_def)

definition reads_to :: "'s readable \<Rightarrow> ('s \<Rightarrow> byte list) \<Rightarrow> ('s \<Rightarrow> bool)
    \<Rightarrow> ('s \<Rightarrow> ('a \<times> 's) result) \<Rightarrow> byte list \<Rightarrow> 'a \<Rightarrow> bool" where
  "reads_to io content ok f bs x \<longleftrightarrow> (\<forall>s tail. ok s \<longrightarrow> rest_of io content s = bs @ tail \<longrightarrow>
     (\<exists>s'. f s = Inr (x, s') \<and> consumed io content ok (length bs) s s'))"

context readable_stream
begin

abbreviation reads where "reads \<equiv> reads_to io content ok"

lemma readsI:
  "(\<And>s tail. ok s \<Longrightarrow> rest s = bs @ tail \<Longrightarrow> \<exists>s'. f s = Inr (x, s') \<and> eats (length bs) s s') \<Longrightarrow> reads f bs x"
  by (simp add: reads_to_def)

lemma readsE:
  assumes "reads f bs x" and "ok s" and "rest s = bs @ tail"
  obtains s' where "f s = Inr (x, s')" and "eats (length bs) s s'" and "ok s'" and "rest s' = tail"
  using assms by (auto simp: reads_to_def rest_of_consumed dest: consumed_inv)

lemma reads_return: "reads (\<lambda>s. Inr (x, s)) [] x"
  by (rule readsI) auto

lemma reads_bind:
  assumes "reads f bs x" and "reads (g x) cs y"
  shows "reads (\<lambda>s. bindr (f s) (\<lambda>(x, s). g x s)) (bs @ cs) y"
proof (rule readsI)
  fix s tail
  assume s: "ok s" "rest s = (bs @ cs) @ tail"
  then obtain s1 where s1: "f s = Inr (x, s1)" "eats (length bs) s s1" "ok s1" "rest s1 = cs @ tail"
    using readsE [OF assms(1) s(1), of "cs @ tail"] by auto
  obtain s2 where "g x s1 = Inr (y, s2)" "eats (length cs) s1 s2"
    using readsE [OF assms(2) s1(3,4)] .
  with s1(1,2) show "\<exists>s'. bindr (f s) (\<lambda>(x, s). g x s) = Inr (y, s') \<and> eats (length (bs @ cs)) s s'"
    using consumed_trans by fastforce
qed

lemma reads_bind3:
  assumes "reads (\<lambda>s. bindr (f s) (\<lambda>(x, n, s). Inr ((x, n), s))) bs (x, n)" and "reads (g x n) cs y"
  shows "reads (\<lambda>s. bindr (f s) (\<lambda>(x, n, s). g x n s)) (bs @ cs) y"
proof -
  have "bindr (f s) (\<lambda>(x, n, s). g x n s) =
      bindr (bindr (f s) (\<lambda>(x, n, s). Inr ((x, n), s))) (\<lambda>(p, s). (case p of (x, n) \<Rightarrow> g x n) s)" for s
    by (cases "f s") auto
  then show ?thesis using reads_bind [OF assms(1), of "\<lambda>(x, n). g x n"] assms(2) by simp
qed

lemma reads_be: "8 dvd LENGTH('a) \<Longrightarrow> reads (ReadValue io Big) (be w) (w :: 'a::len word)"
  by (rule readsI) (use ReadValue_be in fastforce)

lemma reads_le: "8 dvd LENGTH('a) \<Longrightarrow> reads (ReadValue io native) (bytes_of w) (w :: 'a::len word)"
  by (rule readsI) (use ReadValue_le in fastforce)

lemma reads_byte: "reads (ReadValue io e) [b] (b :: byte)"
  by (rule readsI) (use ReadValue_byte in fastforce)

lemma reads_bytes:
  "length bs = n \<Longrightarrow> reads (\<lambda>s. bindr (ReadBytes io (replicate n 0) e s) (\<lambda>(x, n, s). Inr ((x, n), s))) bs (bs, n)"
proof (rule readsI)
  fix s tail
  assume "length bs = n" "ok s" "rest s = bs @ tail"
  then show "\<exists>s'. bindr (ReadBytes io (replicate n 0) e s) (\<lambda>(x, n, s). Inr ((x, n), s)) = Inr ((bs, n), s') \<and>
      eats (length bs) s s'"
    using ReadBytes_ok [of s "replicate n 0" e] by auto
qed

lemma reads_cstring:
  assumes "cstring_ok str"
  shows "reads (\<lambda>s. bindr (ReadCString io s) (\<lambda>(x, n, s). Inr ((x, n), s))) (cstring str) (str, length str)"
proof (rule readsI)
  fix s tail
  assume "ok s" "rest s = cstring str @ tail"
  moreover have "0 \<notin> set (map byte_of_char str)"
    using assms by (auto simp: cstring_ok_def list_all_iff)
  moreover have "map char_of_byte (map byte_of_char str) = str" by (simp add: comp_def)
  ultimately show "\<exists>s'. bindr (ReadCString io s) (\<lambda>(x, n, s). Inr ((x, n), s)) = Inr ((str, length str), s') \<and>
      eats (length (cstring str)) s s'"
    using ReadCString_ok [of s "map byte_of_char str" tail] by (auto simp: cstring_def)
qed

lemma reads_words:
  "reads (ReadValue io Big) (be h) (h :: u16)" "reads (ReadValue io Big) (be w) (w :: u32)"
  "reads (ReadValue io native) (bytes_of w) (w :: u32)" "reads (ReadValue io native) (bytes_of l) (l :: u64)"
  by (rule reads_be reads_le; simp)+

lemmas reads_step = reads_bind reads_words reads_byte reads_return

text \<open>A span of the data, taken without being copied, and skipped.\<close>

lemma reads_span:
  assumes "reads (f bs) cs x" and "length bs = n"
  shows "reads (\<lambda>s. bindr (Data io s) (\<lambda>view. bindr (subspan 0 n view) (\<lambda>span. f span (SkipRead io n s)))) (bs @ cs) x"
proof (rule readsI)
  fix s tail
  assume s: "ok s" "rest s = (bs @ cs) @ tail"
  have s1: "eats n s (SkipRead io n s)" using s assms(2) by (intro SkipRead_rest) simp_all
  then have "rest (SkipRead io n s) = cs @ tail" using s assms(2) by (simp add: rest_of_consumed)
  then obtain s2 where "f bs (SkipRead io n s) = Inr (x, s2)" "eats (length cs) (SkipRead io n s) s2"
    using readsE [OF assms(1) consumed_inv [OF s1]] by blast
  moreover have "Data io s = Inr (bs @ cs @ tail)" using Data [OF s(1)] s(2) by (simp add: rest_of_def)
  ultimately show "\<exists>s'. bindr (Data io s) (\<lambda>view. bindr (subspan 0 n view) (\<lambda>span. f span (SkipRead io n s))) =
      Inr (x, s') \<and> eats (length (bs @ cs)) s s'"
    using assms(2) consumed_trans [OF s1] by (auto simp: slice_def)
qed

end

end
