(* ===== verification/Hash.thy ===== *)
theory Hash
  imports Endian Hex
begin

text \<open>
  \<^verbatim>\<open>libtactmon/crypto/Hash.hpp\<close>: the incremental interface to a digest of OpenSSL. The digest \<open>H\<close>
  itself, a function from byte strings to byte strings, is a parameter; the state of an OpenSSL
  context is the data it was given so far.
\<close>

type_synonym digest = "byte list \<Rightarrow> byte list"

record Hash =
  h_context :: "byte list"
  h_digest :: "byte list"

definition Hash_new :: "nat \<Rightarrow> Hash" where
  "Hash_new DigestLength = \<lparr>h_context = [], h_digest = replicate DigestLength 0\<rparr>"

text \<open>The copy constructor and assignment duplicate the context.\<close>

definition Hash_copy :: "Hash \<Rightarrow> Hash" where
  "Hash_copy other = \<lparr>h_context = h_context other, h_digest = h_digest other\<rparr>"

text \<open>The overloads of \<^verbatim>\<open>UpdateData\<close> for ranges of bytes, for strings and for integers (their object
  representation).\<close>

definition UpdateData :: "byte list \<Rightarrow> Hash \<Rightarrow> Hash" where
  "UpdateData data h = h\<lparr>h_context := h_context h @ data\<rparr>"

definition UpdateData_string :: "string \<Rightarrow> Hash \<Rightarrow> Hash" where
  "UpdateData_string data h = UpdateData (map byte_of_char data) h"

definition UpdateData_int :: "'a::len word \<Rightarrow> Hash \<Rightarrow> Hash" where
  "UpdateData_int v h = UpdateData (bytes_of v) h"

definition Finalize :: "digest \<Rightarrow> Hash \<Rightarrow> Hash" where
  "Finalize H h = h\<lparr>h_digest := H (h_context h)\<rparr>"

definition GetDigest :: "Hash \<Rightarrow> byte list" where
  "GetDigest h = h_digest h"

definition Hash_Of :: "digest \<Rightarrow> nat \<Rightarrow> byte list list \<Rightarrow> byte list" where
  "Hash_Of H DigestLength pack =
     GetDigest (Finalize H (fold UpdateData pack (Hash_new DigestLength)))"

lemma h_context_simps [simp]:
  "h_context (UpdateData bs h) = h_context h @ bs"
  "h_context (UpdateData_int v h) = h_context h @ bytes_of v"
  "h_context (Hash_new n) = []"
  "h_context (Hash_copy h) = h_context h"
  by (simp_all add: UpdateData_def UpdateData_int_def Hash_new_def Hash_copy_def)

lemma GetDigest_Finalize [simp]: "GetDigest (Finalize H h) = H (h_context h)"
  by (simp add: GetDigest_def Finalize_def)

lemma h_context_fold [simp]: "h_context (fold UpdateData pack h) = h_context h @ concat pack"
  by (induction pack arbitrary: h) simp_all

lemma Hash_Of_concat [simp]: "Hash_Of H n pack = H (concat pack)"
  by (simp add: Hash_Of_def)

text \<open>A stand-in for MD5 in the examples: the first sixteen bytes, padded.\<close>

definition toy_md5 :: digest where
  "toy_md5 bs = take 16 (bs @ replicate 16 0)"

lemma length_toy_md5 [simp]: "length (toy_md5 bs) = 16"
  by (simp add: toy_md5_def)

end
