(* ===== verification/BLTE.thy ===== *)
theory BLTE
  imports Streams Hash Key
begin

text \<open>
  \<^verbatim>\<open>libtactmon/tact/BLTE.cpp\<close>: block table encoded archives. MD5 and zlib are parameters: \<open>md5\<close> is a
  function on byte strings, and a \<open>zlib\<close> has the outcome of \<^verbatim>\<open>inflateInit\<close> and the effect of one call of
  \<^verbatim>\<open>inflate\<close> (from the state, the bytes of \<^verbatim>\<open>next_in\<close> and the size of the output buffer to the return
  code, the new state, the number of bytes consumed and the bytes produced).
\<close>

unbundle bit_operations_syntax

record 'z zlib =
  inflateInit :: "int \<times> 'z"
  inflate :: "'z \<Rightarrow> byte list \<Rightarrow> nat \<Rightarrow> int \<times> 'z \<times> nat \<times> byte list"

definition Z_OK :: int where "Z_OK = 0"
definition Z_STREAM_END :: int where "Z_STREAM_END = 1"

record ChunkHeader =
  CompressedSize :: u64
  DecompressedSize :: u64
  Checksum :: "byte list"
  Offset :: nat

record BLTE =
  dataBuffer :: GrowableMemoryStream

definition BLTE_new :: BLTE where
  "BLTE_new = \<lparr>dataBuffer = GrowableMemoryStream_new []\<rparr>"

section \<open>\<^verbatim>\<open>LoadChunk\<close>\<close>

text \<open>The decompression loop, with a bound on its iterations. \<^verbatim>\<open>ret\<close> and \<^verbatim>\<open>avail_in\<close> are its condition.\<close>

primrec inflate_loop ::
  "nat \<Rightarrow> 'z zlib \<Rightarrow> int \<Rightarrow> 'z \<Rightarrow> byte list \<Rightarrow> BLTE \<Rightarrow> (bool \<times> BLTE) result" where
  "inflate_loop 0 z ret strm next_in blte =
     (if ret \<noteq> Z_STREAM_END \<and> next_in \<noteq> [] then Inl Diverges else Inr (True, blte))"
| "inflate_loop (Suc fuel) z ret strm next_in blte =
     (if ret \<noteq> Z_STREAM_END \<and> next_in \<noteq> []
      then let (ret, strm, consumed, output) = inflate z strm next_in 8192 in
        if ret < 0 then Inr (False, blte)
        else bindr (Write_span output Little (dataBuffer blte)) (\<lambda>(writeCount, buffer).
          let blte = blte\<lparr>dataBuffer := buffer\<rparr> in
          if writeCount \<noteq> length output then Inr (False, blte)
          else inflate_loop fuel z ret strm (drop consumed next_in) blte)
      else Inr (True, blte))"

definition LoadChunk ::
  "digest \<Rightarrow> 'z zlib \<Rightarrow> nat \<Rightarrow> 's readable \<Rightarrow> 's \<Rightarrow> nat \<Rightarrow> nat \<Rightarrow> byte list \<Rightarrow> BLTE \<Rightarrow> (bool \<times> BLTE) result" where
  "LoadChunk md5 z fuel io stream compressedSize decompressedSize checksum blte =
     (if GetLength io stream < add_sz (GetReadCursor io stream) compressedSize then Inr (False, blte)
      else bindr (Data io stream) (\<lambda>view.
        bindr (subspan 0 compressedSize view) (\<lambda>chunkSpan.
          if Hash_Of md5 16 [chunkSpan] \<noteq> checksum then Inr (False, blte)
          else bindr (at chunkSpan 0) (\<lambda>mode.
            if mode = 0x4E then
              bindr (Write_span (drop 1 chunkSpan) Little (dataBuffer blte)) (\<lambda>(writeCount, buffer).
                Inr (writeCount = length chunkSpan - 1, blte\<lparr>dataBuffer := buffer\<rparr>))
            else if mode = 0x5A then
              (let (ret, strm) = inflateInit z in
               if ret \<noteq> Z_OK then Inr (False, blte)
               else inflate_loop fuel z ret strm (drop 1 chunkSpan) blte)
            else Inr (False, blte)))))"

definition Validate :: "digest \<Rightarrow> CKey \<Rightarrow> BLTE \<Rightarrow> bool result" where
  "Validate md5 ckey blte =
     bindr (Data GrowableMemoryStream_vt (dataBuffer blte)) (\<lambda>view.
       Key_eq_range ckey (Hash_Of md5 16 [view]))"

section \<open>\<^verbatim>\<open>_Parse\<close>\<close>

text \<open>The loop over the chunk table: it extends the table, feeds the digest and reads the stream.\<close>

primrec read_chunks ::
  "nat \<Rightarrow> 's readable \<Rightarrow> nat \<Rightarrow> ChunkHeader list \<Rightarrow> Hash \<Rightarrow> 's \<Rightarrow> (ChunkHeader list \<times> Hash \<times> 's) result" where
  "read_chunks 0 io headerSize chunks engine s = Inr (chunks, engine, s)"
| "read_chunks (Suc n) io headerSize chunks engine s =
     bindr (ReadValue io Big s) (\<lambda>(csize :: u32, s).
     bindr (ReadValue io Big s) (\<lambda>(dsize :: u32, s).
     bindr (ReadSpan io (replicate 16 0) Little 16 s) (\<lambda>(checksum, _, s).
       let chunk = \<lparr>CompressedSize = ucast csize, DecompressedSize = ucast dsize, Checksum = checksum,
             Offset = (if chunks = [] then headerSize
               else add_sz (Offset (last chunks)) (unat (CompressedSize (last chunks))))\<rparr>;
           engine = UpdateData_int (byteswap (CompressedSize chunk)) engine;
           engine = UpdateData_int (byteswap (DecompressedSize chunk)) engine;
           engine = UpdateData (Checksum chunk) engine
       in read_chunks n io headerSize (chunks @ [chunk]) engine s)))"

text \<open>The loop that loads the chunks: \<open>None\<close> when one of them is rejected.\<close>

primrec load_chunks ::
  "digest \<Rightarrow> 'z zlib \<Rightarrow> nat \<Rightarrow> 's readable \<Rightarrow> ChunkHeader list \<Rightarrow> BLTE \<Rightarrow> 's \<Rightarrow> (BLTE option \<times> 's) result" where
  "load_chunks md5 z fuel io [] blte s = Inr (Some blte, s)"
| "load_chunks md5 z fuel io (chunk # chunks) blte s =
     (let s = snd (SeekRead io (Offset chunk) s) in
      bindr (LoadChunk md5 z fuel io s (unat (CompressedSize chunk)) (unat (DecompressedSize chunk))
          (Checksum chunk) blte) (\<lambda>(ok, blte).
        if ok then load_chunks md5 z fuel io chunks blte s else Inr (None, s)))"

definition BLTE_MAGIC :: u32 where
  "BLTE_MAGIC = 0x424C5445"   \<comment> \<open>\<^verbatim>\<open>'BLTE'\<close>\<close>

text \<open>Comparing the digest of the header with the encoding key, when there is one.\<close>

definition ekey_mismatch :: "EKey option \<Rightarrow> byte list \<Rightarrow> bool result" where
  "ekey_mismatch ekey checksum = (case ekey of
     None \<Rightarrow> Inr False
   | Some k \<Rightarrow> bindr (Key_eq_range k checksum) (\<lambda>eq. Inr (\<not> eq)))"

definition ckey_mismatch :: "digest \<Rightarrow> CKey option \<Rightarrow> BLTE \<Rightarrow> bool result" where
  "ckey_mismatch md5 ckey blte = (case ckey of
     None \<Rightarrow> Inr False
   | Some k \<Rightarrow> bindr (Validate md5 k blte) (\<lambda>valid. Inr (\<not> valid)))"

definition BLTE_parse ::
  "digest \<Rightarrow> 'z zlib \<Rightarrow> nat \<Rightarrow> 's readable \<Rightarrow> 's \<Rightarrow> EKey option \<Rightarrow> CKey option \<Rightarrow> (BLTE option \<times> 's) result" where
  "BLTE_parse md5 z fuel io s ekey ckey =
     bindr (ReadValue io Big s) (\<lambda>(magic :: u32, s).
     if magic \<noteq> BLTE_MAGIC then Inr (None, s)
     else bindr (ReadValue io Big s) (\<lambda>(headerSize :: u32, s).
     bindr (ReadValue io Big s) (\<lambda>(flagsChunkCount :: u32, s).
       let engine = UpdateData_int (byteswap magic) (Hash_new 16);
           engine = UpdateData_int (byteswap headerSize) engine;
           engine = UpdateData_int (byteswap flagsChunkCount) engine;
           chunkCount = unat (flagsChunkCount AND 0x00FFFFFF)
       in bindr (read_chunks chunkCount io (unat headerSize) [] engine s) (\<lambda>(chunks, engine, s).
       let checksum = GetDigest (Finalize md5 engine) in
       bindr (ekey_mismatch ekey checksum) (\<lambda>bad.
       if bad then Inr (None, s)
       else bindr (load_chunks md5 z fuel io chunks BLTE_new s) (\<lambda>(blte, s).
       case blte of
         None \<Rightarrow> Inr (None, s)
       | Some blte \<Rightarrow> bindr (ckey_mismatch md5 ckey blte) (\<lambda>bad.
           Inr (if bad then None else Some blte, s))))))))"

definition BLTE_Parse ::
  "digest \<Rightarrow> 'z zlib \<Rightarrow> nat \<Rightarrow> 's readable \<Rightarrow> 's \<Rightarrow> (BLTE option \<times> 's) result" where
  "BLTE_Parse md5 z fuel io s = BLTE_parse md5 z fuel io s None None"

definition BLTE_Parse_keys ::
  "digest \<Rightarrow> 'z zlib \<Rightarrow> nat \<Rightarrow> 's readable \<Rightarrow> 's \<Rightarrow> EKey \<Rightarrow> CKey \<Rightarrow> (BLTE option \<times> 's) result" where
  "BLTE_Parse_keys md5 z fuel io s ekey ckey = BLTE_parse md5 z fuel io s (Some ekey) (Some ckey)"

section \<open>Archives of stored chunks\<close>

text \<open>The format, written down independently of the parser: what an encoder that stores its chunks
  (mode \<^verbatim>\<open>'N'\<close>) produces.\<close>

definition be32 :: "nat \<Rightarrow> byte list" where
  "be32 n = rev (bytes_of (word_of_nat n :: u32))"

definition stored :: "byte list \<Rightarrow> byte list" where
  "stored d = 0x4E # d"

definition table_entry :: "digest \<Rightarrow> byte list \<Rightarrow> byte list" where
  "table_entry md5 d = be32 (length d + 1) @ be32 (length d) @ md5 (stored d)"

definition BLTE_header :: "digest \<Rightarrow> byte list list \<Rightarrow> byte list" where
  "BLTE_header md5 ds = be32 0x424C5445 @ be32 (12 + 24 * length ds) @ be32 (0x0F000000 + length ds)
     @ concat (map (table_entry md5) ds)"

definition BLTE_encode :: "digest \<Rightarrow> byte list list \<Rightarrow> byte list" where
  "BLTE_encode md5 ds = BLTE_header md5 ds @ concat (map stored ds)"

text \<open>What the digest engine of the parser is fed for such an archive: the sizes of the chunks have
  eight bytes there, as they are kept in variables of type \<^verbatim>\<open>std::size_t\<close>.\<close>

definition be64 :: "nat \<Rightarrow> byte list" where
  "be64 n = rev (bytes_of (word_of_nat n :: u64))"

definition engine_entry :: "digest \<Rightarrow> byte list \<Rightarrow> byte list" where
  "engine_entry md5 d = be64 (length d + 1) @ be64 (length d) @ md5 (stored d)"

definition engine_input :: "digest \<Rightarrow> byte list list \<Rightarrow> byte list" where
  "engine_input md5 ds = be32 0x424C5445 @ be32 (12 + 24 * length ds) @ be32 (0x0F000000 + length ds)
     @ concat (map (engine_entry md5) ds)"

lemma length_be32 [simp]: "length (be32 n) = 4" "length (be64 n) = 8"
  by (simp_all add: be32_def be64_def)

lemma length_stored [simp]: "length (stored d) = length d + 1"
  by (simp add: stored_def)

lemma decode_be32 [simp]: "decode Big (be32 n) = (word_of_nat n :: u32)"
  by (simp add: decode_def native_def be32_def word_of_bytes_of)

text \<open>The chunk table of the parser.\<close>

primrec chunk_table :: "digest \<Rightarrow> nat \<Rightarrow> byte list list \<Rightarrow> ChunkHeader list" where
  "chunk_table md5 off [] = []"
| "chunk_table md5 off (d # ds) =
     \<lparr>CompressedSize = word_of_nat (length d + 1), DecompressedSize = word_of_nat (length d),
      Checksum = md5 (stored d), Offset = off\<rparr> # chunk_table md5 (add_sz off (length d + 1)) ds"

definition next_offset :: "nat \<Rightarrow> ChunkHeader list \<Rightarrow> nat" where
  "next_offset headerSize chunks = (if chunks = [] then headerSize
     else add_sz (Offset (last chunks)) (unat (CompressedSize (last chunks))))"

lemma ucast_size [simp]:
  "n < 4294967296 \<Longrightarrow> (ucast (word_of_nat n :: u32) :: u64) = word_of_nat n"
  by (simp add: unsigned_of_nat take_bit_nat_eq_self)

lemma unat_size [simp]: "n < 18446744073709551616 \<Longrightarrow> unat (word_of_nat n :: u64) = n"
  by (simp add: unsigned_of_nat take_bit_nat_eq_self)

lemma unat_size32: "n < 4294967296 \<Longrightarrow> unat (word_of_nat n :: u32) = n"
  by (simp add: unsigned_of_nat take_bit_nat_eq_self)

lemma Suc_size [simp]:
  "n < 4294967295 \<Longrightarrow> (ucast (1 + word_of_nat n :: u32) :: u64) = 1 + word_of_nat n"
  "n < 4294967295 \<Longrightarrow> unat (1 + word_of_nat n :: u64) = Suc n"
  using ucast_size [of "Suc n"] unat_size [of "Suc n"] by simp_all

lemma bytes_of_byteswap_be64: "bytes_of (byteswap (word_of_nat n :: u64)) = be64 n"
  by (simp add: be64_def bytes_of_byteswap)

lemma bytes_of_byteswap_be64_Suc: "bytes_of (byteswap (1 + word_of_nat n :: u64)) = be64 (Suc n)"
  using bytes_of_byteswap_be64 [of "Suc n"] by simp

lemma Write_span_append:
  assumes "gs_writeCursor b = length (gs_data b)" and "length (gs_data b) + length d < size_mod"
  shows "Write_span d Little b = Inr (length d,
    b\<lparr>gs_data := gs_data b @ d, gs_writeCursor := length (gs_data b) + length d\<rparr>)"
  using assms by (simp add: Write_span_def WriteSpan_def WriteImpl_ok native_def written_def resize_le)

context readable_stream
begin

lemma ReadValue_be32:
  assumes "ok s" and "rest s = be32 n @ tail"
  shows "\<exists>s'. ReadValue io Big s = Inr (word_of_nat n :: u32, s') \<and> eats 4 s s'"
  using ReadValue_ok [where 'a = 32, OF assms(1), of Big] assms(2) by simp

lemma read_chunks_encoded:
  assumes "ok s" and "rest s = concat (map (table_entry md5) ds) @ tail"
    and "\<And>x. length (md5 x) = 16" and "\<And>d. d \<in> set ds \<Longrightarrow> length d + 1 < 4294967296"
  shows "\<exists>engine' s'. read_chunks (length ds) io hs chunks engine s =
      Inr (chunks @ chunk_table md5 (next_offset hs chunks) ds, engine', s') \<and>
    h_context engine' = h_context engine @ concat (map (engine_entry md5) ds) \<and>
    eats (24 * length ds) s s'"
  using assms(1,2,4)
proof (induction ds arbitrary: s chunks engine)
  case Nil
  then show ?case by auto
next
  case (Cons d ds)
  let ?sum = "md5 (stored d)" and ?tail = "concat (map (table_entry md5) ds) @ tail"
  let ?chunk = "\<lparr>CompressedSize = word_of_nat (length d + 1) :: u64, DecompressedSize = word_of_nat (length d),
      Checksum = ?sum, Offset = next_offset hs chunks\<rparr>"
  have d: "length d + 1 < 4294967296" using Cons.prems(3) by simp
  obtain s1 where s1: "ReadValue io Big s = Inr (word_of_nat (length d + 1) :: u32, s1)" "eats 4 s s1"
    using ReadValue_be32 [of s "length d + 1"] Cons.prems by (auto simp: table_entry_def [of _ d])
  have r1: "rest s1 = be32 (length d) @ ?sum @ ?tail"
    using rest_of_consumed [OF s1(2)] Cons.prems by (simp add: table_entry_def [of _ d])
  obtain s2 where s2: "ReadValue io Big s1 = Inr (word_of_nat (length d) :: u32, s2)" "eats 4 s1 s2"
    using ReadValue_be32 [of s1 "length d"] r1 consumed_inv [OF s1(2)] by auto
  have r2: "rest s2 = ?sum @ ?tail"
    using rest_of_consumed [OF s2(2)] r1 by simp
  obtain s3 where s3: "ReadSpan io (replicate 16 0) Little 16 s2 = Inr (?sum, 16, s3)" "eats 16 s2 s3"
    using ReadSpan_single [of s2 "replicate 16 0" Little] r2 consumed_inv [OF s2(2)] assms(3)
    by (auto simp: native_def)
  have r3: "rest s3 = ?tail"
    using rest_of_consumed [OF s3(2)] r2 assms(3) by simp
  let ?e = "UpdateData ?sum (UpdateData_int (byteswap (DecompressedSize ?chunk))
      (UpdateData_int (byteswap (CompressedSize ?chunk)) engine))"
  obtain engine' s' where IH: "read_chunks (length ds) io hs (chunks @ [?chunk]) ?e s3 =
      Inr ((chunks @ [?chunk]) @ chunk_table md5 (next_offset hs (chunks @ [?chunk])) ds, engine', s')"
    "h_context engine' = h_context ?e @ concat (map (engine_entry md5) ds)"
    "eats (24 * length ds) s3 s'"
    using Cons.IH [OF consumed_inv [OF s3(2)] r3, of "chunks @ [?chunk]" ?e] Cons.prems(3) by auto
  have "next_offset hs (chunks @ [?chunk]) = add_sz (next_offset hs chunks) (length d + 1)"
    using d by (simp add: next_offset_def)
  moreover have "ucast (word_of_nat (length d + 1) :: u32) = (word_of_nat (length d + 1) :: u64)"
    "ucast (word_of_nat (length d) :: u32) = (word_of_nat (length d) :: u64)"
    using d by (simp_all only: ucast_size)
  ultimately have "read_chunks (length (d # ds)) io hs chunks engine s =
      Inr (chunks @ chunk_table md5 (next_offset hs chunks) (d # ds), engine', s')"
    using s1(1) s2(1) s3(1) IH(1) by (simp add: Let_def next_offset_def)
  moreover have "h_context engine' = h_context engine @ concat (map (engine_entry md5) (d # ds))"
    using IH(2) by (simp add: engine_entry_def bytes_of_byteswap_be64 bytes_of_byteswap_be64_Suc)
  moreover have "eats (24 * length (d # ds)) s s'"
    using consumed_trans [OF consumed_trans [OF consumed_trans [OF s1(2) s2(2)] s3(2)] IH(3)]
    by (simp add: algebra_simps)
  ultimately show ?case by blast
qed

lemma load_chunks_encoded:
  assumes "ok s" and "content s = pre @ concat (map stored ds) @ post" and "off = length pre"
    and "\<And>d. d \<in> set ds \<Longrightarrow> length d + 1 < 4294967296"
    and "gs_writeCursor (dataBuffer blte) = length (gs_data (dataBuffer blte))"
    and "length (gs_data (dataBuffer blte)) + length (concat ds) < size_mod"
  shows "\<exists>s'. load_chunks md5 z fuel io (chunk_table md5 off ds) blte s =
      Inr (Some (blte\<lparr>dataBuffer := (dataBuffer blte)\<lparr>gs_data := gs_data (dataBuffer blte) @ concat ds,
        gs_writeCursor := length (gs_data (dataBuffer blte)) + length (concat ds)\<rparr>\<rparr>), s') \<and>
      ok s' \<and> content s' = content s"
  using assms
proof (induction ds arbitrary: s pre off blte)
  case Nil
  then show ?case by (intro exI [of _ s]) simp
next
  case (Cons d ds)
  let ?b = "dataBuffer blte"
  let ?b' = "?b\<lparr>gs_data := gs_data ?b @ d, gs_writeCursor := length (gs_data ?b) + length d\<rparr>"
  let ?blte = "blte\<lparr>dataBuffer := ?b'\<rparr>"
  have lens: "off + (length d + 1) \<le> length (content s)" "length (content s) < size_mod"
    using Cons.prems length_content [OF Cons.prems(1)] by auto
  obtain s1 where s1: "SeekRead io off s = (off, s1)" "ok s1" "content s1 = content s"
      "GetReadCursor io s1 = off"
    using SeekRead [OF Cons.prems(1), of off] lens by auto
  have view: "Data io s1 = Inr (stored d @ concat (map stored ds) @ post)"
    using Data [OF s1(2)] s1 Cons.prems by simp
  have "LoadChunk md5 z fuel io s1 (length d + 1) m (md5 (stored d)) blte = Inr (True, ?blte)" for m
    using lens Cons.prems GetLength [OF s1(2)] Write_span_append [of ?b d]
    by (simp add: LoadChunk_def s1 view slice_def stored_def)
  moreover have "d \<in> set (d # ds)" by simp
  ultimately have step: "load_chunks md5 z fuel io (chunk_table md5 off (d # ds)) blte s =
      load_chunks md5 z fuel io (chunk_table md5 (add_sz off (length d + 1)) ds) ?blte s1"
    using Cons.prems(4) [of d] by (simp add: s1)
  have "\<exists>s'. load_chunks md5 z fuel io (chunk_table md5 (off + (length d + 1)) ds) ?blte s1 =
      Inr (Some (?blte\<lparr>dataBuffer := (dataBuffer ?blte)\<lparr>gs_data := gs_data (dataBuffer ?blte) @ concat ds,
        gs_writeCursor := length (gs_data (dataBuffer ?blte)) + length (concat ds)\<rparr>\<rparr>), s') \<and>
      ok s' \<and> content s' = content s1"
    using Cons.prems s1 by (intro Cons.IH [of _ "pre @ stored d"]) auto
  moreover have "add_sz off (length d + 1) = off + (length d + 1)" using lens by simp
  ultimately show ?case unfolding step by (simp add: s1 add.assoc)
qed

lemma BLTE_parse_encoded:
  assumes "ok s" and "GetReadCursor io s = 0" and "content s = BLTE_encode md5 ds"
    and "\<And>x. length (md5 x) = 16" and "length ds < 16777216"
    and "\<And>d. d \<in> set ds \<Longrightarrow> length d + 1 < 4294967296" and "length (concat ds) < size_mod"
    and "b = \<lparr>dataBuffer = \<lparr>gs_data = concat ds, gs_readCursor = 0, gs_writeCursor = length (concat ds)\<rparr>\<rparr>"
  shows "\<exists>s1 s2. BLTE_parse md5 z fuel io s ekey ckey =
    bindr (ekey_mismatch ekey (md5 (engine_input md5 ds))) (\<lambda>bad.
      if bad then Inr (None, s1)
      else bindr (ckey_mismatch md5 ckey b) (\<lambda>bad. Inr (if bad then None else Some b, s2)))"
proof -
  let ?n = "length ds" and ?table = "concat (map (table_entry md5) ds)"
    and ?payload = "concat (map stored ds)"
  have c: "rest s = be32 0x424C5445 @ be32 (12 + 24 * ?n) @ be32 (0x0F000000 + ?n) @ ?table @ ?payload"
    using assms(2,3) by (simp add: rest_of_def BLTE_encode_def BLTE_header_def)
  obtain t1 where t1: "ReadValue io Big s = Inr (word_of_nat 0x424C5445 :: u32, t1)" "eats 4 s t1"
    using ReadValue_be32 [OF assms(1) c] by blast
  obtain t2 where t2: "ReadValue io Big t1 = Inr (word_of_nat (12 + 24 * ?n) :: u32, t2)" "eats 4 t1 t2"
    using ReadValue_be32 [OF consumed_inv [OF t1(2)], of "12 + 24 * ?n"] rest_of_consumed [OF t1(2)] c by auto
  obtain t3 where t3: "ReadValue io Big t2 = Inr (word_of_nat (0x0F000000 + ?n) :: u32, t3)" "eats 4 t2 t3"
    using ReadValue_be32 [OF consumed_inv [OF t2(2)], of "0x0F000000 + ?n"] rest_of_consumed [OF t1(2)]
      rest_of_consumed [OF t2(2)] c by auto
  have e3: "eats 12 s t3"
    using consumed_trans [OF consumed_trans [OF t1(2) t2(2)] t3(2)] by simp
  have r3: "rest t3 = ?table @ ?payload"
    using rest_of_consumed [OF e3] c by simp
  let ?e = "UpdateData_int (byteswap (word_of_nat (0x0F000000 + ?n) :: u32))
    (UpdateData_int (byteswap (word_of_nat (12 + 24 * ?n) :: u32))
    (UpdateData_int (byteswap (word_of_nat 0x424C5445 :: u32)) (Hash_new 16)))"
  obtain engine' t4 where t4: "read_chunks ?n io (12 + 24 * ?n) [] ?e t3 =
      Inr (chunk_table md5 (12 + 24 * ?n) ds, engine', t4)"
    "h_context engine' = h_context ?e @ concat (map (engine_entry md5) ds)" "eats (24 * ?n) t3 t4"
    using read_chunks_encoded [OF consumed_inv [OF e3] r3 assms(4,6), of "12 + 24 * ?n" "[]" ?e]
    by (auto simp: next_offset_def)
  have h: "h_context engine' = engine_input md5 ds"
    by (simp add: t4(2) engine_input_def be32_def bytes_of_byteswap)
  have c4: "ok t4" "content t4 = content s"
    using t4(3) e3 by (auto simp: consumed_def)
  have lt: "length ?table = 24 * ?n"
    using assms(4) by (induction ds) (simp_all add: table_entry_def)
  have new: "BLTE_new\<lparr>dataBuffer := (dataBuffer BLTE_new)\<lparr>gs_data := gs_data (dataBuffer BLTE_new) @ concat ds,
      gs_writeCursor := length (gs_data (dataBuffer BLTE_new)) + length (concat ds)\<rparr>\<rparr> = b"
    by (simp add: BLTE_new_def GrowableMemoryStream_new_def assms(8))
  have pre: "content t4 = BLTE_header md5 ds @ ?payload @ []"
    using c4 assms(3) by (simp add: BLTE_encode_def)
  have off: "12 + 24 * ?n = length (BLTE_header md5 ds)" by (simp add: BLTE_header_def lt)
  have cur: "gs_writeCursor (dataBuffer BLTE_new) = length (gs_data (dataBuffer BLTE_new))"
    by (simp add: BLTE_new_def GrowableMemoryStream_new_def)
  have bound: "length (gs_data (dataBuffer BLTE_new)) + length (concat ds) < size_mod"
    using assms(7) by (simp add: BLTE_new_def GrowableMemoryStream_new_def)
  have "\<exists>s'. load_chunks md5 z fuel io (chunk_table md5 (12 + 24 * ?n) ds) BLTE_new t4 =
      Inr (Some b, s') \<and> ok s' \<and> content s' = content t4"
    by (rule load_chunks_encoded [OF c4(1) pre off _ cur bound, unfolded new]) (rule assms(6))
  then obtain s2 where s2:
      "load_chunks md5 z fuel io (chunk_table md5 (12 + 24 * ?n) ds) BLTE_new t4 = Inr (Some b, s2)"
    by (elim exE conjE)
  have count: "unat ((word_of_nat (0x0F000000 + ?n) :: u32) AND 0x00FFFFFF) = ?n"
  proof -
    have m: "(0x00FFFFFF :: u32) = mask 24" by (simp add: mask_eq_exp_minus_1)
    have "unat (word_of_nat (0x0F000000 + ?n) :: u32) = 0x0F000000 + ?n"
      using assms(5) by (intro unat_size32) simp
    also have "\<dots> = 15 * 16777216 + ?n" by simp
    finally have "unat (word_of_nat (0x0F000000 + ?n) :: u32) = 15 * 16777216 + ?n" .
    then have "take_bit 24 (unat (word_of_nat (0x0F000000 + ?n) :: u32)) = (15 * 16777216 + ?n) mod 16777216"
      by (simp only: take_bit_eq_mod) simp
    also have "\<dots> = ?n" using assms(5) by (simp only: mod_mult_self3 mod_less)
    finally have "take_bit 24 (unat (word_of_nat (0x0F000000 + ?n) :: u32)) = ?n" .
    then show ?thesis
      unfolding m by (simp only: unsigned_take_bit_eq flip: take_bit_eq_mask)
  qed
  have hs: "unat (word_of_nat (12 + 24 * ?n) :: u32) = 12 + 24 * ?n"
    using assms(5) by (intro unat_size32) simp
  have magic: "(word_of_nat 0x424C5445 :: u32) = BLTE_MAGIC" by (simp add: BLTE_MAGIC_def)
  have "BLTE_parse md5 z fuel io s ekey ckey =
    bindr (ekey_mismatch ekey (md5 (engine_input md5 ds))) (\<lambda>bad.
      if bad then Inr (None, t4)
      else bindr (ckey_mismatch md5 ckey b) (\<lambda>bad. Inr (if bad then None else Some b, s2)))"
    unfolding BLTE_parse_def t1(1) t2(1) t3(1) bindr_Inr prod.case Let_def count hs magic
    using t4(1) [unfolded magic] s2 by (simp add: h cong: if_cong)
  then show ?thesis by blast
qed

end

lemma ekey_mismatch_simps [simp]:
  "ekey_mismatch None d = Inr False"
  "key_wf k \<Longrightarrow> ekey_mismatch (Some k) d = Inr (k_data k \<noteq> d)"
  by (simp_all add: ekey_mismatch_def)

lemma ckey_mismatch_simps [simp]:
  "ckey_mismatch md5 None b = Inr False"
  "key_wf k \<Longrightarrow> gs_readCursor (dataBuffer b) = 0 \<Longrightarrow>
    ckey_mismatch md5 (Some k) b = Inr (k_data k \<noteq> md5 (gs_data (dataBuffer b)))"
  by (simp_all add: ckey_mismatch_def Validate_def GrowableMemoryStream_Data_def)

lemma length_engine_input:
  "(\<And>x. length (md5 x) = 16) \<Longrightarrow> length (engine_input md5 ds) = 12 + 32 * length ds"
  "(\<And>x. length (md5 x) = 16) \<Longrightarrow> length (BLTE_header md5 ds) = 12 + 24 * length ds"
proof -
  assume l: "\<And>x. length (md5 x) = 16"
  have "length (concat (map (engine_entry md5) ds)) = 32 * length ds"
    "length (concat (map (table_entry md5) ds)) = 24 * length ds"
    by (induction ds) (simp_all add: engine_entry_def table_entry_def l)
  then show "length (engine_input md5 ds) = 12 + 32 * length ds"
    "length (BLTE_header md5 ds) = 12 + 24 * length ds"
    by (simp_all add: engine_input_def BLTE_header_def)
qed

section \<open>Decompression\<close>

text \<open>zlib makes progress on every successful call: that is all the loop needs to end, after at most one
  iteration per compressed byte.\<close>

lemma inflate_loop_returns:
  assumes "\<And>strm inp n ret strm' k out. inflate z strm inp n = (ret, strm', k, out) \<Longrightarrow> inp \<noteq> [] \<Longrightarrow>
      0 \<le> ret \<Longrightarrow> 0 < k \<and> length out \<le> n"
    and "length next_in \<le> fuel"
    and "gs_writeCursor (dataBuffer blte) = length (gs_data (dataBuffer blte))"
    and "length (gs_data (dataBuffer blte)) + 8192 * length next_in < size_mod"
  shows "\<exists>ok out. inflate_loop fuel z ret strm next_in blte = Inr (ok, blte\<lparr>dataBuffer :=
    (dataBuffer blte)\<lparr>gs_data := gs_data (dataBuffer blte) @ out,
      gs_writeCursor := length (gs_data (dataBuffer blte) @ out)\<rparr>\<rparr>)"
  using assms(2-4)
proof (induction fuel arbitrary: ret strm next_in blte)
  case 0
  then show ?case by (intro exI [of _ True] exI [of _ "[]"]) simp
next
  case (Suc fuel)
  let ?b = "dataBuffer blte"
  show ?case
  proof (cases "ret \<noteq> Z_STREAM_END \<and> next_in \<noteq> []")
    case False
    then show ?thesis using Suc.prems by (intro exI [of _ True] exI [of _ "[]"]) auto
  next
    case True
    obtain ret' strm' k out where i: "inflate z strm next_in 8192 = (ret', strm', k, out)"
      by (metis prod_cases4)
    show ?thesis
    proof (cases "ret' < 0")
      case neg: True
      then show ?thesis using True i Suc.prems by (intro exI [of _ False] exI [of _ "[]"]) simp
    next
      case False
      then have k: "0 < k" "length out \<le> 8192" using assms(1) [OF i] True by auto
      let ?blte = "blte\<lparr>dataBuffer := ?b\<lparr>gs_data := gs_data ?b @ out,
        gs_writeCursor := length (gs_data ?b) + length out\<rparr>\<rparr>"
      have "1 \<le> length next_in" using True by (cases next_in) auto
      then have lt: "length (gs_data ?b) + length out + 8192 * length (drop k next_in) < size_mod"
        using k Suc.prems(3) by simp
      have "length (gs_data ?b) + length out < size_mod" using lt by simp
      then have step: "inflate_loop (Suc fuel) z ret strm next_in blte =
          inflate_loop fuel z ret' strm' (drop k next_in) ?blte"
        using True False i Suc.prems Write_span_append [of ?b out] by simp
      have "length (drop k next_in) \<le> fuel" using k Suc.prems(1) by simp
      then obtain ok out' where "inflate_loop fuel z ret' strm' (drop k next_in) ?blte =
          Inr (ok, ?blte\<lparr>dataBuffer := (dataBuffer ?blte)\<lparr>gs_data := gs_data (dataBuffer ?blte) @ out',
            gs_writeCursor := length (gs_data (dataBuffer ?blte) @ out')\<rparr>\<rparr>)"
        using Suc.IH [of "drop k next_in" ?blte ret' strm'] lt by auto
      then show ?thesis
        unfolding step by (intro exI [of _ ok] exI [of _ "out @ out'"]) (simp add: add.assoc)
    qed
  qed
qed

section \<open>Properties\<close>

lemma BLTE_parse_file:
  assumes "\<forall>x. length (md5 x) = 16" and "length ds < 2 ^ 24"
    and "\<forall>d \<in> set ds. length d + 1 < 2 ^ 32" and "length (BLTE_encode md5 ds) < size_mod"
    and "b = \<lparr>dataBuffer = \<lparr>gs_data = concat ds, gs_readCursor = 0, gs_writeCursor = length (concat ds)\<rparr>\<rparr>"
  shows "\<exists>s1 s2. BLTE_parse md5 z fuel FileStream_vt (FileStream_new (Some (BLTE_encode md5 ds))) ekey ckey =
    bindr (ekey_mismatch ekey (md5 (engine_input md5 ds))) (\<lambda>bad.
      if bad then Inr (None, s1)
      else bindr (ckey_mismatch md5 ckey b) (\<lambda>bad. Inr (if bad then None else Some b, s2)))"
proof (rule fstream.BLTE_parse_encoded)
  let ?s = "FileStream_new (Some (BLTE_encode md5 ds))"
  have "BLTE_encode md5 ds \<noteq> []"
    by (simp add: BLTE_encode_def BLTE_header_def be32_def flip: length_greater_0_conv)
  then show "FileStream_ok ?s" "GetReadCursor FileStream_vt ?s = 0" "fs_stream ?s = BLTE_encode md5 ds"
    using assms(4) by (simp_all add: FileStream_new_def FileStream_ok_def)
  have "length (concat ds) \<le> length (concat (map stored ds))" by (induction ds) auto
  then show "length (concat ds) < size_mod" using assms(4) by (simp add: BLTE_encode_def)
qed (use assms in auto)

text \<open>C3: an archive written according to the format, with any number of stored chunks of any contents,
  is read back from a file: without keys \<^verbatim>\<open>Parse\<close> returns a stream that holds exactly the concatenated
  contents, positioned at its start.\<close>

theorem BLTE_Parse_roundtrip:
  assumes "\<forall>x. length (md5 x) = 16" and "length ds < 2 ^ 24"
    and "\<forall>d \<in> set ds. length d + 1 < 2 ^ 32" and "length (BLTE_encode md5 ds) < size_mod"
  shows "\<exists>blte s'. BLTE_Parse md5 z fuel FileStream_vt (FileStream_new (Some (BLTE_encode md5 ds))) =
      Inr (Some blte, s') \<and> gs_data (dataBuffer blte) = concat ds \<and> gs_readCursor (dataBuffer blte) = 0"
  using BLTE_parse_file [OF assms refl, of z fuel None None] by (auto simp: BLTE_Parse_def)

lemma length_BLTE_encode:
  "(\<And>x. length (md5 x) = 16) \<Longrightarrow>
    length (BLTE_encode md5 ds) = 12 + 24 * length ds + length (concat (map stored ds))"
  by (simp add: BLTE_encode_def length_engine_input(2))

lemma BLTE_Parse_roundtrip_witness:
  "\<exists>blte s'. BLTE_Parse toy_md5 (\<lparr>inflateInit = (0, ()), inflate = (\<lambda>s i n. (1, (), 0, []))\<rparr>) 0
      FileStream_vt (FileStream_new (Some (BLTE_encode toy_md5 [[1, 2], [3]]))) = Inr (Some blte, s') \<and>
    gs_data (dataBuffer blte) = [1, 2, 3]"
  using BLTE_Parse_roundtrip [of toy_md5 "[[1, 2], [3]]"
      "\<lparr>inflateInit = (0, ()), inflate = (\<lambda>s i n. (1, (), 0, []))\<rparr>" 0]
  by (auto simp: length_BLTE_encode size_mod_def)

text \<open>C12: with keys, an archive of stored chunks is accepted exactly when the content key is the digest of
  the contents and the encoding key is the digest of the header with chunk sizes widened to eight
  bytes. As soon as there is a chunk this is not the header of the archive, whose digest the encoding
  key is: the archive is rejected unless MD5 collides.\<close>

theorem BLTE_Parse_keys_accepts:
  assumes "\<forall>x. length (md5 x) = 16" and "length ds < 2 ^ 24"
    and "\<forall>d \<in> set ds. length d + 1 < 2 ^ 32" and "length (BLTE_encode md5 ds) < size_mod"
    and "key_wf ekey" and "key_wf ckey"
  shows "\<exists>blte s'. BLTE_Parse_keys md5 z fuel FileStream_vt (FileStream_new (Some (BLTE_encode md5 ds))) ekey ckey
      = Inr (blte, s') \<and>
    (blte \<noteq> None \<longleftrightarrow> k_data ekey = md5 (engine_input md5 ds) \<and> k_data ckey = md5 (concat ds)) \<and>
    (ds \<noteq> [] \<longrightarrow> engine_input md5 ds \<noteq> BLTE_header md5 ds)"
proof -
  let ?b = "\<lparr>dataBuffer = \<lparr>gs_data = concat ds, gs_readCursor = 0, gs_writeCursor = length (concat ds)\<rparr>\<rparr>"
  obtain s1 s2 where p: "BLTE_Parse_keys md5 z fuel FileStream_vt (FileStream_new (Some (BLTE_encode md5 ds))) ekey ckey =
      bindr (ekey_mismatch (Some ekey) (md5 (engine_input md5 ds))) (\<lambda>bad.
      if bad then Inr (None, s1)
      else bindr (ckey_mismatch md5 (Some ckey) ?b) (\<lambda>bad. Inr (if bad then None else Some ?b, s2)))"
    using BLTE_parse_file [OF assms(1-4) refl, of z fuel "Some ekey" "Some ckey"]
    unfolding BLTE_Parse_keys_def by blast
  have "ckey_mismatch md5 (Some ckey) ?b = Inr (k_data ckey \<noteq> md5 (concat ds))"
    using assms(6) by simp
  then have "BLTE_Parse_keys md5 z fuel FileStream_vt (FileStream_new (Some (BLTE_encode md5 ds))) ekey ckey
      = (if k_data ekey \<noteq> md5 (engine_input md5 ds) then Inr (None, s1)
         else Inr (if k_data ckey \<noteq> md5 (concat ds) then None else Some ?b, s2))"
    unfolding p using assms(5) by (cases "k_data ekey = md5 (engine_input md5 ds)") simp_all
  moreover have "engine_input md5 ds \<noteq> BLTE_header md5 ds" if "ds \<noteq> []"
    using length_engine_input [of md5 ds] assms(1) that by fastforce
  ultimately show ?thesis by auto
qed

lemma be32_magic: "be32 0x424C5445 = [0x42, 0x4C, 0x54, 0x45]"
  by (simp add: be32_def bytes_of_def upt_rec)

lemma BLTE_Parse_keys_accepts_witness:
  "\<exists>s'. BLTE_Parse_keys toy_md5 (\<lparr>inflateInit = (0, ()), inflate = (\<lambda>s i n. (1, (), 0, []))\<rparr>) 0
      FileStream_vt (FileStream_new (Some (BLTE_encode toy_md5 [[1, 2], [3]])))
      (Key_of_span (toy_md5 [])) (Key_of_span (toy_md5 [1, 2, 3])) = Inr (None, s')"
proof -
  have "toy_md5 [] ! 0 = 0" "toy_md5 (engine_input toy_md5 [[1, 2], [3]]) ! 0 = 0x42"
    by (simp_all add: toy_md5_def engine_input_def be32_magic)
  then have "toy_md5 [] \<noteq> toy_md5 (engine_input toy_md5 [[1, 2], [3]])" by auto
  then show ?thesis
    using BLTE_Parse_keys_accepts [of toy_md5 "[[1, 2], [3]]" "Key_of_span (toy_md5 [])"
        "Key_of_span (toy_md5 [1, 2, 3])" "\<lparr>inflateInit = (0, ()), inflate = (\<lambda>s i n. (1, (), 0, []))\<rparr>" 0]
    by (auto simp: length_BLTE_encode size_mod_def Key_of_span_def key_wf_def)
qed

text \<open>C7: whatever the stream holds, an archive that is accepted with a content key holds contents of that
  digest, and the chunk that is loaded has the checksum that its table entry announces.\<close>

theorem BLTE_accepts_only_valid:
  assumes "key_wf ckey" and "BLTE_Parse_keys md5 z fuel io s ekey ckey = Inr (Some blte, s')"
    and "LoadChunk md5 z fuel io t compressedSize decompressedSize checksum b = Inr (True, b')"
  shows "(\<exists>view. Data GrowableMemoryStream_vt (dataBuffer blte) = Inr view \<and> md5 view = k_data ckey) \<and>
    (\<exists>view. Data io t = Inr view \<and> compressedSize \<le> length view \<and> 0 < compressedSize \<and>
      md5 (take compressedSize view) = checksum \<and> view ! 0 \<in> {0x4E, 0x5A})"
proof
  from assms(2) have "ckey_mismatch md5 (Some ckey) blte = Inr False"
    unfolding BLTE_Parse_keys_def BLTE_parse_def
    by (auto simp: bindr_eq_Inr Let_def split: if_splits option.splits prod.splits)
  then show "\<exists>view. Data GrowableMemoryStream_vt (dataBuffer blte) = Inr view \<and> md5 view = k_data ckey"
    using assms(1) by (auto simp: ckey_mismatch_def Validate_def bindr_eq_Inr)
  show "\<exists>view. Data io t = Inr view \<and> compressedSize \<le> length view \<and> 0 < compressedSize \<and>
      md5 (take compressedSize view) = checksum \<and> view ! 0 \<in> {0x4E, 0x5A}"
    using assms(3) unfolding LoadChunk_def
    by (auto simp: storage_conv slice_def split: if_splits)
qed

lemma BLTE_accepts_only_valid_witness:
  "\<exists>blte s' view. BLTE_Parse_keys toy_md5 (\<lparr>inflateInit = (0, ()), inflate = (\<lambda>s i n. (1, (), 0, []))\<rparr>) 0
      FileStream_vt (FileStream_new (Some (BLTE_encode toy_md5 [])))
      (Key_of_span (toy_md5 (engine_input toy_md5 []))) (Key_of_span (toy_md5 [])) = Inr (Some blte, s') \<and>
    Data GrowableMemoryStream_vt (dataBuffer blte) = Inr view \<and> toy_md5 view = toy_md5 []"
proof -
  let ?z = "\<lparr>inflateInit = (0, ()), inflate = (\<lambda>s i n. (1, (), 0, []))\<rparr>"
  let ?e = "Key_of_span (toy_md5 (engine_input toy_md5 []))" and ?c = "Key_of_span (toy_md5 [])"
  have wf: "key_wf ?e" "key_wf ?c" by simp_all
  have kd: "k_data ?e = toy_md5 (engine_input toy_md5 [])" "k_data ?c = toy_md5 []"
    by (simp_all only: Key_of_span_def Key.simps)
  obtain blte s' where p: "BLTE_Parse_keys toy_md5 ?z 0 FileStream_vt
      (FileStream_new (Some (BLTE_encode toy_md5 []))) ?e ?c = Inr (Some blte, s')"
    using BLTE_parse_file [of toy_md5 "[]" "\<lparr>dataBuffer = \<lparr>gs_data = concat [], gs_readCursor = 0,
        gs_writeCursor = length (concat [])\<rparr>\<rparr>" ?z 0 "Some ?e" "Some ?c"]
    by (auto simp: BLTE_Parse_keys_def length_BLTE_encode size_mod_def wf kd)
  have "LoadChunk toy_md5 ?z 0 FileStream_vt (FileStream_new (Some [0x4E, 5])) 2 1
      (toy_md5 [0x4E, 5]) BLTE_new
    = Inr (True, BLTE_new\<lparr>dataBuffer := (dataBuffer BLTE_new)\<lparr>gs_data := [5], gs_writeCursor := 1\<rparr>\<rparr>)"
    using Write_span_append [of "dataBuffer BLTE_new" "[5]"]
    by (simp add: LoadChunk_def FileStream_new_def FileStream_Data_def size_mod_def slice_def BLTE_new_def
        GrowableMemoryStream_new_def)
  from BLTE_accepts_only_valid [OF wf(2) p this] kd p show ?thesis by auto
qed

text \<open>The loop around \<^verbatim>\<open>inflate\<close> stops when the compressed bytes are used up, also when zlib still
  holds output: a chunk whose compressed bytes fit into one call is accepted with the first 8192 bytes
  of its contents, although zlib has not reported the end of the stream. A chunk of size zero with a
  matching checksum is read out of bounds.\<close>

theorem LoadChunk_hazards:
  assumes "inflate z strm next_in 8192 = (Z_OK, strm', length next_in, out)" and "length out = 8192"
    and "gs_writeCursor (dataBuffer blte) = length (gs_data (dataBuffer blte))"
    and "length (gs_data (dataBuffer blte)) + 8192 < size_mod" and "next_in \<noteq> []"
    and "GetReadCursor io t \<le> GetLength io t" and "GetLength io t < size_mod"
    and "Data io t = Inr view" and "mdf [] = checksum"
  shows "inflate_loop (Suc fuel) z Z_OK strm next_in blte = Inr (True, blte\<lparr>dataBuffer :=
      (dataBuffer blte)\<lparr>gs_data := gs_data (dataBuffer blte) @ out,
        gs_writeCursor := length (gs_data (dataBuffer blte)) + 8192\<rparr>\<rparr>) \<and>
    LoadChunk mdf z' fuel io t 0 decompressedSize checksum b = Inl OutOfBounds"
proof
  have "inflate_loop fuel z Z_OK strm' [] b' = Inr (True, b')" for b'
    by (cases fuel) simp_all
  then show "inflate_loop (Suc fuel) z Z_OK strm next_in blte = Inr (True, blte\<lparr>dataBuffer :=
      (dataBuffer blte)\<lparr>gs_data := gs_data (dataBuffer blte) @ out,
        gs_writeCursor := length (gs_data (dataBuffer blte)) + 8192\<rparr>\<rparr>)"
    using assms(1-5) Write_span_append [of "dataBuffer blte" out]
    by (simp add: Z_OK_def Z_STREAM_END_def)
  show "LoadChunk mdf z' fuel io t 0 decompressedSize checksum b = Inl OutOfBounds"
    using assms(6-9) by (simp add: LoadChunk_def slice_def at_def)
qed

lemma LoadChunk_hazards_witness:
  "inflate_loop (Suc 0) (\<lparr>inflateInit = (0, 10000), inflate = (\<lambda>left i n. (Z_OK, left - n, length i, replicate n 7))\<rparr>)
      Z_OK (10000 :: nat) [1, 2, 3] BLTE_new = Inr (True, BLTE_new\<lparr>dataBuffer :=
      (dataBuffer BLTE_new)\<lparr>gs_data := gs_data (dataBuffer BLTE_new) @ replicate 8192 7,
        gs_writeCursor := length (gs_data (dataBuffer BLTE_new)) + 8192\<rparr>\<rparr>)"
  by (rule conjunct1 [OF LoadChunk_hazards [where io = FileStream_vt and t = "FileStream_new (Some [1])"
        and view = "[1]" and mdf = toy_md5 and checksum = "toy_md5 []" and strm' = "10000 - 8192"]])
    (simp_all add: BLTE_new_def GrowableMemoryStream_new_def size_mod_def FileStream_new_def
      FileStream_Data_def slice_def)

end
