(* ===== verification/Numbers.thy ===== *)
theory Numbers
  imports Main
begin

text \<open>
  Unsigned numbers in decimal notation: the conversion of the standard library that the parsers of configuration
  files and of Ribbit messages use, and the text it reads back.
\<close>

section \<open>\<^verbatim>\<open>std::from_chars\<close> for unsigned integers\<close>

definition is_digit :: "char \<Rightarrow> bool" where
  "is_digit c \<longleftrightarrow> 48 \<le> (of_char c :: nat) \<and> (of_char c :: nat) \<le> 57"

definition digits_value :: "string \<Rightarrow> nat" where
  "digits_value ds = fold (\<lambda>c n. 10 * n + (of_char c - 48)) ds 0"

text \<open>The longest prefix of digits is converted, whatever follows it; without a digit, or when the
  value does not fit, an error code is returned and the target keeps its value.\<close>

definition from_chars :: "nat \<Rightarrow> string \<Rightarrow> nat option" where
  "from_chars bound s =
     (let ds = takeWhile is_digit s in
      if ds = [] \<or> bound \<le> digits_value ds then None else Some (digits_value ds))"

section \<open>Numbers as text\<close>

fun print_nat :: "nat \<Rightarrow> string" where
  "print_nat n = (if n < 10 then [char_of (48 + n)] else print_nat (n div 10) @ [char_of (48 + n mod 10)])"

declare print_nat.simps [simp del]

lemma digits_value_snoc: "digits_value (ds @ [c]) = 10 * digits_value ds + (of_char c - 48)"
  by (simp add: digits_value_def)

lemma of_char_digit: "k < 10 \<Longrightarrow> (of_char (char_of (48 + k) :: char) :: nat) = 48 + k"
  by simp

lemma print_nat_value [simp]: "digits_value (print_nat n) = n"
proof (induction n rule: print_nat.induct)
  case (1 n)
  show ?case
  proof (cases "n < 10")
    case True
    then show ?thesis
      using of_char_digit [of n] by (simp add: print_nat.simps [of n] digits_value_def del: of_char_of)
  next
    case False
    then show ?thesis
      using 1 of_char_digit [of "n mod 10"]
      by (simp add: print_nat.simps [of n] digits_value_snoc del: of_char_of)
  qed
qed

lemma print_nat_digits: "\<forall>c \<in> set (print_nat n). is_digit c"
proof (induction n rule: print_nat.induct)
  case (1 n)
  have "n mod 10 < 10" by simp
  then have "n mod 10 \<le> 9" by linarith
  then show ?case
    using 1 of_char_digit [of n] of_char_digit [of "n mod 10"]
    by (simp add: print_nat.simps [of n] is_digit_def del: of_char_of)
qed

lemma print_nat_nonempty [simp]: "print_nat n \<noteq> []"
  by (simp add: print_nat.simps [of n])

lemma from_chars_print_nat [simp]: "n < bound \<Longrightarrow> from_chars bound (print_nat n) = Some n"
proof -
  assume "n < bound"
  moreover have tw: "takeWhile is_digit (print_nat n) = print_nat n"
    using print_nat_digits [of n] by (simp add: takeWhile_eq_all_conv)
  ultimately show ?thesis unfolding from_chars_def tw Let_def by simp
qed

lemma from_chars_prefix:
  "n < bound \<Longrightarrow> \<not> is_digit c \<Longrightarrow> from_chars bound (print_nat n @ c # s) = Some n"
proof -
  assume "n < bound" "\<not> is_digit c"
  moreover have tw: "takeWhile is_digit (print_nat n @ c # s) = print_nat n"
    using print_nat_digits [of n] \<open>\<not> is_digit c\<close> by (simp add: takeWhile_append2)
  ultimately show ?thesis unfolding from_chars_def tw Let_def by simp
qed

end
