(* ===== verification/Config.thy ===== *)
theory Config
  imports Streams Key Tokenizer Numbers
begin

text \<open>
  \<^verbatim>\<open>libtactmon/tact/config/BuildConfig.cpp\<close> and \<^verbatim>\<open>CDNConfig.cpp\<close>: the two configuration files. Both are
  texts of lines \<^verbatim>\<open>key = value ...\<close>; lines that start with \<^verbatim>\<open>#\<close> and unknown keys are skipped.
\<close>

section \<open>Lines and tokens\<close>

text \<open>The whole stream as text: the first \<^verbatim>\<open>GetLength()\<close> characters at the cursor, which was set to
  the start before.\<close>

definition contents :: "'s readable \<Rightarrow> 's \<Rightarrow> (string \<times> 's) result" where
  "contents io s =
     (let s = snd (SeekRead io 0 s) in
      bindr (Data io s) (\<lambda>view.
      bindr (subspan 0 (GetLength io s) view) (\<lambda>bs. Inr (map char_of_byte bs, s))))"

definition Separators :: "char list" where
  "Separators = '' =''"

section \<open>\<^verbatim>\<open>BuildConfig\<close>\<close>

record KeyPair =
  ContentKey :: CKey
  EncodingKey :: EKey

record SizedKey =
  sk_Key :: KeyPair
  sk_Size0 :: nat
  sk_Size1 :: nat

record BuildConfig =
  bc_Root :: CKey
  bc_Install :: SizedKey
  bc_Encoding :: SizedKey
  bc_BuildName :: string

definition SizedKey_default :: SizedKey where
  "SizedKey_default = \<lparr>sk_Key = \<lparr>ContentKey = Key_default, EncodingKey = Key_default\<rparr>,
     sk_Size0 = 0, sk_Size1 = 0\<rparr>"

definition BuildConfig_default :: BuildConfig where
  "BuildConfig_default = \<lparr>bc_Root = Key_default, bc_Install = SizedKey_default,
     bc_Encoding = SizedKey_default, bc_BuildName = []\<rparr>"

type_synonym handler = "BuildConfig \<Rightarrow> string list \<Rightarrow> (bool \<times> BuildConfig) result"

definition handle_root :: handler where
  "handle_root cfg tokens =
     (if length tokens \<noteq> 2 then Inr (False, cfg)
      else bindr (at tokens 1) (\<lambda>t. bindr (CKey_TryParse t) (\<lambda>(ok, k).
        Inr (ok, cfg\<lparr>bc_Root := k\<rparr>))))"

text \<open>The handlers of \<^verbatim>\<open>install\<close> and \<^verbatim>\<open>encoding\<close> accept two tokens and then use the third one.\<close>

definition handle_keys :: "SizedKey \<Rightarrow> string list \<Rightarrow> (bool \<times> SizedKey) result" where
  "handle_keys sk tokens =
     (if length tokens \<noteq> 3 \<and> length tokens \<noteq> 2 then Inr (False, sk)
      else bindr (at tokens 1) (\<lambda>t. bindr (CKey_TryParse t) (\<lambda>(ok, ck).
        let sk = sk\<lparr>sk_Key := (sk_Key sk)\<lparr>ContentKey := ck\<rparr>\<rparr> in
        if \<not> ok then Inr (False, sk)
        else bindr (at tokens 2) (\<lambda>t. bindr (EKey_TryParse t) (\<lambda>(ok, ek).
          Inr (ok, sk\<lparr>sk_Key := (sk_Key sk)\<lparr>EncodingKey := ek\<rparr>\<rparr>))))))"

definition handle_sizes :: "SizedKey \<Rightarrow> string list \<Rightarrow> (bool \<times> SizedKey) result" where
  "handle_sizes sk tokens =
     (if length tokens \<noteq> 3 \<and> length tokens \<noteq> 2 then Inr (False, sk)
      else bindr (at tokens 1) (\<lambda>t. case from_chars size_mod t of
          None \<Rightarrow> Inr (False, sk)
        | Some n \<Rightarrow>
            let sk = sk\<lparr>sk_Size0 := n\<rparr> in
            if length tokens = 3
            then bindr (at tokens 2) (\<lambda>t. case from_chars size_mod t of
                None \<Rightarrow> Inr (False, sk)
              | Some n \<Rightarrow> Inr (True, sk\<lparr>sk_Size1 := n\<rparr>))
            else Inr (True, sk)))"

definition handle_install :: handler where
  "handle_install cfg tokens =
     bindr (handle_keys (bc_Install cfg) tokens) (\<lambda>(ok, sk). Inr (ok, cfg\<lparr>bc_Install := sk\<rparr>))"

definition handle_install_size :: handler where
  "handle_install_size cfg tokens =
     bindr (handle_sizes (bc_Install cfg) tokens) (\<lambda>(ok, sk). Inr (ok, cfg\<lparr>bc_Install := sk\<rparr>))"

definition handle_encoding :: handler where
  "handle_encoding cfg tokens =
     bindr (handle_keys (bc_Encoding cfg) tokens) (\<lambda>(ok, sk). Inr (ok, cfg\<lparr>bc_Encoding := sk\<rparr>))"

definition handle_encoding_size :: handler where
  "handle_encoding_size cfg tokens =
     bindr (handle_sizes (bc_Encoding cfg) tokens) (\<lambda>(ok, sk). Inr (ok, cfg\<lparr>bc_Encoding := sk\<rparr>))"

definition handle_build_name :: handler where
  "handle_build_name cfg tokens =
     (if length tokens \<noteq> 2 then Inr (False, cfg)
      else bindr (at tokens 1) (\<lambda>t. Inr (True, cfg\<lparr>bc_BuildName := t\<rparr>)))"

definition Handlers :: "(string \<times> handler) list" where
  "Handlers = [
     (''root'', handle_root),
     (''install'', handle_install),
     (''install-size'', handle_install_size),
     (''encoding'', handle_encoding),
     (''encoding-size'', handle_encoding_size),
     (''build-name'', handle_build_name)]"

text \<open>The loop over the handlers: the first whose token is \<^verbatim>\<open>tokens[0]\<close> decides.\<close>

primrec run_handlers :: "(string \<times> handler) list \<Rightarrow> handler" where
  "run_handlers [] cfg tokens = Inr (True, cfg)"
| "run_handlers (h # hs) cfg tokens =
     bindr (at tokens 0) (\<lambda>t.
       if t \<noteq> fst h then run_handlers hs cfg tokens else snd h cfg tokens)"

primrec BuildConfig_lines :: "string list \<Rightarrow> BuildConfig \<Rightarrow> BuildConfig option result" where
  "BuildConfig_lines [] config = Inr (Some config)"
| "BuildConfig_lines (line # lines) config =
     bindr (at line 0) (\<lambda>c.
       if c = CHR ''#'' then BuildConfig_lines lines config
       else let tokens = Tokenize_chars line Separators True in
         bindr (run_handlers Handlers config tokens) (\<lambda>(ok, config).
           if ok then BuildConfig_lines lines config else Inr None))"

definition BuildConfig_Parse :: "'s readable \<Rightarrow> 's \<Rightarrow> (BuildConfig option \<times> 's) result" where
  "BuildConfig_Parse io s =
     bindr (contents io s) (\<lambda>(text, s).
       let lines = Tokenize_char text (CHR 0x0A) False in
       if lines = [] then Inr (None, s)
       else bindr (BuildConfig_lines lines BuildConfig_default) (\<lambda>config. Inr (config, s)))"

section \<open>\<^verbatim>\<open>CDNConfig\<close>\<close>

record Archive =
  ar_Name :: string
  ar_Size :: nat

record CDNConfig =
  cc_archives :: "Archive list"
  cc_fileIndex :: "Archive option"

definition Archive_default :: Archive where
  "Archive_default = \<lparr>ar_Name = [], ar_Size = 0\<rparr>"

definition CDNConfig_default :: CDNConfig where
  "CDNConfig_default = \<lparr>cc_archives = [], cc_fileIndex = None\<rparr>"

text \<open>\<^verbatim>\<open>archives.resize\<close> keeps the sizes that are there; the names are overwritten.\<close>

definition archives_line :: "string list \<Rightarrow> Archive list \<Rightarrow> Archive list" where
  "archives_line names archives =
     (let archives = take (length names) archives
            @ replicate (length names - length archives) Archive_default
      in map (\<lambda>(n, a). a\<lparr>ar_Name := n\<rparr>) (zip names archives))"

primrec sizes_line :: "nat \<Rightarrow> string list \<Rightarrow> Archive list \<Rightarrow> Archive list option result" where
  "sizes_line i [] archives = Inr (Some archives)"
| "sizes_line i (t # ts) archives =
     bindr (at archives i) (\<lambda>a. case from_chars size_mod t of
         None \<Rightarrow> Inr None
       | Some n \<Rightarrow> sizes_line (i + 1) ts (archives[i := a\<lparr>ar_Size := n\<rparr>]))"

definition emplace :: "Archive option \<Rightarrow> Archive" where
  "emplace x = (case x of None \<Rightarrow> Archive_default | Some a \<Rightarrow> a)"

definition CDNConfig_line :: "string list \<Rightarrow> CDNConfig \<Rightarrow> CDNConfig option result" where
  "CDNConfig_line tokens config =
     bindr (at tokens 0) (\<lambda>t.
       if t = ''archives'' then
         Inr (Some (config\<lparr>cc_archives := archives_line (tl tokens) (cc_archives config)\<rparr>))
       else if t = ''archives-index-size'' then
         bindr (sizes_line 0 (tl tokens) (cc_archives config)) (\<lambda>r.
           Inr (case r of None \<Rightarrow> None | Some as \<Rightarrow> Some (config\<lparr>cc_archives := as\<rparr>)))
       else if t = ''file-index'' then
         if length tokens = 1 then Inr None
         else bindr (at tokens 1) (\<lambda>n.
           Inr (Some (config\<lparr>cc_fileIndex := Some ((emplace (cc_fileIndex config))\<lparr>ar_Name := n\<rparr>)\<rparr>)))
       else if t = ''file-index-size'' then
         if length tokens = 1 then Inr None
         else bindr (at tokens 1) (\<lambda>n. case from_chars size_mod n of
             None \<Rightarrow> Inr None
           | Some n \<Rightarrow> Inr (Some (config\<lparr>cc_fileIndex := Some ((emplace (cc_fileIndex config))\<lparr>ar_Size := n\<rparr>)\<rparr>)))
       else Inr (Some config))"

primrec CDNConfig_lines :: "string list \<Rightarrow> CDNConfig \<Rightarrow> CDNConfig option result" where
  "CDNConfig_lines [] config = Inr (Some config)"
| "CDNConfig_lines (line # lines) config =
     bindr (at line 0) (\<lambda>c.
       if c = CHR ''#'' then CDNConfig_lines lines config
       else bindr (CDNConfig_line (Tokenize_chars line Separators True) config) (\<lambda>r.
         case r of None \<Rightarrow> Inr None | Some config \<Rightarrow> CDNConfig_lines lines config))"

definition CDNConfig_Parse :: "'s readable \<Rightarrow> 's \<Rightarrow> (CDNConfig option \<times> 's) result" where
  "CDNConfig_Parse io s =
     bindr (contents io s) (\<lambda>(text, s).
       let lines = Tokenize_char text (CHR 0x0A) True in
       if lines = [] then Inr (None, s)
       else bindr (CDNConfig_lines lines CDNConfig_default) (\<lambda>config. Inr (config, s)))"

section \<open>Lines as text\<close>

text \<open>A word: what can stand between separators.\<close>

definition is_word :: "string \<Rightarrow> bool" where
  "is_word w \<longleftrightarrow> w \<noteq> [] \<and> set w \<inter> set Separators = {} \<and> CHR 0x0A \<notin> set w"

definition unwords :: "string list \<Rightarrow> string" where
  "unwords ws = concat (map (\<lambda>w. w @ [CHR '' '']) ws)"

definition print_line :: "string \<Rightarrow> string list \<Rightarrow> string" where
  "print_line key ws = key @ '' = '' @ unwords ws"

lemma Separators_simps [simp]: "CHR '' '' \<in> set Separators" "CHR ''='' \<in> set Separators"
  by (simp_all add: Separators_def)

lemma is_word_hex: "bs \<noteq> [] \<Longrightarrow> is_word (hex bs)"
proof -
  assume "bs \<noteq> []"
  moreover have "length (hex bs) = 2 * length bs" by simp
  moreover have "set alphabet \<inter> (set Separators \<union> {CHR 0x0A}) = {}"
    by (simp add: alphabet_def Separators_def)
  ultimately show ?thesis
    using set_hex [of bs] unfolding is_word_def by (auto simp del: length_hex)
qed

lemma is_word_print_nat [simp]: "is_word (print_nat n)"
  using print_nat_digits [of n] by (auto simp: is_word_def Separators_def is_digit_def)

lemma tokens_unwords:
  "(\<And>w. w \<in> set ws \<Longrightarrow> is_word w) \<Longrightarrow> Tokenize_chars (unwords ws) Separators True = ws"
proof (induction ws)
  case (Cons w ws)
  then have "is_word w" by simp
  then have "Tokenize_chars (w @ CHR '' '' # unwords ws) Separators True
      = w # Tokenize_chars (unwords ws) Separators True"
    by (subst Tokenize_chars_step) (auto simp: is_word_def)
  with Cons show ?case by (simp add: unwords_def)
qed (simp add: unwords_def)

lemma tokens_print_line:
  assumes "is_word key" and "\<And>w. w \<in> set ws \<Longrightarrow> is_word w"
  shows "Tokenize_chars (print_line key ws) Separators True = key # ws"
proof -
  have "Tokenize_chars (key @ CHR '' '' # ''= '' @ unwords ws) Separators True
      = key # Tokenize_chars (''= '' @ unwords ws) Separators True"
    using assms(1) by (subst Tokenize_chars_step) (auto simp: is_word_def)
  then show ?thesis
    by (simp add: print_line_def Tokenize_chars_skip tokens_unwords assms(2))
qed

lemma print_line_newline:
  "is_word key \<Longrightarrow> (\<And>w. w \<in> set ws \<Longrightarrow> is_word w) \<Longrightarrow> CHR 0x0A \<notin> set (print_line key ws)"
  by (induction ws) (auto simp: print_line_def unwords_def is_word_def)

lemma print_line_at:
  "is_word (c # key) \<Longrightarrow> at (print_line (c # key) ws) 0 = Inr c"
  by (simp add: print_line_def)

text \<open>The file with the given lines.\<close>

definition file_of :: "string list \<Rightarrow> byte list" where
  "file_of lines = map byte_of_char (rejoin [CHR 0x0A] lines)"

lemma char_of_file_of [simp]: "map char_of_byte (file_of lines) = rejoin [CHR 0x0A] lines"
  by (simp add: file_of_def o_def)

context readable_stream
begin

lemma contents_ok:
  assumes "ok s"
  shows "\<exists>s'. contents io s = Inr (map char_of_byte (content s), s') \<and> ok s'"
proof -
  obtain s' where s': "SeekRead io 0 s = (0, s')" "ok s'" "content s' = content s" "GetReadCursor io s' = 0"
    using SeekRead [OF assms, of 0] by auto
  then show ?thesis by (simp add: contents_def Data [OF s'(2)] GetLength [OF s'(2)])
qed

end

section \<open>Printing configurations\<close>

definition print_keys :: "SizedKey \<Rightarrow> string list" where
  "print_keys sk = [hex (k_data (ContentKey (sk_Key sk))), hex (k_data (EncodingKey (sk_Key sk)))]"

definition print_sizes :: "SizedKey \<Rightarrow> string list" where
  "print_sizes sk = [print_nat (sk_Size0 sk), print_nat (sk_Size1 sk)]"

definition print_build :: "BuildConfig \<Rightarrow> string list" where
  "print_build cfg =
     [print_line ''root'' [hex (k_data (bc_Root cfg))],
      print_line ''install'' (print_keys (bc_Install cfg)),
      print_line ''install-size'' (print_sizes (bc_Install cfg)),
      print_line ''encoding'' (print_keys (bc_Encoding cfg)),
      print_line ''encoding-size'' (print_sizes (bc_Encoding cfg)),
      print_line ''build-name'' [bc_BuildName cfg]]"

definition key_ok :: "Key \<Rightarrow> bool" where
  "key_ok k \<longleftrightarrow> key_wf k \<and> k_data k \<noteq> []"

definition sized_ok :: "SizedKey \<Rightarrow> bool" where
  "sized_ok sk \<longleftrightarrow> key_ok (ContentKey (sk_Key sk)) \<and> key_ok (EncodingKey (sk_Key sk)) \<and>
     sk_Size0 sk < size_mod \<and> sk_Size1 sk < size_mod"

definition build_ok :: "BuildConfig \<Rightarrow> bool" where
  "build_ok cfg \<longleftrightarrow> key_ok (bc_Root cfg) \<and> sized_ok (bc_Install cfg) \<and> sized_ok (bc_Encoding cfg) \<and>
     is_word (bc_BuildName cfg)"

lemma TryParse_hex [simp]:
  "key_ok k \<Longrightarrow> CKey_TryParse (hex (k_data k)) = Inr (True, k)"
  "key_ok k \<Longrightarrow> EKey_TryParse (hex (k_data k)) = Inr (True, k)"
  by (simp_all add: TryParse_unhex key_ok_def key_wf_def Key_of_span_def)

lemma is_word_key [simp]: "key_ok k \<Longrightarrow> is_word (hex (k_data k))"
  by (simp add: is_word_hex key_ok_def)

lemma is_word_keywords [simp]:
  "is_word ''root''" "is_word ''install''" "is_word ''install-size''" "is_word ''encoding''"
  "is_word ''encoding-size''" "is_word ''build-name''" "is_word ''archives''"
  "is_word ''archives-index-size''" "is_word ''file-index''" "is_word ''file-index-size''"
  by (simp_all add: is_word_def Separators_def)

lemma handle_keys_print:
  "sized_ok sk \<Longrightarrow> handle_keys sk' (key # print_keys sk) = Inr (True, sk'\<lparr>sk_Key := sk_Key sk\<rparr>)"
  by (simp add: handle_keys_def print_keys_def sized_ok_def Let_def)

lemma handle_sizes_print:
  "sized_ok sk \<Longrightarrow> handle_sizes sk' (key # print_sizes sk) =
    Inr (True, sk'\<lparr>sk_Size0 := sk_Size0 sk, sk_Size1 := sk_Size1 sk\<rparr>)"
  by (simp add: handle_sizes_def print_sizes_def sized_ok_def Let_def)

lemma words_print:
  "sized_ok sk \<Longrightarrow> list_all is_word (print_keys sk)"
  "list_all is_word (print_sizes sk)"
  by (auto simp: print_keys_def print_sizes_def sized_ok_def)

text \<open>One line of a configuration.\<close>

lemma BuildConfig_line:
  assumes "is_word key" and "hd key \<noteq> CHR ''#''" and "list_all is_word ws"
  shows "BuildConfig_lines (print_line key ws # lines) config =
    bindr (run_handlers Handlers config (key # ws)) (\<lambda>(ok, config).
      if ok then BuildConfig_lines lines config else Inr None)"
proof -
  obtain c k where "key = c # k" using assms(1) by (cases key) (auto simp: is_word_def)
  then show ?thesis
    using assms(2,3) tokens_print_line [OF assms(1), of ws] by (simp add: print_line_def Let_def list_all_iff)
qed

lemma BuildConfig_print_lines:
  assumes "build_ok cfg"
  shows "BuildConfig_lines (print_build cfg) BuildConfig_default = Inr (Some cfg)"
proof -
  have i: "sized_ok (bc_Install cfg)" and e: "sized_ok (bc_Encoding cfg)"
    and r: "key_ok (bc_Root cfg)" and n: "is_word (bc_BuildName cfg)"
    using assms by (simp_all add: build_ok_def)
  show ?thesis
    unfolding print_build_def
    using i e r n
    by (simp add: BuildConfig_line words_print Handlers_def handle_root_def handle_install_def
        handle_install_size_def handle_encoding_def handle_encoding_size_def handle_build_name_def
        handle_keys_print handle_sizes_print BuildConfig_default_def SizedKey_default_def
        del: BuildConfig_lines.simps(2))
qed

lemma print_build_newline:
  assumes "build_ok cfg" and "line \<in> set (print_build cfg)"
  shows "CHR 0x0A \<notin> set line"
proof -
  obtain key ws where "line = print_line key ws" "is_word key" "list_all is_word ws"
    using assms words_print by (auto simp: print_build_def build_ok_def)
  then show ?thesis using print_line_newline by (auto simp: list_all_iff)
qed

context readable_stream
begin

lemma BuildConfig_Parse_lines:
  assumes "ok s" and "content s = file_of lines" and "\<And>l. l \<in> set lines \<Longrightarrow> CHR 0x0A \<notin> set l"
    and "lines \<noteq> []"
  shows "\<exists>s'. BuildConfig_Parse io s =
    bindr (BuildConfig_lines lines BuildConfig_default) (\<lambda>config. Inr (config, s'))"
  using contents_ok [OF assms(1)] assms(2,4) Tokenize_char_rejoin [of lines, OF assms(3)]
  by (auto simp: BuildConfig_Parse_def Let_def)

lemma CDNConfig_Parse_lines:
  assumes "ok s" and "content s = file_of lines"
    and "\<And>l. l \<in> set lines \<Longrightarrow> CHR 0x0A \<notin> set l \<and> l \<noteq> []" and "lines \<noteq> []"
  shows "\<exists>s'. CDNConfig_Parse io s =
    bindr (CDNConfig_lines lines CDNConfig_default) (\<lambda>config. Inr (config, s'))"
  using contents_ok [OF assms(1)] assms(2,4) Tokenize_char_rejoin_nonempty [of lines, OF assms(3)]
  by (auto simp: CDNConfig_Parse_def Let_def)

end

section \<open>CDN configurations\<close>

definition print_cdn :: "CDNConfig \<Rightarrow> string list" where
  "print_cdn cfg =
     [print_line ''archives'' (map ar_Name (cc_archives cfg)),
      print_line ''archives-index-size'' (map (print_nat \<circ> ar_Size) (cc_archives cfg))]
     @ (case cc_fileIndex cfg of None \<Rightarrow> []
        | Some a \<Rightarrow> [print_line ''file-index'' [ar_Name a],
                     print_line ''file-index-size'' [print_nat (ar_Size a)]])"

definition archive_ok :: "Archive \<Rightarrow> bool" where
  "archive_ok a \<longleftrightarrow> is_word (ar_Name a) \<and> ar_Size a < size_mod"

definition cdn_ok :: "CDNConfig \<Rightarrow> bool" where
  "cdn_ok cfg \<longleftrightarrow> (\<forall>a \<in> set (cc_archives cfg). archive_ok a) \<and>
     (\<forall>a. cc_fileIndex cfg = Some a \<longrightarrow> archive_ok a)"

lemma archives_line_new:
  "archives_line names [] = map (\<lambda>n. \<lparr>ar_Name = n, ar_Size = 0\<rparr>) names"
  by (rule nth_equalityI) (simp_all add: archives_line_def Archive_default_def Let_def)

lemma sizes_line_print:
  "(\<And>a. a \<in> set as \<Longrightarrow> archive_ok a) \<Longrightarrow>
    sizes_line (length pre) (map (print_nat \<circ> ar_Size) as)
      (pre @ map (\<lambda>n. \<lparr>ar_Name = n, ar_Size = 0\<rparr>) (map ar_Name as)) = Inr (Some (pre @ as))"
proof (induction as arbitrary: pre)
  case (Cons a as)
  obtain n k where "a = \<lparr>ar_Name = n, ar_Size = k\<rparr>" by (cases a) auto
  then show ?case using Cons.IH [of "pre @ [a]"] Cons.prems [of a] Cons.prems
    by (simp add: archive_ok_def del: map_map)
qed simp

lemma CDNConfig_line_tokens:
  assumes "is_word key" and "hd key \<noteq> CHR ''#''" and "list_all is_word ws"
  shows "CDNConfig_lines (print_line key ws # lines) config =
    bindr (CDNConfig_line (key # ws) config) (\<lambda>r.
      case r of None \<Rightarrow> Inr None | Some config \<Rightarrow> CDNConfig_lines lines config)"
proof -
  obtain c k where "key = c # k" using assms(1) by (cases key) (auto simp: is_word_def)
  then show ?thesis
    using assms(2,3) tokens_print_line [OF assms(1), of ws] by (simp add: print_line_def list_all_iff)
qed

lemma CDNConfig_print_lines:
  assumes "cdn_ok cfg"
  shows "CDNConfig_lines (print_cdn cfg) CDNConfig_default = Inr (Some cfg)"
proof -
  have a: "\<And>a. a \<in> set (cc_archives cfg) \<Longrightarrow> archive_ok a"
    and f: "\<And>a. cc_fileIndex cfg = Some a \<Longrightarrow> archive_ok a"
    using assms by (simp_all add: cdn_ok_def)
  have w: "list_all is_word (map ar_Name (cc_archives cfg))"
    "list_all is_word (map (print_nat \<circ> ar_Size) (cc_archives cfg))"
    using a by (auto simp: archive_ok_def list_all_iff)
  have s: "sizes_line 0 (map (print_nat \<circ> ar_Size) (cc_archives cfg))
      (map (\<lambda>n. \<lparr>ar_Name = n, ar_Size = 0\<rparr>) (map ar_Name (cc_archives cfg))) = Inr (Some (cc_archives cfg))"
    using sizes_line_print [OF a, of "cc_archives cfg" "[]"] by simp
  show ?thesis
  proof (cases "cc_fileIndex cfg")
    case None
    then show ?thesis
      using s w by (simp add: print_cdn_def CDNConfig_line_tokens CDNConfig_line_def CDNConfig_default_def
          archives_line_new del: map_map CDNConfig_lines.simps(2))
  next
    case (Some x)
    then show ?thesis
      using s w f [OF Some]
      by (simp add: print_cdn_def CDNConfig_line_tokens CDNConfig_line_def CDNConfig_default_def
          archives_line_new archive_ok_def emplace_def Archive_default_def
          del: map_map CDNConfig_lines.simps(2))
  qed
qed

lemma print_cdn_lines:
  assumes "cdn_ok cfg" and "line \<in> set (print_cdn cfg)"
  shows "CHR 0x0A \<notin> set line \<and> line \<noteq> []"
proof -
  have "list_all is_word (map ar_Name (cc_archives cfg))"
    "list_all is_word (map (print_nat \<circ> ar_Size) (cc_archives cfg))"
    using assms(1) by (auto simp: cdn_ok_def archive_ok_def list_all_iff)
  then obtain key ws where "line = print_line key ws" "is_word key" "list_all is_word ws"
    using assms by (auto simp: print_cdn_def cdn_ok_def archive_ok_def split: option.splits)
  then show ?thesis using print_line_newline by (auto simp: list_all_iff print_line_def)
qed

lemma BuildConfig_comments:
  "(\<And>l. l \<in> set pre \<Longrightarrow> \<exists>cs. l = CHR ''#'' # cs) \<Longrightarrow>
    BuildConfig_lines (pre @ lines) config = BuildConfig_lines lines config"
proof (induction pre)
  case (Cons l pre)
  then obtain cs where "l = CHR ''#'' # cs" by auto
  with Cons show ?case by simp
qed simp

lemma FileStream_text:
  "lines \<noteq> [] \<Longrightarrow> length (file_of lines) < size_mod \<Longrightarrow>
    FileStream_ok (FileStream_new (Some (file_of lines))) \<and>
    fs_stream (FileStream_new (Some (file_of lines))) = file_of lines"
  by (simp add: FileStream_new_def FileStream_ok_def)

section \<open>Properties\<close>

text \<open>C13: every build configuration with non-empty keys, sizes of 64 bits and a name of one word, printed
  as a file of \<^verbatim>\<open>key = value\<close> lines, is parsed back from that file unchanged.\<close>

theorem BuildConfig_Parse_roundtrip:
  assumes "build_ok cfg" and "length (file_of (print_build cfg)) < size_mod"
  shows "\<exists>s'. BuildConfig_Parse FileStream_vt (FileStream_new (Some (file_of (print_build cfg)))) =
    Inr (Some cfg, s')"
proof -
  have ne: "print_build cfg \<noteq> []" by (simp add: print_build_def)
  note f = FileStream_text [OF this assms(2)]
  show ?thesis
    using fstream.BuildConfig_Parse_lines [OF conjunct1 [OF f] conjunct2 [OF f] print_build_newline [OF assms(1)] ne]
    by (simp add: BuildConfig_print_lines [OF assms(1)])
qed

text \<open>The same round trip for the archives, their sizes and the file index of a CDN configuration.\<close>

theorem CDNConfig_Parse_roundtrip:
  assumes "cdn_ok cfg" and "length (file_of (print_cdn cfg)) < size_mod"
  shows "\<exists>s'. CDNConfig_Parse FileStream_vt (FileStream_new (Some (file_of (print_cdn cfg)))) =
    Inr (Some cfg, s')"
proof -
  have ne: "print_cdn cfg \<noteq> []" by (simp add: print_cdn_def)
  note f = FileStream_text [OF this assms(2)]
  show ?thesis
    using fstream.CDNConfig_Parse_lines [OF conjunct1 [OF f] conjunct2 [OF f] print_cdn_lines [OF assms(1)] ne]
    by (simp add: CDNConfig_print_lines [OF assms(1)])
qed

text \<open>Inputs on which the parsers leave their objects: an empty line in a build configuration (behind
  any number of comments), an \<^verbatim>\<open>install\<close> line with one key, and more \<^verbatim>\<open>archives-index-size\<close> values
  than archives.\<close>

theorem Config_out_of_bounds:
  assumes "\<forall>l \<in> set comments. CHR 0x0A \<notin> set l \<and> (\<exists>cs. l = CHR ''#'' # cs)"
    and "\<forall>l \<in> set lines. CHR 0x0A \<notin> set l" and "length (file_of (comments @ [] # lines)) < size_mod"
    and "key_ok k" and "n < size_mod"
  shows "BuildConfig_Parse FileStream_vt (FileStream_new (Some (file_of (comments @ [] # lines)))) = Inl OutOfBounds \<and>
    BuildConfig_lines (print_line ''install'' [hex (k_data k)] # lines) cfg = Inl OutOfBounds \<and>
    CDNConfig_lines (print_line ''archives-index-size'' [print_nat n] # lines) CDNConfig_default = Inl OutOfBounds"
proof (intro conjI)
  have ne: "comments @ [] # lines \<noteq> []" by simp
  note f = FileStream_text [OF this assms(3)]
  have nl: "\<And>l. l \<in> set (comments @ [] # lines) \<Longrightarrow> CHR 0x0A \<notin> set l" using assms(1,2) by auto
  have "BuildConfig_lines (comments @ [] # lines) BuildConfig_default = Inl OutOfBounds"
    using assms(1) by (subst BuildConfig_comments) (auto simp: at_def)
  then show "BuildConfig_Parse FileStream_vt (FileStream_new (Some (file_of (comments @ [] # lines)))) = Inl OutOfBounds"
    using fstream.BuildConfig_Parse_lines [OF conjunct1 [OF f] conjunct2 [OF f] nl ne] by auto
  show "BuildConfig_lines (print_line ''install'' [hex (k_data k)] # lines) cfg = Inl OutOfBounds"
    using assms(4) by (simp add: BuildConfig_line Handlers_def handle_install_def handle_keys_def at_def Let_def
        del: BuildConfig_lines.simps(2))
  show "CDNConfig_lines (print_line ''archives-index-size'' [print_nat n] # lines) CDNConfig_default = Inl OutOfBounds"
    by (simp add: CDNConfig_line_tokens CDNConfig_line_def CDNConfig_default_def at_def
        del: CDNConfig_lines.simps(2))
qed

definition example_build :: BuildConfig where
  "example_build =
     (let k = Key_of_span [1]; sk = \<lparr>sk_Key = \<lparr>ContentKey = k, EncodingKey = k\<rparr>, sk_Size0 = 1, sk_Size1 = 2\<rparr>
      in \<lparr>bc_Root = k, bc_Install = sk, bc_Encoding = sk, bc_BuildName = ''WOW''\<rparr>)"

definition example_cdn :: CDNConfig where
  "example_cdn = \<lparr>cc_archives = [\<lparr>ar_Name = ''a'', ar_Size = 7\<rparr>], cc_fileIndex = None\<rparr>"

lemma BuildConfig_Parse_roundtrip_witness:
  "\<exists>s'. BuildConfig_Parse FileStream_vt (FileStream_new (Some (file_of (print_build example_build)))) =
    Inr (Some example_build, s')"
proof (rule BuildConfig_Parse_roundtrip)
  show "build_ok example_build"
    by (simp add: Let_def example_build_def build_ok_def sized_ok_def key_ok_def key_wf_def Key_of_span_def size_mod_def
        is_word_def Separators_def)
  have "length (file_of (print_build example_build)) < 1000" by code_simp
  then show "length (file_of (print_build example_build)) < size_mod" by (simp add: size_mod_def)
qed

lemma CDNConfig_Parse_roundtrip_witness:
  "\<exists>s'. CDNConfig_Parse FileStream_vt (FileStream_new (Some (file_of (print_cdn example_cdn)))) =
    Inr (Some example_cdn, s')"
proof (rule CDNConfig_Parse_roundtrip)
  show "cdn_ok example_cdn"
    by (simp add: example_cdn_def cdn_ok_def archive_ok_def size_mod_def is_word_def Separators_def)
  have "length (file_of (print_cdn example_cdn)) < 1000" by code_simp
  then show "length (file_of (print_cdn example_cdn)) < size_mod" by (simp add: size_mod_def)
qed

lemma Config_out_of_bounds_witness:
  "BuildConfig_Parse FileStream_vt (FileStream_new (Some (file_of [''# Build Configuration'', [], ''root = 00'']))) =
    Inl OutOfBounds"
  using Config_out_of_bounds [of "[''# Build Configuration'']" "[''root = 00'']" "Key_of_span [1]" 0]
  by (simp add: file_of_def size_mod_def key_ok_def key_wf_def Key_of_span_def)

end
