(* ===== verification/FileLocation.thy ===== *)
theory FileLocation
  imports Key
begin

text \<open>
  \<^verbatim>\<open>libtactmon/tact/data/FileLocation.cpp\<close>: where a file is, by its encoding keys or inside of an
  archive. \<open>fl_keys\<close> is the span of the concatenated keys.
\<close>

record FileLocation =
  fl_fileSize :: nat
  fl_keyCount :: nat
  fl_keys :: "byte list"

definition FileLocation_new :: "nat \<Rightarrow> nat \<Rightarrow> byte list \<Rightarrow> FileLocation" where
  "FileLocation_new fileSize keyCount keys =
     \<lparr>fl_fileSize = fileSize, fl_keyCount = keyCount, fl_keys = keys\<rparr>"

definition FileLocation_at :: "FileLocation \<Rightarrow> nat \<Rightarrow> EKey result" where
  "FileLocation_at fl index =
     (if fl_keyCount fl = 0 then Inl DivisionByZero
      else let keySize = length (fl_keys fl) div fl_keyCount fl in
        bindr (subspan (mul_sz index keySize) keySize (fl_keys fl)) (\<lambda>bs. Inr (Key_of_span bs)))"

record ArchiveFileLocation =
  al_fileSize :: nat
  al_offset :: nat
  al_archiveName :: string

definition ArchiveFileLocation_whole :: "string \<Rightarrow> ArchiveFileLocation" where
  "ArchiveFileLocation_whole archiveName =
     \<lparr>al_fileSize = 0, al_offset = 0, al_archiveName = archiveName\<rparr>"

definition ArchiveFileLocation_new :: "string \<Rightarrow> nat \<Rightarrow> nat \<Rightarrow> ArchiveFileLocation" where
  "ArchiveFileLocation_new archiveName off n =
     \<lparr>al_fileSize = n, al_offset = off, al_archiveName = archiveName\<rparr>"

text \<open>Keys of one size, concatenated.\<close>

lemma length_concat_same: "(\<And>k. k \<in> set ks \<Longrightarrow> length k = n) \<Longrightarrow> length (concat ks) = length ks * n"
  by (induction ks) auto

lemma slice_concat_same:
  "(\<And>k. k \<in> set ks \<Longrightarrow> length k = n) \<Longrightarrow> i < length ks \<Longrightarrow> slice (i * n) n (concat ks) = ks ! i"
proof (induction ks arbitrary: i)
  case (Cons k ks)
  show ?case
  proof (cases i)
    case 0
    then show ?thesis using Cons.prems by (simp add: slice_def)
  next
    case (Suc j)
    have "drop (n + j * n) (k @ concat ks) = drop (j * n) (concat ks)"
      using Cons.prems(1) [of k] by simp
    then show ?thesis using Suc Cons by (simp add: slice_def)
  qed
qed simp

lemma FileLocation_at_concat:
  assumes "\<And>k. k \<in> set ks \<Longrightarrow> length k = n" and "i < length ks" and "length ks * n < size_mod"
  shows "FileLocation_at (FileLocation_new fileSize (length ks) (concat ks)) i = Inr (Key_of_span (ks ! i))"
proof -
  have "length (concat ks) = length ks * n" by (rule length_concat_same) (rule assms(1))
  moreover have "i * n + n \<le> length ks * n"
    using assms(2) mult_le_mono1 [of "Suc i" "length ks" n] by simp
  ultimately show ?thesis
    using assms slice_concat_same [of ks n i]
    by (auto simp: FileLocation_at_def FileLocation_new_def Let_def)
qed

end
