(* ===== verification/Encoding.thy ===== *)
theory Encoding
  imports Streams FileLocation
begin

text \<open>
  \<^verbatim>\<open>libtactmon/tact/data/Encoding.cpp\<close>: the table from content keys to encoding keys.
\<close>

unbundle bit_operations_syntax

text \<open>\<^verbatim>\<open>ReadUInt40\<close>: the array is not initialised, so after a short read indeterminate bytes are used.\<close>

definition ReadUInt40 :: "'s readable \<Rightarrow> endian \<Rightarrow> 's \<Rightarrow> (u64 \<times> 's) result" where
  "ReadUInt40 io endianness s =
     bindr (ReadBytes io (replicate 5 0) endianness s) (\<lambda>(bytes, n, s).
       if n < 5 then Inl Uninitialized
       else Inr (fold_uint bytes, s))"

record EncodingHeader =
  Signature :: u16
  Version :: byte
  CEKey_PageSize :: u32
  CEKey_PageCount :: u32
  EKeySpec_PageSize :: u32
  EKeySpec_PageCount :: u32
  EncodingKeySize :: u32
  ContentKeySize :: u32
  ESpecBlockSize :: u32

definition EncodingHeader_default :: EncodingHeader where
  "EncodingHeader_default = \<lparr>Signature = 0, Version = 0, CEKey_PageSize = 0, CEKey_PageCount = 0,
     EKeySpec_PageSize = 0, EKeySpec_PageCount = 0, EncodingKeySize = 0, ContentKeySize = 0,
     ESpecBlockSize = 0\<rparr>"

definition EncodingHeader_read :: "'s readable \<Rightarrow> 's \<Rightarrow> (EncodingHeader \<times> 's) result" where
  "EncodingHeader_read io s =
     (if \<not> CanRead io (2 + 1 + 1 + 1 + 2 + 2 + 4 + 4 + 1 + 4) s then Inr (EncodingHeader_default, s)
      else
        bindr (ReadValue io Big s) (\<lambda>(signature :: u16, s).
        bindr (ReadValue io native s) (\<lambda>(version :: byte, s).
        bindr (ReadValue io native s) (\<lambda>(eks :: byte, s).
        bindr (ReadValue io native s) (\<lambda>(cks :: byte, s).
        bindr (ReadValue io Big s) (\<lambda>(cePageSize :: u16, s).
        bindr (ReadValue io Big s) (\<lambda>(esPageSize :: u16, s).
        bindr (ReadValue io Big s) (\<lambda>(cePageCount :: u32, s).
        bindr (ReadValue io Big s) (\<lambda>(esPageCount :: u32, s).
        bindr (ReadValue io native s) (\<lambda>(unknown :: byte, s).
        bindr (ReadValue io Big s) (\<lambda>(especBlockSize :: u32, s).
          Inr (\<lparr>Signature = signature, Version = version,
            CEKey_PageSize = ucast cePageSize * 1024, CEKey_PageCount = cePageCount,
            EKeySpec_PageSize = ucast esPageSize * 1024, EKeySpec_PageCount = esPageCount,
            EncodingKeySize = ucast eks, ContentKeySize = ucast cks,
            ESpecBlockSize = especBlockSize\<rparr>, s))))))))))))"

section \<open>\<^verbatim>\<open>CEKeyPageTable\<close>: an entry of a page\<close>

record CEKeyPageTable =
  ce_fileSize :: u64
  ce_ckey :: "byte list"
  ce_ekeys :: "byte list"
  ce_keyCount :: byte

definition CEKeyPageTable_read :: "'s readable \<Rightarrow> EncodingHeader \<Rightarrow> 's \<Rightarrow> (CEKeyPageTable \<times> 's) result" where
  "CEKeyPageTable_read io header s =
     bindr (ReadValue io native s) (\<lambda>(keyCount :: byte, s).
     bindr (ReadUInt40 io Big s) (\<lambda>(fileSize, s).
     bindr (ReadBytes io (replicate (unat (ContentKeySize header)) 0) Little s) (\<lambda>(ckey, _, s).
       if 0 < ucast keyCount * EncodingKeySize header
       then bindr (ReadBytes io (replicate (unat (EncodingKeySize header * ucast keyCount)) 0) Little s)
         (\<lambda>(ekeys, _, s).
           Inr (\<lparr>ce_fileSize = fileSize, ce_ckey = ckey, ce_ekeys = ekeys, ce_keyCount = keyCount\<rparr>, s))
       else Inr (\<lparr>ce_fileSize = fileSize, ce_ckey = ckey, ce_ekeys = [], ce_keyCount = keyCount\<rparr>, s))))"

definition CEKeyPageTable_bool :: "CEKeyPageTable \<Rightarrow> bool" where
  "CEKeyPageTable_bool e \<longleftrightarrow> ce_ckey e \<noteq> [] \<and> ce_ekeys e \<noteq> []"

definition CEKeyPageTable_HashSize :: "EncodingHeader \<Rightarrow> nat" where
  "CEKeyPageTable_HashSize header = unat (ContentKeySize header)"

definition CEKeyPageTable_ekey :: "CEKeyPageTable \<Rightarrow> nat \<Rightarrow> EncodingHeader \<Rightarrow> EKey result" where
  "CEKeyPageTable_ekey e index header =
     bindr (subspan (index * unat (EncodingKeySize header)) (unat (EncodingKeySize header)) (ce_ekeys e))
       (\<lambda>bs. Inr (Key_of_span bs))"

definition CEKeyPageTable_ckey :: "CEKeyPageTable \<Rightarrow> EncodingHeader \<Rightarrow> CKey result" where
  "CEKeyPageTable_ckey e header =
     bindr (subspan 0 (unat (ContentKeySize header)) (ce_ckey e)) (\<lambda>bs. Inr (Key_of_span bs))"

text \<open>Moving an entry: the new one and what is left.\<close>

definition CEKeyPageTable_move :: "CEKeyPageTable \<Rightarrow> CEKeyPageTable \<times> CEKeyPageTable" where
  "CEKeyPageTable_move other =
     (other, other\<lparr>ce_ckey := [], ce_ekeys := [], ce_keyCount := 0, ce_fileSize := 0\<rparr>)"

section \<open>\<^verbatim>\<open>EKeySpecPageTable\<close>\<close>

record EKeySpecPageTable =
  es_ekey :: "byte list"
  es_especIndex :: u32
  es_fileSize :: u64

definition EKeySpecPageTable_HashSize :: "EncodingHeader \<Rightarrow> nat" where
  "EKeySpecPageTable_HashSize header = unat (EncodingKeySize header)"

definition EKeySpecPageTable_read :: "'s readable \<Rightarrow> EncodingHeader \<Rightarrow> 's \<Rightarrow> (EKeySpecPageTable \<times> 's) result" where
  "EKeySpecPageTable_read io header s =
     (let encodingKeySize = EKeySpecPageTable_HashSize header in
      if \<not> CanRead io (encodingKeySize + 4 + 5) s
      then Inr (\<lparr>es_ekey = [], es_especIndex = 0, es_fileSize = 0\<rparr>, s)
      else bindr (ReadBytes io (replicate encodingKeySize 0) Little s) (\<lambda>(ekey, _, s).
        bindr (ReadValue io Big s) (\<lambda>(especIndex :: u32, s).
        bindr (ReadUInt40 io Big s) (\<lambda>(fileSize, s).
          Inr (\<lparr>es_ekey = ekey, es_especIndex = especIndex, es_fileSize = fileSize\<rparr>, s)))))"

definition EKeySpecPageTable_bool :: "EKeySpecPageTable \<Rightarrow> bool" where
  "EKeySpecPageTable_bool e \<longleftrightarrow> es_ekey e \<noteq> []"

definition EKeySpecPageTable_move :: "EKeySpecPageTable \<Rightarrow> EKeySpecPageTable \<times> EKeySpecPageTable" where
  "EKeySpecPageTable_move other =
     (other, other\<lparr>es_ekey := [], es_especIndex := 0, es_fileSize := 0\<rparr>)"

section \<open>\<^verbatim>\<open>Page\<close>\<close>

text \<open>An iteration that is not the last one has read a key count, so the stream has at most as many of
  them as bytes (\<open>page_entries_returns\<close>): \<open>fuel\<close> is one more than that.\<close>

primrec page_entries ::
  "nat \<Rightarrow> 's readable \<Rightarrow> EncodingHeader \<Rightarrow> nat \<Rightarrow> CEKeyPageTable list \<Rightarrow> 's \<Rightarrow> (CEKeyPageTable list \<times> 's) result" where
  "page_entries 0 io header pageEnd entries s = Inl Diverges"
| "page_entries (Suc fuel) io header pageEnd entries s =
     (if GetReadCursor io s < pageEnd
      then bindr (CEKeyPageTable_read io header s) (\<lambda>(pageEntry, s).
        if \<not> CEKeyPageTable_bool pageEntry \<or> pageEnd < GetReadCursor io s then Inr (entries, s)
        else page_entries fuel io header pageEnd (entries @ [pageEntry]) s)
      else Inr (entries, s))"

definition Page_read ::
  "'s readable \<Rightarrow> EncodingHeader \<Rightarrow> nat \<Rightarrow> nat \<Rightarrow> 's \<Rightarrow> (CEKeyPageTable list \<times> 's) result" where
  "Page_read io header pageOffset pageEnd s =
     (let s = SkipRead io (CEKeyPageTable_HashSize header + 0x10) s;
          position = GetReadCursor io s;
          s = snd (SeekRead io pageOffset s)
      in bindr (page_entries (GetLength io s + 1) io header pageEnd [] s) (\<lambda>(entries, s).
        Inr (entries, snd (SeekRead io position s))))"

section \<open>\<^verbatim>\<open>Encoding\<close>\<close>

record Encoding =
  en_header :: EncodingHeader
  en_cekeyPages :: "CEKeyPageTable list list"

primrec cekey_pages ::
  "nat \<Rightarrow> nat \<Rightarrow> 's readable \<Rightarrow> EncodingHeader \<Rightarrow> nat \<Rightarrow> CEKeyPageTable list list \<Rightarrow> 's
    \<Rightarrow> (CEKeyPageTable list list \<times> 's) result" where
  "cekey_pages 0 i io header pageStart pages s = Inr (pages, s)"
| "cekey_pages (Suc n) i io header pageStart pages s =
     (let pageOffset = add_sz pageStart (i * unat (CEKey_PageSize header));
          pageEnd = add_sz pageOffset (unat (CEKey_PageSize header))
      in bindr (Page_read io header pageOffset pageEnd s) (\<lambda>(page, s).
           cekey_pages n (i + 1) io header pageStart (pages @ [page]) s))"

definition Encoding_read :: "'s readable \<Rightarrow> 's \<Rightarrow> (Encoding \<times> 's) result" where
  "Encoding_read io s =
     bindr (EncodingHeader_read io s) (\<lambda>(header, s).
       if Signature header \<noteq> 0x454E then Inr (\<lparr>en_header = header, en_cekeyPages = []\<rparr>, s)
       else let s = SkipRead io (unat (ESpecBlockSize header)) s;
                pageStart = add_sz (GetReadCursor io s)
                  (unat (CEKey_PageCount header) * (0x10 + unat (EncodingKeySize header)))
         in bindr (cekey_pages (unat (CEKey_PageCount header)) 0 io header pageStart [] s) (\<lambda>(pages, s).
           Inr (\<lparr>en_header = header, en_cekeyPages = pages\<rparr>, s)))"

definition Encoding_count :: "Encoding \<Rightarrow> nat" where
  "Encoding_count e = fold (\<lambda>page value. value + length page) (en_cekeyPages e) 0"

definition GetContentKeySize :: "Encoding \<Rightarrow> nat" where
  "GetContentKeySize e = unat (ContentKeySize (en_header e))"

primrec find_in_page :: "EncodingHeader \<Rightarrow> CKey \<Rightarrow> CEKeyPageTable list \<Rightarrow> FileLocation option result" where
  "find_in_page header contentKey [] = Inr None"
| "find_in_page header contentKey (e # page) =
     bindr (CEKeyPageTable_ckey e header) (\<lambda>entry.
     bindr (Key_eq entry contentKey) (\<lambda>eq.
       if eq then bindr (subspan 0 (unat (ce_keyCount e) * unat (EncodingKeySize header)) (ce_ekeys e)) (\<lambda>keys.
         Inr (Some (FileLocation_new (unat (ce_fileSize e)) (unat (ce_keyCount e)) keys)))
       else find_in_page header contentKey page))"

primrec find_in_pages :: "EncodingHeader \<Rightarrow> CKey \<Rightarrow> CEKeyPageTable list list \<Rightarrow> FileLocation option result" where
  "find_in_pages header contentKey [] = Inr None"
| "find_in_pages header contentKey (page # pages) =
     bindr (find_in_page header contentKey page) (\<lambda>r.
       case r of Some fl \<Rightarrow> Inr (Some fl) | None \<Rightarrow> find_in_pages header contentKey pages)"

definition Encoding_FindFile :: "Encoding \<Rightarrow> CKey \<Rightarrow> FileLocation option result" where
  "Encoding_FindFile e contentKey = find_in_pages (en_header e) contentKey (en_cekeyPages e)"

section \<open>The format\<close>

definition be40 :: "u64 \<Rightarrow> byte list" where
  "be40 v = rev (take 5 (bytes_of v))"

definition entry_bytes :: "CEKeyPageTable \<Rightarrow> byte list" where
  "entry_bytes e = ce_keyCount e # be40 (ce_fileSize e) @ ce_ckey e @ ce_ekeys e"

text \<open>An entry for keys of \<open>cks\<close> and \<open>eks\<close> bytes.\<close>

definition entry_ok :: "nat \<Rightarrow> nat \<Rightarrow> CEKeyPageTable \<Rightarrow> bool" where
  "entry_ok cks eks e \<longleftrightarrow> length (ce_ckey e) = cks \<and> length (ce_ekeys e) = eks * unat (ce_keyCount e) \<and>
     0 < cks \<and> 0 < eks \<and> ce_keyCount e \<noteq> 0 \<and> unat (ce_fileSize e) < 2 ^ 40"

lemma length_be40 [simp]: "length (be40 v) = 5"
  by (simp add: be40_def)

lemma fold_be40: "unat v < 2 ^ 40 \<Longrightarrow> fold_uint (be40 v) = v"
  unfolding be40_def by (rule fold_uint_be) simp_all

lemma unat_product:
  fixes h :: u32 and k :: byte
  assumes "unat h < 256"
  shows "unat (h * ucast k) = unat h * unat k" and "0 < ucast k * h \<longleftrightarrow> h \<noteq> 0 \<and> k \<noteq> 0"
proof -
  have k: "unat (ucast k :: u32) = unat k" by simp
  have "unat k < 256" by simp
  then have "unat h * unat k \<le> 255 * 255" using assms by (intro mult_le_mono) linarith+
  then show p: "unat (h * ucast k) = unat h * unat k"
    by (simp add: unat_word_ariths k)
  have "0 < ucast k * h \<longleftrightarrow> unat (h * ucast k) \<noteq> 0" by (simp add: unat_eq_0 mult.commute word_gt_0)
  then show "0 < ucast k * h \<longleftrightarrow> h \<noteq> 0 \<and> k \<noteq> 0" unfolding p by (simp add: unat_eq_0)
qed

type_synonym page = "CEKeyPageTable list \<times> byte list"

definition page_bytes :: "page \<Rightarrow> byte list" where
  "page_bytes pg = concat (map entry_bytes (fst pg)) @ snd pg"

lemma page_bytes_pair: "page_bytes (es, pad) = concat (map entry_bytes es) @ pad"
  by (simp add: page_bytes_def)

definition page_ok :: "nat \<Rightarrow> nat \<Rightarrow> nat \<Rightarrow> page \<Rightarrow> bool" where
  "page_ok cks eks P pg \<longleftrightarrow> length (page_bytes pg) = P \<and> (snd pg \<noteq> [] \<longrightarrow> hd (snd pg) = 0) \<and>
     (\<forall>e \<in> set (fst pg). entry_ok cks eks e)"

context readable_stream
begin

lemma ReadUInt40_ok:
  assumes "ok s" and "5 \<le> length (rest s)"
  shows "\<exists>s'. ReadUInt40 io Big s =
    Inr (fold_uint (take 5 (rest s)), s') \<and> eats 5 s s'"
  using ReadBytes_ok [OF assms(1), of "replicate 5 0" Big] assms(2) by (auto simp: ReadUInt40_def)

lemma ReadUInt40_short:
  assumes "ok s" and "length (rest s) < 5"
  shows "ReadUInt40 io Big s = Inl Uninitialized"
proof -
  obtain buf s' where r: "ReadImpl io (replicate 5 0) s = Inr (buf, length (rest s), s')" and "length buf = 5"
    using ReadImpl_rest [OF assms(1), of "replicate 5 0"] assms(2) by auto
  then have "reverse_elements 1 0 (length (rest s)) buf = Inr buf"
    using assms(2) by (intro reverse_elements_bytes) auto
  then show ?thesis
    using r assms(2) by (simp add: ReadUInt40_def ReadBytes_def ReadSpan_def native_def)
qed

lemma ReadBytes_any:
  assumes "ok s"
  shows "\<exists>bs n s'. ReadBytes io buf Little s = Inr (bs, n, s') \<and> ok s' \<and> content s' = content s \<and>
    GetReadCursor io s \<le> GetReadCursor io s' \<and> length bs = length buf"
proof -
  obtain s' where "ReadSpan io buf native 1 s = Inr (take (length buf) (rest s) @ drop (length (rest s)) buf,
      min (length buf) (length (rest s)), s')" "eats (min (length buf) (length (rest s))) s s'"
    using ReadSpan_native [OF assms] by blast
  then show ?thesis by (auto simp: ReadBytes_def native_def consumed_def)
qed

lemma CEKeyPageTable_read_entry:
  assumes "ok s" and "rest s = entry_bytes e @ tail" and "entry_ok cks eks e"
    and "unat (ContentKeySize header) = cks" and "unat (EncodingKeySize header) = eks" and "eks < 256"
  shows "\<exists>s'. CEKeyPageTable_read io header s = Inr (e, s') \<and> eats (length (entry_bytes e)) s s'"
proof -
  have e: "length (ce_ckey e) = cks" "length (ce_ekeys e) = eks * unat (ce_keyCount e)" "ce_keyCount e \<noteq> 0"
    "EncodingKeySize header \<noteq> 0" "unat (ce_fileSize e) < 2 ^ 40"
    using assms(3,5) by (auto simp: entry_ok_def)
  have n: "unat (EncodingKeySize header * ucast (ce_keyCount e)) = length (ce_ekeys e)"
    "0 < ucast (ce_keyCount e) * EncodingKeySize header"
    using unat_product [of "EncodingKeySize header" "ce_keyCount e"] assms(5,6) e by simp_all
  obtain s1 where s1: "ReadValue io native s = Inr (ce_keyCount e, s1)" "eats 1 s s1"
    using ReadValue_ok [where 'a = 8, OF assms(1), of native] assms(2) by (auto simp: entry_bytes_def decode_def)
  have r1: "rest s1 = be40 (ce_fileSize e) @ ce_ckey e @ ce_ekeys e @ tail"
    using rest_of_consumed [OF s1(2)] assms(2) by (simp add: entry_bytes_def)
  obtain s2 where s2: "ReadUInt40 io Big s1 = Inr (ce_fileSize e, s2)" "eats 5 s1 s2"
    using ReadUInt40_ok [OF consumed_inv [OF s1(2)]] r1 e by (auto simp: fold_be40)
  have r2: "rest s2 = ce_ckey e @ ce_ekeys e @ tail"
    using rest_of_consumed [OF s2(2)] r1 by simp
  obtain s3 where s3: "ReadBytes io (replicate cks 0) Little s2 = Inr (ce_ckey e, cks, s3)" "eats cks s2 s3"
    using ReadBytes_ok [OF consumed_inv [OF s2(2)], of "replicate cks 0" Little] r2 e by auto
  have r3: "rest s3 = ce_ekeys e @ tail"
    using rest_of_consumed [OF s3(2)] r2 e by simp
  obtain s4 where s4: "ReadBytes io (replicate (length (ce_ekeys e)) 0) Little s3
      = Inr (ce_ekeys e, length (ce_ekeys e), s4)" "eats (length (ce_ekeys e)) s3 s4"
    using ReadBytes_ok [OF consumed_inv [OF s3(2)], of "replicate (length (ce_ekeys e)) 0" Little] r3 by auto
  have "eats (length (entry_bytes e)) s s4"
    using consumed_trans [OF consumed_trans [OF consumed_trans [OF s1(2) s2(2)] s3(2)] s4(2)] e
    by (simp add: entry_bytes_def add.assoc)
  moreover have "CEKeyPageTable_read io header s = Inr (e, s4)"
    using s1(1) s2(1) s3(1) s4(1) n assms(4) by (simp add: CEKeyPageTable_read_def)
  ultimately show ?thesis by blast
qed

text \<open>Padding is recognised by its first byte.\<close>

lemma CEKeyPageTable_read_padding:
  assumes "ok s" and "rest s = 0 # tail" and "5 \<le> length tail"
  shows "\<exists>e s'. CEKeyPageTable_read io header s = Inr (e, s') \<and> ok s' \<and> content s' = content s \<and>
    \<not> CEKeyPageTable_bool e"
proof -
  obtain s1 where s1: "ReadValue io native s = Inr (0 :: byte, s1)" "eats 1 s s1"
    using ReadValue_ok [where 'a = 8, OF assms(1), of native] assms(2) by (auto simp: decode_def)
  have r1: "rest s1 = tail" using rest_of_consumed [OF s1(2)] assms(2) by simp
  obtain v s2 where s2: "ReadUInt40 io Big s1 = Inr (v, s2)" "eats 5 s1 s2"
    using ReadUInt40_ok [OF consumed_inv [OF s1(2)]] r1 assms(3) by auto
  obtain bs n s3 where s3: "ReadBytes io (replicate (unat (ContentKeySize header)) 0) Little s2 = Inr (bs, n, s3)"
    "ok s3" "content s3 = content s2"
    using ReadBytes_any [OF consumed_inv [OF s2(2)]] by metis
  have "content s2 = content s" using s1(2) s2(2) by (simp add: consumed_def)
  then show ?thesis using s1(1) s2(1) s3 by (simp add: CEKeyPageTable_read_def CEKeyPageTable_bool_def)
qed

text \<open>At the end of the stream the size of an entry is read from an array nobody wrote to.\<close>

lemma CEKeyPageTable_read_short:
  assumes "ok s" and "length (rest s) < 6"
  shows "CEKeyPageTable_read io header s = Inl Uninitialized"
proof (cases "rest s")
  case Nil
  then obtain s1 where "ReadValue io native s = Inr (0 :: byte, s1)" "eats 0 s s1"
    using Read_byte_end [OF assms(1), of 0] by (auto simp: ReadValue_def)
  moreover from this have "length (rest s1) < 5" using rest_of_consumed [of io content ok 0 s s1] Nil by simp
  ultimately show ?thesis using ReadUInt40_short [of s1] by (simp add: CEKeyPageTable_read_def consumed_inv)
next
  case (Cons b bs)
  then obtain s1 where "ReadValue io native s = Inr (b, s1)" "eats 1 s s1"
    using Read_byte [OF assms(1) Cons, of 0] by (auto simp: ReadValue_def)
  moreover from this have "length (rest s1) < 5" using rest_of_consumed [of io content ok 1 s s1] Cons assms(2) by simp
  ultimately show ?thesis using ReadUInt40_short [of s1] by (simp add: CEKeyPageTable_read_def consumed_inv)
qed

lemma page_entries_encoded:
  assumes "ok s" and "rest s = concat (map entry_bytes es) @ pad @ tail"
    and "pageEnd = GetReadCursor io s + length (concat (map entry_bytes es)) + length pad"
    and "pad \<noteq> [] \<Longrightarrow> hd pad = 0 \<and> 6 \<le> length (pad @ tail)"
    and "\<And>e. e \<in> set es \<Longrightarrow> entry_ok cks eks e"
    and "unat (ContentKeySize header) = cks" and "unat (EncodingKeySize header) = eks" and "eks < 256"
    and "length es < fuel"
  shows "\<exists>s'. page_entries fuel io header pageEnd acc s = Inr (acc @ es, s') \<and> ok s' \<and> content s' = content s"
  using assms(1-5,9)
proof (induction es arbitrary: s fuel acc)
  case Nil
  then obtain f where f: "fuel = Suc f" by (cases fuel) auto
  show ?case
  proof (cases pad)
    case Nil
    then show ?thesis using \<open>ok s\<close> Nil.prems f by auto
  next
    case (Cons b pad')
    then have "rest s = 0 # (pad' @ tail)" "5 \<le> length (pad' @ tail)" using Nil.prems by auto
    from CEKeyPageTable_read_padding [OF Nil.prems(1) this, of header] obtain e s' where
      "CEKeyPageTable_read io header s = Inr (e, s')" "ok s'" "content s' = content s" "\<not> CEKeyPageTable_bool e"
      by blast
    then show ?thesis using f Nil.prems(3) Cons by simp
  qed
next
  case (Cons e es)
  then obtain f where f: "fuel = Suc f" by (cases fuel) auto
  let ?tail = "concat (map entry_bytes es) @ pad @ tail"
  have e: "entry_ok cks eks e" using Cons.prems by simp
  obtain s1 where s1: "CEKeyPageTable_read io header s = Inr (e, s1)" "eats (length (entry_bytes e)) s s1"
    using CEKeyPageTable_read_entry [OF Cons.prems(1) _ e assms(6-8), of ?tail] Cons.prems(2) by auto
  have c1: "GetReadCursor io s1 = GetReadCursor io s + length (entry_bytes e)" "ok s1" "content s1 = content s"
    using s1(2) by (simp_all add: consumed_def)
  have "rest s1 = ?tail" using rest_of_consumed [OF s1(2)] Cons.prems(2) by simp
  moreover have "CEKeyPageTable_bool e"
    using e by (auto simp: entry_ok_def CEKeyPageTable_bool_def unat_eq_0)
  moreover have "GetReadCursor io s < pageEnd" "\<not> pageEnd < GetReadCursor io s1"
    using Cons.prems(3) c1 by (simp_all add: entry_bytes_def)
  moreover have "\<exists>s'. page_entries f io header pageEnd (acc @ [e]) s1 = Inr ((acc @ [e]) @ es, s') \<and> ok s' \<and>
      content s' = content s1"
    using Cons.prems f c1 \<open>rest s1 = ?tail\<close> by (intro Cons.IH) auto
  ultimately show ?case using s1(1) f c1 by auto
qed

text \<open>The pages, each of them entries followed by padding.\<close>

lemma cekey_pages_encoded:
  assumes "ok s" and "drop (pageStart + i * P) (content s) = concat (map page_bytes pgs) @ post"
    and "pageStart + i * P \<le> length (content s)" and "\<forall>pg \<in> set pgs. page_ok cks eks P pg"
    and "5 \<le> length post" and "GetReadCursor io s + length pgs * (cks + 16) \<le> length (content s)"
    and "unat (ContentKeySize header) = cks" and "unat (EncodingKeySize header) = eks" and "eks < 256"
    and "unat (CEKey_PageSize header) = P"
  shows "\<exists>s'. cekey_pages (length pgs) i io header pageStart acc s = Inr (acc @ map fst pgs, s') \<and> ok s'"
  using assms(1-6)
proof (induction pgs arbitrary: s i acc)
  case Nil
  then show ?case by simp
next
  case (Cons pg pgs)
  obtain es pad where pg: "pg = (es, pad)" by (cases pg)
  have page: "length (concat (map entry_bytes es)) + length pad = P" "pad \<noteq> [] \<Longrightarrow> hd pad = 0"
    "\<And>e. e \<in> set es \<Longrightarrow> entry_ok cks eks e"
    using Cons.prems(4) by (auto simp: pg page_ok_def page_bytes_pair)
  let ?off = "pageStart + i * P" and ?tail = "concat (map page_bytes pgs) @ post"
  have len: "length (content s) < size_mod" using length_content [OF Cons.prems(1)] .
  have off: "?off + P + 5 \<le> length (content s)"
    using arg_cong [OF Cons.prems(2), of length] Cons.prems(3,5) page(1) by (simp add: pg page_bytes_pair)
  let ?s1 = "SkipRead io (CEKeyPageTable_HashSize header + 0x10) s"
  have s1: "ok ?s1" "content ?s1 = content s" "GetReadCursor io ?s1 = GetReadCursor io s + (cks + 16)"
    using SkipRead [OF Cons.prems(1), of "cks + 16"] Cons.prems(6) assms(7)
    by (simp_all add: CEKeyPageTable_HashSize_def)
  obtain s2 where s2: "SeekRead io ?off ?s1 = (?off, s2)" "ok s2" "content s2 = content s"
      "GetReadCursor io s2 = ?off"
    using SeekRead [OF s1(1), of ?off] s1(2) off by auto
  have r2: "rest s2 = concat (map entry_bytes es) @ pad @ ?tail"
    using Cons.prems(2) s2 by (simp add: rest_of_def pg page_bytes_pair)
  have "length es \<le> length (concat (map entry_bytes es))"
    by (induction es) (simp_all add: entry_bytes_def)
  then have fuel: "length es < GetLength io s2 + 1"
    using off page(1) GetLength [OF s2(2)] s2(3) by simp
  have "\<exists>s3. page_entries (GetLength io s2 + 1) io header (?off + P) [] s2 = Inr ([] @ es, s3) \<and> ok s3 \<and>
      content s3 = content s2"
  proof (rule page_entries_encoded [OF s2(2) r2 _ _ page(3) assms(7-9) fuel])
    show "?off + P = GetReadCursor io s2 + length (concat (map entry_bytes es)) + length pad"
      using page(1) s2(4) by simp
    show "hd pad = 0 \<and> 6 \<le> length (pad @ ?tail)" if "pad \<noteq> []"
      using page(2) [OF that] that Cons.prems(5) by (cases pad) auto
  qed
  then obtain s3 where s3: "page_entries (GetLength io s2 + 1) io header (?off + P) [] s2 = Inr (es, s3)"
      "ok s3" "content s3 = content s"
    using s2(3) by auto
  let ?p = "GetReadCursor io s + (cks + 16)"
  obtain s4 where s4: "SeekRead io ?p s3 = (?p, s4)" "ok s4" "content s4 = content s" "GetReadCursor io s4 = ?p"
    using SeekRead [OF s3(2), of ?p] s3(3) Cons.prems(6) by auto
  have "Page_read io header ?off (?off + P) s = Inr (es, s4)"
    using s1(3) s2(1) s3(1) s4(1) by (simp add: Page_read_def Let_def del: page_entries.simps)
  then have step: "cekey_pages (length (pg # pgs)) i io header pageStart acc s =
      cekey_pages (length pgs) (i + 1) io header pageStart (acc @ [es]) s4"
    using off len assms(10) by (simp add: Let_def)
  have "drop (pageStart + (i + 1) * P) (content s4) = drop P (drop ?off (content s))"
    by (simp add: s4(3) algebra_simps)
  also have "\<dots> = ?tail" using Cons.prems(2) page(1) by (simp add: pg page_bytes_pair)
  finally have "\<exists>s'. cekey_pages (length pgs) (i + 1) io header pageStart (acc @ [es]) s4 =
      Inr ((acc @ [es]) @ map fst pgs, s') \<and> ok s'"
    using Cons.prems s4 off by (intro Cons.IH) (auto simp: algebra_simps)
  then show ?case unfolding step by (simp add: pg)
qed

end

text \<open>A whole file: the header, the encoding specifications, the index of the pages (which the parser
  skips), the pages and what follows them.\<close>

definition encoding_bytes ::
  "byte \<Rightarrow> byte \<Rightarrow> byte \<Rightarrow> u16 \<Rightarrow> u16 \<Rightarrow> u32 \<Rightarrow> u32 \<Rightarrow> u32 \<Rightarrow> byte list" where
  "encoding_bytes version eks cks kb eskb count escount especSize =
     be (0x454E :: u16) @ [version, eks, cks] @ be kb @ be eskb @ be count @ be escount @ [0] @ be especSize"

definition encoding_header ::
  "byte \<Rightarrow> byte \<Rightarrow> byte \<Rightarrow> u16 \<Rightarrow> u16 \<Rightarrow> u32 \<Rightarrow> u32 \<Rightarrow> u32 \<Rightarrow> EncodingHeader" where
  "encoding_header version eks cks kb eskb count escount especSize =
     \<lparr>Signature = 0x454E, Version = version, CEKey_PageSize = ucast kb * 1024, CEKey_PageCount = count,
      EKeySpec_PageSize = ucast eskb * 1024, EKeySpec_PageCount = escount,
      EncodingKeySize = ucast eks, ContentKeySize = ucast cks, ESpecBlockSize = especSize\<rparr>"

context readable_stream
begin

lemma EncodingHeader_read_encoded:
  assumes "ok s" and "rest s = encoding_bytes version eks cks kb eskb count escount especSize @ tail"
    and "length (content s) < size_mod - 22"
  shows "\<exists>s'. EncodingHeader_read io s = Inr (encoding_header version eks cks kb eskb count escount especSize, s') \<and>
    eats 22 s s'"
proof -
  have can: "CanRead io 22 s"
    using CanRead_rest [OF assms(1), of 22] assms(2,3) by (simp add: encoding_bytes_def)
  obtain s1 where s1: "ReadValue io Big s = Inr (0x454E :: u16, s1)" "eats 2 s s1"
    "rest s1 = version # eks # cks # be kb @ be eskb @ be count @ be escount @ 0 # be especSize @ tail"
    using ReadValue_be [OF assms(1), of "0x454E :: u16"] assms(2) by (auto simp: encoding_bytes_def rest_of_consumed)
  obtain s2 where s2: "ReadValue io native s1 = Inr (version, s2)" "eats 1 s1 s2"
    "rest s2 = eks # cks # be kb @ be eskb @ be count @ be escount @ 0 # be especSize @ tail"
    using ReadValue_byte [OF consumed_inv [OF s1(2)] s1(3), of native] s1(3) by (auto simp: rest_of_consumed)
  obtain s3 where s3: "ReadValue io native s2 = Inr (eks, s3)" "eats 1 s2 s3"
    "rest s3 = cks # be kb @ be eskb @ be count @ be escount @ 0 # be especSize @ tail"
    using ReadValue_byte [OF consumed_inv [OF s2(2)] s2(3), of native] s2(3) by (auto simp: rest_of_consumed)
  obtain s4 where s4: "ReadValue io native s3 = Inr (cks, s4)" "eats 1 s3 s4"
    "rest s4 = be kb @ be eskb @ be count @ be escount @ 0 # be especSize @ tail"
    using ReadValue_byte [OF consumed_inv [OF s3(2)] s3(3), of native] s3(3) by (auto simp: rest_of_consumed)
  obtain s5 where s5: "ReadValue io Big s4 = Inr (kb, s5)" "eats 2 s4 s5"
    "rest s5 = be eskb @ be count @ be escount @ 0 # be especSize @ tail"
    using ReadValue_be [OF consumed_inv [OF s4(2)] s4(3)] s4(3) by (auto simp: rest_of_consumed)
  obtain s6 where s6: "ReadValue io Big s5 = Inr (eskb, s6)" "eats 2 s5 s6"
    "rest s6 = be count @ be escount @ 0 # be especSize @ tail"
    using ReadValue_be [OF consumed_inv [OF s5(2)] s5(3)] s5(3) by (auto simp: rest_of_consumed)
  obtain s7 where s7: "ReadValue io Big s6 = Inr (count, s7)" "eats 4 s6 s7"
    "rest s7 = be escount @ 0 # be especSize @ tail"
    using ReadValue_be [OF consumed_inv [OF s6(2)] s6(3)] s6(3) by (auto simp: rest_of_consumed)
  obtain s8 where s8: "ReadValue io Big s7 = Inr (escount, s8)" "eats 4 s7 s8"
    "rest s8 = 0 # be especSize @ tail"
    using ReadValue_be [OF consumed_inv [OF s7(2)] s7(3)] s7(3) by (auto simp: rest_of_consumed)
  obtain s9 where s9: "ReadValue io native s8 = Inr (0 :: byte, s9)" "eats 1 s8 s9"
    "rest s9 = be especSize @ tail"
    using ReadValue_byte [OF consumed_inv [OF s8(2)] s8(3), of native] s8(3) by (auto simp: rest_of_consumed)
  obtain s10 where s10: "ReadValue io Big s9 = Inr (especSize, s10)" "eats 4 s9 s10"
    using ReadValue_be [OF consumed_inv [OF s9(2)] s9(3)] by auto
  have "eats 22 s s10"
    using s1(2) s2(2) s3(2) s4(2) s5(2) s6(2) s7(2) s8(2) s9(2) s10(2) by (simp add: consumed_def)
  then show ?thesis
    using can s1(1) s2(1) s3(1) s4(1) s5(1) s6(1) s7(1) s8(1) s9(1) s10(1)
    by (simp add: EncodingHeader_read_def encoding_header_def)
qed

lemma Encoding_read_encoded:
  assumes "ok s" and "GetReadCursor io s = 0" and "length (content s) < size_mod - 22"
    and "content s = encoding_bytes version eks cks kb eskb count escount especSize @ espec @ index
      @ concat (map page_bytes pgs) @ post"
    and "unat especSize = length espec" and "unat count = length pgs"
    and "length index = length pgs * (16 + unat eks)" and "unat cks \<le> unat eks"
    and "\<forall>pg \<in> set pgs. page_ok (unat cks) (unat eks) (1024 * unat kb) pg" and "5 \<le> length post"
  shows "\<exists>s'. Encoding_read io s =
    Inr (\<lparr>en_header = encoding_header version eks cks kb eskb count escount especSize,
      en_cekeyPages = map fst pgs\<rparr>, s')"
proof -
  let ?h = "encoding_header version eks cks kb eskb count escount especSize"
  let ?pages = "concat (map page_bytes pgs)" and ?n = "length pgs"
  have "rest s = encoding_bytes version eks cks kb eskb count escount especSize @ espec @ index @ ?pages @ post"
    using assms(2,4) by (simp add: rest_of_def)
  then obtain s1 where s1: "EncodingHeader_read io s = Inr (?h, s1)" "eats 22 s s1"
    using EncodingHeader_read_encoded [OF assms(1) _ assms(3)] by blast
  have c1: "ok s1" "content s1 = content s" "GetReadCursor io s1 = 22"
    using s1(2) assms(2) by (simp_all add: consumed_def)
  have h22: "length (encoding_bytes version eks cks kb eskb count escount especSize) = 22"
    by (simp add: encoding_bytes_def)
  let ?s2 = "SkipRead io (length espec) s1"
  have s2: "ok ?s2" "content ?s2 = content s" "GetReadCursor io ?s2 = 22 + length espec"
    using SkipRead [OF c1(1), of "length espec"] c1 assms(4) h22 by simp_all
  have eks: "unat (EncodingKeySize ?h) = unat eks" "unat (ContentKeySize ?h) = unat cks" "unat eks < 256"
    by (simp_all add: encoding_header_def)
  have kb: "unat (CEKey_PageSize ?h) = 1024 * unat kb"
  proof -
    have "unat kb < 65536" by simp
    then have "unat kb * 1024 < 2 ^ 32" by (simp del: unat_less)
    then show ?thesis by (simp add: encoding_header_def unat_word_ariths)
  qed
  have start: "add_sz (GetReadCursor io ?s2) (unat (CEKey_PageCount ?h) * (0x10 + unat (EncodingKeySize ?h))) =
      22 + length espec + length index"
    using s2(3) assms(3,4,6,7) h22 eks by (simp add: encoding_header_def)
  have "\<exists>s'. cekey_pages ?n 0 io ?h (22 + length espec + length index) [] ?s2 = Inr ([] @ map fst pgs, s') \<and> ok s'"
  proof (rule cekey_pages_encoded [OF s2(1) _ _ assms(9,10) _ eks(2,1,3) kb])
    show "drop (22 + length espec + length index + 0 * (1024 * unat kb)) (content ?s2) = ?pages @ post"
      using s2(2) assms(4) h22 by simp
    show "22 + length espec + length index + 0 * (1024 * unat kb) \<le> length (content ?s2)"
      using s2(2) assms(4) h22 by simp
    have "?n * (unat cks + 16) \<le> ?n * (16 + unat eks)" using assms(8) by (intro mult_le_mono) simp_all
    moreover have "length (content ?s2) = 22 + length espec + length index + length ?pages + length post"
      using s2(2) assms(4) h22 by simp
    ultimately show "GetReadCursor io ?s2 + ?n * (unat cks + 16) \<le> length (content ?s2)"
      unfolding s2(3) assms(7) by linarith
  qed
  then obtain s' where "cekey_pages ?n 0 io ?h (22 + length espec + length index) [] ?s2 = Inr (map fst pgs, s')"
    by auto
  moreover have "Signature ?h = 0x454E" "unat (ESpecBlockSize ?h) = length espec" "unat (CEKey_PageCount ?h) = ?n"
    using assms(5,6) by (simp_all add: encoding_header_def)
  ultimately show ?thesis
    using s1(1) start by (simp add: Encoding_read_def Let_def)
qed

end

section \<open>Lookup\<close>

definition location_of :: "CEKeyPageTable \<Rightarrow> FileLocation" where
  "location_of e = FileLocation_new (unat (ce_fileSize e)) (unat (ce_keyCount e)) (ce_ekeys e)"

lemma find_in_page_find:
  assumes "\<forall>e \<in> set page. entry_ok cks eks e" and "unat (ContentKeySize header) = cks"
    and "unat (EncodingKeySize header) = eks" and "key_wf k"
  shows "find_in_page header k page = Inr (map_option location_of (find (\<lambda>e. ce_ckey e = k_data k) page))"
  using assms(1)
proof (induction page)
  case (Cons e page)
  have e: "length (ce_ckey e) = cks" "length (ce_ekeys e) = eks * unat (ce_keyCount e)"
    using Cons.prems by (simp_all add: entry_ok_def)
  have eq: "Key_of_span (ce_ckey e) = k \<longleftrightarrow> ce_ckey e = k_data k"
    using assms(4) by (auto simp: Key_of_span_def key_wf_def)
  show ?case
    using Cons e assms(2-4) eq
    by (simp add: CEKeyPageTable_ckey_def slice_all location_of_def mult.commute)
qed simp

lemma find_in_pages_find:
  assumes "\<forall>page \<in> set pages. \<forall>e \<in> set page. entry_ok cks eks e" and "unat (ContentKeySize header) = cks"
    and "unat (EncodingKeySize header) = eks" and "key_wf k"
  shows "find_in_pages header k pages =
    Inr (map_option location_of (find (\<lambda>e. ce_ckey e = k_data k) (concat pages)))"
  using assms(1)
proof (induction pages)
  case (Cons page pages)
  from Cons show ?case
    using find_in_page_find [of page cks eks header k] assms(2-4) by (auto simp: find_append_case split: option.split)
qed simp

section \<open>Properties\<close>

text \<open>C4: an encoding file with any number of pages, any padding behind their entries and any contents in
  the skipped blocks is read completely: the table has the header fields of the file and, page by
  page, exactly the entries that were written.\<close>

theorem Encoding_read_roundtrip:
  assumes "content = encoding_bytes version eks cks kb eskb count escount especSize @ espec @ index
      @ concat (map page_bytes pgs) @ post"
    and "length content < size_mod - 22" and "unat especSize = length espec" and "unat count = length pgs"
    and "length index = length pgs * (16 + unat eks)" and "unat cks \<le> unat eks"
    and "\<forall>pg \<in> set pgs. page_ok (unat cks) (unat eks) (1024 * unat kb) pg" and "5 \<le> length post"
  shows "\<exists>s'. Encoding_read FileStream_vt (FileStream_new (Some content)) =
    Inr (\<lparr>en_header = encoding_header version eks cks kb eskb count escount especSize,
      en_cekeyPages = map fst pgs\<rparr>, s')"
proof (rule fstream.Encoding_read_encoded [OF _ _ _ _ assms(3-8)])
  have "content \<noteq> []" using assms(8) unfolding assms(1) by auto
  then show "FileStream_ok (FileStream_new (Some content))" "GetReadCursor FileStream_vt (FileStream_new (Some content)) = 0"
    "fs_stream (FileStream_new (Some content)) = encoding_bytes version eks cks kb eskb count escount especSize
      @ espec @ index @ concat (map page_bytes pgs) @ post"
    "length (fs_stream (FileStream_new (Some content))) < size_mod - 22"
    using assms(1,2) by (auto simp: FileStream_new_def FileStream_ok_def)
qed

text \<open>\<^verbatim>\<open>FindFile\<close> finds a file exactly when one of the entries has its content key; the location it
  returns is that of the first such entry, and indexing it yields each of the encoding keys that are
  stored there.\<close>

theorem Encoding_FindFile_first:
  assumes "\<forall>page \<in> set (en_cekeyPages enc). \<forall>e \<in> set page. entry_ok cks eks e"
    and "unat (ContentKeySize (en_header enc)) = cks" and "unat (EncodingKeySize (en_header enc)) = eks"
    and "key_wf k" and "eks < 256"
  shows "Encoding_FindFile enc k =
      Inr (map_option location_of (find (\<lambda>e. ce_ckey e = k_data k) (concat (en_cekeyPages enc)))) \<and>
    (\<forall>e \<in> set (concat (en_cekeyPages enc)). \<forall>i < unat (ce_keyCount e).
      FileLocation_at (location_of e) i = Inr (Key_of_span (slice (i * eks) eks (ce_ekeys e))))"
proof (intro conjI ballI allI impI)
  show "Encoding_FindFile enc k =
      Inr (map_option location_of (find (\<lambda>e. ce_ckey e = k_data k) (concat (en_cekeyPages enc))))"
    unfolding Encoding_FindFile_def using assms(1-4) by (rule find_in_pages_find)
next
  fix e i
  assume e: "e \<in> set (concat (en_cekeyPages enc))" and i: "i < unat (ce_keyCount e)"
  then have l: "length (ce_ekeys e) = eks * unat (ce_keyCount e)" using assms(1) by (auto simp: entry_ok_def)
  have "i * eks + eks \<le> eks * unat (ce_keyCount e)"
    using i mult_le_mono1 [of "Suc i" "unat (ce_keyCount e)" eks] by (simp add: mult.commute)
  moreover have "eks * unat (ce_keyCount e) \<le> 256 * 256"
    using assms(5) unat_less(1) [of "ce_keyCount e"] by (intro mult_le_mono order.strict_implies_order)
  ultimately show "FileLocation_at (location_of e) i = Inr (Key_of_span (slice (i * eks) eks (ce_ekeys e)))"
    using i l by (simp add: FileLocation_at_def location_of_def FileLocation_new_def Let_def size_mod_def)
qed

text \<open>A file that ends inside of a page leaves fewer than six bytes for its last entry: the size of
  that entry is then computed from an uninitialised array, and this includes every file that ends
  exactly behind the entries of a page that is not full.\<close>

theorem Encoding_truncated_page:
  assumes "FileStream_ok s" and "drop (fs_cursor s) (fs_stream s) = concat (map entry_bytes es) @ pad"
    and "length pad < 6" and "\<forall>e \<in> set es. entry_ok cks eks e"
    and "unat (ContentKeySize header) = cks" and "unat (EncodingKeySize header) = eks" and "eks < 256"
    and "fs_cursor s + length (concat (map entry_bytes es)) < pageEnd" and "length es < fuel"
  shows "page_entries fuel FileStream_vt header pageEnd acc s = Inl Uninitialized"
  using assms(1,2,4,8,9)
proof (induction es arbitrary: s fuel acc)
  case Nil
  then obtain f where "fuel = Suc f" by (cases fuel) auto
  moreover have "length (rest_of FileStream_vt fs_stream s) < 6" using Nil assms(3) by (simp add: rest_of_def)
  ultimately show ?case
    using fstream.CEKeyPageTable_read_short [OF Nil.prems(1)] Nil.prems by simp
next
  case (Cons e es)
  then obtain f where f: "fuel = Suc f" by (cases fuel) auto
  have e: "entry_ok cks eks e" using Cons.prems by simp
  obtain s1 where s1: "CEKeyPageTable_read FileStream_vt header s = Inr (e, s1)"
      "consumed FileStream_vt fs_stream FileStream_ok (length (entry_bytes e)) s s1"
    using fstream.CEKeyPageTable_read_entry [OF Cons.prems(1) _ e assms(5-7), of "concat (map entry_bytes es) @ pad"]
      Cons.prems(2) by (auto simp: rest_of_def)
  have c1: "fs_cursor s1 = fs_cursor s + length (entry_bytes e)" "FileStream_ok s1" "fs_stream s1 = fs_stream s"
    using s1(2) by (simp_all add: consumed_def)
  have "drop (fs_cursor s1) (fs_stream s1) = drop (length (entry_bytes e)) (drop (fs_cursor s) (fs_stream s))"
    by (simp add: c1 add.commute)
  then have "drop (fs_cursor s1) (fs_stream s1) = concat (map entry_bytes es) @ pad"
    using Cons.prems(2) by simp
  then have "page_entries f FileStream_vt header pageEnd (acc @ [e]) s1 = Inl Uninitialized"
    using Cons.prems c1 f by (intro Cons.IH) auto
  moreover have "CEKeyPageTable_bool e"
    using e by (auto simp: entry_ok_def CEKeyPageTable_bool_def unat_eq_0)
  ultimately show ?case using s1(1) f c1 Cons.prems(4) by simp
qed

definition example_entry :: CEKeyPageTable where
  "example_entry = \<lparr>ce_fileSize = 7, ce_ckey = [1, 2], ce_ekeys = [3, 4], ce_keyCount = 1\<rparr>"

lemma example_entry_ok: "entry_ok 2 2 example_entry"
  by (simp add: entry_ok_def example_entry_def)

lemma Encoding_read_roundtrip_witness:
  "\<exists>s'. Encoding_read FileStream_vt (FileStream_new (Some (encoding_bytes 1 2 2 1 4 1 0 3 @ [9, 9, 9]
      @ replicate 18 7 @ concat (map page_bytes [([example_entry], replicate 1014 0)]) @ [1, 2, 3, 4, 5]))) =
    Inr (\<lparr>en_header = encoding_header 1 2 2 1 4 1 0 3, en_cekeyPages = map fst [([example_entry], replicate 1014 (0 :: byte))]\<rparr>, s')"
proof (rule Encoding_read_roundtrip [OF refl])
  show "\<forall>pg \<in> set [([example_entry], replicate 1014 0)]. page_ok (unat (2 :: byte)) (unat (2 :: byte)) (1024 * unat (1 :: u16)) pg"
    using example_entry_ok by (simp add: page_ok_def page_bytes_def entry_bytes_def) (simp add: example_entry_def)
qed (simp_all add: encoding_bytes_def page_bytes_def entry_bytes_def example_entry_def size_mod_def)

lemma Encoding_FindFile_first_witness:
  "Encoding_FindFile \<lparr>en_header = encoding_header 1 2 2 1 4 1 0 3, en_cekeyPages = [[example_entry]]\<rparr>
    (Key_of_span [1, 2]) = Inr (Some (location_of example_entry))"
  using Encoding_FindFile_first [of "\<lparr>en_header = encoding_header 1 2 2 1 4 1 0 3, en_cekeyPages = [[example_entry]]\<rparr>"
      2 2 "Key_of_span [1, 2]"] example_entry_ok
  by (simp add: encoding_header_def) (simp add: example_entry_def Key_of_span_def)

lemma Encoding_truncated_page_witness:
  "page_entries 3 FileStream_vt (encoding_header 1 2 2 1 4 1 0 3) 1024 []
    (FileStream_new (Some (entry_bytes example_entry @ [0]))) = Inl Uninitialized"
  by (rule Encoding_truncated_page [where es = "[example_entry]" and pad = "[0]" and cks = 2 and eks = 2])
    (use example_entry_ok in \<open>simp_all add: FileStream_new_def FileStream_ok_def size_mod_def entry_bytes_def
      example_entry_def encoding_header_def\<close>)

end
