(* ===== verification/Index.thy ===== *)
theory Index
  imports Streams Hash FileLocation
begin

text \<open>
  \<^verbatim>\<open>libtactmon/tact/data/Index.cpp\<close>: archive indices. A file of blocks of entries (a key, a size and an
  offset), a table of contents with the last key and the checksum of each block, and a footer.
\<close>

unbundle bit_operations_syntax

record IndexEntry =
  ie_keyOffset :: nat
  ie_size :: u64
  ie_offset :: u64

record Index =
  ix_keySizeBytes :: nat
  ix_keyBuffer :: "byte list"
  ix_entries :: "IndexEntry list"
  ix_archiveName :: string

definition footer_size :: "nat \<Rightarrow> nat" where
  "footer_size checksumSize = checksumSize * 2 + 1 * 8 + 4"

text \<open>The search for the size of the checksums. When the stream is too short the loop is continued
  without changing \<^verbatim>\<open>checksumSize\<close>; otherwise there are at most sixteen iterations.\<close>

primrec find_checksumSize ::
  "nat \<Rightarrow> digest \<Rightarrow> 's readable \<Rightarrow> byte list \<Rightarrow> nat \<Rightarrow> 's \<Rightarrow> (nat \<times> 's) result" where
  "find_checksumSize 0 md5 io hashBytes checksumSize s = Inl Diverges"
| "find_checksumSize (Suc fuel) md5 io hashBytes checksumSize s =
     (if checksumSize = 0 then Inr (0, s)
      else let footerSize = footer_size checksumSize;
               s = snd (SeekRead io (sub_sz (GetLength io s) footerSize) s)
        in if \<not> CanRead io footerSize s then find_checksumSize fuel md5 io hashBytes checksumSize s
           else bindr (Data io s) (\<lambda>view.
             bindr (subspan 0 footerSize view) (\<lambda>footerData.
               if hashBytes = Hash_Of md5 16 [footerData] then Inr (checksumSize, s)
               else find_checksumSize fuel md5 io hashBytes (checksumSize - 1) s)))"

definition Entry_read :: "'s readable \<Rightarrow> nat \<Rightarrow> nat \<Rightarrow> nat \<Rightarrow> 's \<Rightarrow> (IndexEntry \<times> 's) result" where
  "Entry_read io sizeBytes offsetBytes keyOffset s =
     bindr (Data io s) (\<lambda>view.
     bindr (subspan 0 (sizeBytes + offsetBytes) view) (\<lambda>dataBytes.
       Inr (\<lparr>ie_keyOffset = keyOffset, ie_size = fold_uint (take sizeBytes dataBytes),
             ie_offset = fold_uint (slice sizeBytes offsetBytes dataBytes)\<rparr>,
            SkipRead io (sizeBytes + offsetBytes) s)))"

text \<open>The loop over the entries of block \<open>i\<close>: an entry whose key is zero is skipped.\<close>

primrec read_entries ::
  "nat \<Rightarrow> nat \<Rightarrow> 's readable \<Rightarrow> nat \<Rightarrow> nat \<Rightarrow> nat \<Rightarrow> nat \<Rightarrow> byte list \<times> IndexEntry list \<Rightarrow> 's
    \<Rightarrow> ((byte list \<times> IndexEntry list) \<times> 's) result" where
  "read_entries 0 j io base keySize sizeBytes offsetBytes acc s = Inr (acc, s)"
| "read_entries (Suc n) j io base keySize sizeBytes offsetBytes acc s =
     (let s = snd (SeekRead io (base + j * (keySize + sizeBytes + offsetBytes)) s) in
      bindr (Data io s) (\<lambda>view.
      bindr (subspan 0 keySize view) (\<lambda>keyData.
        let s = SkipRead io keySize s in
        if list_all (\<lambda>b. b = 0) keyData
        then read_entries n (j + 1) io base keySize sizeBytes offsetBytes acc s
        else bindr (Entry_read io sizeBytes offsetBytes (length (fst acc)) s) (\<lambda>(entry, s).
          read_entries n (j + 1) io base keySize sizeBytes offsetBytes
            (fst acc @ keyData, snd acc @ [entry]) s))))"

text \<open>The loop over the blocks: a block whose checksum is wrong is skipped.\<close>

primrec read_blocks ::
  "nat \<Rightarrow> nat \<Rightarrow> digest \<Rightarrow> 's readable \<Rightarrow> nat \<Rightarrow> nat \<Rightarrow> nat \<Rightarrow> nat \<Rightarrow> nat \<Rightarrow> nat \<Rightarrow> nat
    \<Rightarrow> byte list \<times> IndexEntry list \<Rightarrow> 's \<Rightarrow> ((byte list \<times> IndexEntry list) \<times> 's) result" where
  "read_blocks 0 i md5 io blockCount blockSize entryCount keySize sizeBytes offsetBytes checksumSize acc s =
     Inr (acc, s)"
| "read_blocks (Suc n) i md5 io blockCount blockSize entryCount keySize sizeBytes offsetBytes checksumSize acc s =
     (let s = snd (SeekRead io (i * blockSize) s) in
      bindr (Data io s) (\<lambda>view.
      bindr (subspan 0 blockSize view) (\<lambda>rawBlockData.
        let s = snd (SeekRead io (blockCount * blockSize + blockCount * keySize + i * checksumSize) s) in
        bindr (Data io s) (\<lambda>view.
        bindr (subspan 0 checksumSize view) (\<lambda>checksum.
          if take checksumSize (Hash_Of md5 16 [rawBlockData]) \<noteq> checksum
          then read_blocks n (i + 1) md5 io blockCount blockSize entryCount keySize sizeBytes offsetBytes
            checksumSize acc s
          else bindr (read_entries entryCount 0 io (i * blockSize) keySize sizeBytes offsetBytes acc s) (\<lambda>(acc, s).
            read_blocks n (i + 1) md5 io blockCount blockSize entryCount keySize sizeBytes offsetBytes
              checksumSize acc s))))))"

text \<open>The fields of the footer: the size of a block in KiB and the sizes of offsets, sizes and keys.\<close>

definition read_footer ::
  "'s readable \<Rightarrow> nat \<Rightarrow> 's \<Rightarrow> ((byte \<times> byte \<times> byte \<times> byte) \<times> 's) result" where
  "read_footer io checksumSize s =
     bindr (Data io s) (\<lambda>view.
     bindr (subspan 0 checksumSize view) (\<lambda>tocHash.
     let s = SkipRead io checksumSize s in
     bindr (ReadValue io native s) (\<lambda>(version :: byte, s).
     bindr (ReadValue io native s) (\<lambda>(x11 :: byte, s).
     bindr (ReadValue io native s) (\<lambda>(x12 :: byte, s).
     bindr (ReadValue io native s) (\<lambda>(blockSizeKb :: byte, s).
     bindr (ReadValue io native s) (\<lambda>(offsetBytes :: byte, s).
     bindr (ReadValue io native s) (\<lambda>(sizeBytes :: byte, s).
     bindr (ReadValue io native s) (\<lambda>(keySizeBytes :: byte, s).
     bindr (ReadValue io native s) (\<lambda>(checksumBytes :: byte, s).
     bindr (ReadValue io native s) (\<lambda>(numElements :: u32, s).
       Inr ((blockSizeKb, offsetBytes, sizeBytes, keySizeBytes), s))))))))))))"

definition Index_new :: "digest \<Rightarrow> string \<Rightarrow> 's readable \<Rightarrow> 's \<Rightarrow> (Index \<times> 's) result" where
  "Index_new md5 hash io s =
     bindr (unhex hash (replicate (length hash div 2) 0)) (\<lambda>hashBytes.
     bindr (find_checksumSize 17 md5 io hashBytes 0x10 s) (\<lambda>(checksumSize, s).
     if checksumSize = 0
     then Inr (\<lparr>ix_keySizeBytes = 0, ix_keyBuffer = [], ix_entries = [], ix_archiveName = hash\<rparr>, s)
     else
       let footerSize = footer_size checksumSize;
           s = snd (SeekRead io (sub_sz (GetLength io s) footerSize) s)
       in bindr (read_footer io checksumSize s) (\<lambda>((blockSizeKb, offsetBytes, sizeBytes, keySizeBytes), s).
            let blockSize = 1024 * unat blockSizeKb;
                entrySize = unat keySizeBytes + unat sizeBytes + unat offsetBytes
            in if entrySize = 0 then Inl DivisionByZero
               else
                 let entryCount = blockSize div entrySize;
                     blockCount = sub_sz (GetLength io s) footerSize
                       div (blockSize + (unat keySizeBytes + checksumSize))
                 in bindr (read_blocks blockCount 0 md5 io blockCount blockSize entryCount (unat keySizeBytes)
                       (unat sizeBytes) (unat offsetBytes) checksumSize ([], []) s) (\<lambda>((keyBuffer, entries), s).
                    Inr (\<lparr>ix_keySizeBytes = unat keySizeBytes, ix_keyBuffer = keyBuffer,
                      ix_entries = entries, ix_archiveName = hash\<rparr>, s)))))"

definition Entry_key :: "IndexEntry \<Rightarrow> Index \<Rightarrow> byte list result" where
  "Entry_key e ix = subspan (ie_keyOffset e) (ix_keySizeBytes ix) (ix_keyBuffer ix)"

primrec find_entry :: "Index \<Rightarrow> byte list \<Rightarrow> IndexEntry list \<Rightarrow> IndexEntry option result" where
  "find_entry ix needle [] = Inr None"
| "find_entry ix needle (e # es) =
     bindr (Entry_key e ix) (\<lambda>entryKey.
       if entryKey = needle then Inr (Some e) else find_entry ix needle es)"

definition Index_lookup :: "Index \<Rightarrow> EKey \<Rightarrow> IndexEntry option result" where
  "Index_lookup ix key = bindr (Key_data key) (\<lambda>needle. find_entry ix needle (ix_entries ix))"

section \<open>The format\<close>

record ientry =
  i_key :: "byte list"
  i_size :: u64
  i_offset :: u64

definition be_n :: "nat \<Rightarrow> u64 \<Rightarrow> byte list" where
  "be_n k v = rev (take k (bytes_of v))"

definition ientry_bytes :: "nat \<Rightarrow> nat \<Rightarrow> ientry \<Rightarrow> byte list" where
  "ientry_bytes sb ob e = i_key e @ be_n sb (i_size e) @ be_n ob (i_offset e)"

definition ientry_ok :: "nat \<Rightarrow> nat \<Rightarrow> nat \<Rightarrow> ientry \<Rightarrow> bool" where
  "ientry_ok ks sb ob e \<longleftrightarrow> length (i_key e) = ks \<and> \<not> list_all (\<lambda>b. b = 0) (i_key e) \<and>
     unat (i_size e) < 2 ^ (8 * sb) \<and> unat (i_offset e) < 2 ^ (8 * ob)"

text \<open>A block: its entries, zeroes up to its size.\<close>

definition block_bytes :: "nat \<Rightarrow> nat \<Rightarrow> nat \<Rightarrow> ientry list \<Rightarrow> byte list" where
  "block_bytes sb ob B es = (let bs = concat (map (ientry_bytes sb ob) es) in bs @ replicate (B - length bs) 0)"

definition footer_bytes :: "byte list \<Rightarrow> byte \<Rightarrow> byte \<Rightarrow> byte \<Rightarrow> byte \<Rightarrow> u32 \<Rightarrow> byte list \<Rightarrow> byte list" where
  "footer_bytes tocHash kb ob sb ks n check =
     tocHash @ [1, 0, 0, kb, ob, sb, ks, 16] @ bytes_of n @ check"

definition index_bytes ::
  "digest \<Rightarrow> nat \<Rightarrow> nat \<Rightarrow> nat \<Rightarrow> ientry list list \<Rightarrow> byte list \<Rightarrow> byte list \<Rightarrow> byte list" where
  "index_bytes md5 sb ob B blocks toc footer =
     concat (map (block_bytes sb ob B) blocks) @ toc @ concat (map (md5 \<circ> block_bytes sb ob B) blocks) @ footer"

text \<open>What the parser keeps: the keys in one buffer, and each entry with the place of its key.\<close>

primrec index_entries :: "nat \<Rightarrow> nat \<Rightarrow> ientry list \<Rightarrow> IndexEntry list" where
  "index_entries ks off [] = []"
| "index_entries ks off (e # es) =
     \<lparr>ie_keyOffset = off, ie_size = i_size e, ie_offset = i_offset e\<rparr> # index_entries ks (off + ks) es"

definition index_of :: "string \<Rightarrow> nat \<Rightarrow> ientry list \<Rightarrow> Index" where
  "index_of hash ks es = \<lparr>ix_keySizeBytes = ks, ix_keyBuffer = concat (map i_key es),
     ix_entries = index_entries ks 0 es, ix_archiveName = hash\<rparr>"

lemma index_entries_append:
  "index_entries ks off (es @ fs) = index_entries ks off es @ index_entries ks (off + length es * ks) fs"
  by (induction es arbitrary: off) (simp_all add: add.assoc)

lemma length_be_n [simp]: "k \<le> 8 \<Longrightarrow> length (be_n k v) = k"
  by (simp add: be_n_def)

lemma fold_be_n: "unat v < 2 ^ (8 * k) \<Longrightarrow> fold_uint (be_n k v) = v"
  unfolding be_n_def by (rule fold_uint_be) simp_all

lemma length_ientry_bytes:
  "ientry_ok ks sb ob e \<Longrightarrow> sb \<le> 8 \<Longrightarrow> ob \<le> 8 \<Longrightarrow> length (ientry_bytes sb ob e) = ks + sb + ob"
  by (simp add: ientry_bytes_def ientry_ok_def)

lemma length_ientries:
  assumes "\<forall>e \<in> set es. ientry_ok ks sb ob e" and "sb \<le> 8" and "ob \<le> 8"
  shows "length (concat (map (ientry_bytes sb ob) es)) = length es * (ks + sb + ob)"
proof -
  have "length k = ks + sb + ob" if "k \<in> set (map (ientry_bytes sb ob) es)" for k
    using that assms length_ientry_bytes by auto
  from length_concat_same [of "map (ientry_bytes sb ob) es", OF this] show ?thesis by simp
qed

lemma length_block_bytes:
  assumes "\<forall>e \<in> set es. ientry_ok ks sb ob e" and "sb \<le> 8" and "ob \<le> 8"
    and "length es * (ks + sb + ob) \<le> B"
  shows "length (block_bytes sb ob B es) = B"
  using length_ientries [OF assms(1-3)] assms(4) by (simp add: block_bytes_def Let_def)

section \<open>Reading a well-formed index\<close>

text \<open>A piece of the contents at a position.\<close>

definition has_at :: "byte list \<Rightarrow> nat \<Rightarrow> byte list \<Rightarrow> bool" where
  "has_at content p bs \<longleftrightarrow> (\<exists>tail. drop p content = bs @ tail)"

lemma has_at_append: "has_at content p (bs @ cs) \<Longrightarrow> has_at content p bs \<and> has_at content (p + length bs) cs"
  unfolding has_at_def
  by (metis append.assoc append_eq_conv_conj drop_drop add.commute)

lemma has_at_length: "has_at content p bs \<Longrightarrow> bs \<noteq> [] \<Longrightarrow> p + length bs \<le> length content"
proof -
  assume "has_at content p bs" "bs \<noteq> []"
  then obtain tail where t: "drop p content = bs @ tail" by (auto simp: has_at_def)
  then have "length content - p = length bs + length tail" by (metis length_append length_drop)
  moreover have "0 < length bs" using \<open>bs \<noteq> []\<close> by simp
  ultimately show ?thesis by linarith
qed

context readable_stream
begin

lemma SeekRead_Data:
  assumes "ok s" and "has_at (content s) p bs" and "bs \<noteq> []"
  shows "\<exists>s' tail. SeekRead io p s = (p, s') \<and> ok s' \<and> content s' = content s \<and> GetReadCursor io s' = p \<and>
    Data io s' = Inr (bs @ tail)"
proof -
  obtain s' where s': "SeekRead io p s = (p, s')" "ok s'" "content s' = content s" "GetReadCursor io s' = p"
    using SeekRead [OF assms(1), of p] has_at_length [OF assms(2,3)] by auto
  then show ?thesis using Data [OF s'(2)] assms(2) by (auto simp: has_at_def)
qed

lemma Entry_read_encoded:
  assumes "ok s" and "rest s = be_n sb (i_size e) @ be_n ob (i_offset e) @ tail"
    and "ientry_ok ks sb ob e" and "sb \<le> 8" and "ob \<le> 8"
  shows "\<exists>s'. Entry_read io sb ob off s =
    Inr (\<lparr>ie_keyOffset = off, ie_size = i_size e, ie_offset = i_offset e\<rparr>, s') \<and> eats (sb + ob) s s'"
proof -
  have "eats (sb + ob) s (SkipRead io (sb + ob) s)"
    using assms by (intro SkipRead_rest) simp_all
  moreover have "Data io s = Inr (be_n sb (i_size e) @ be_n ob (i_offset e) @ tail)"
    using Data [OF assms(1)] assms(2) by (simp add: rest_of_def)
  ultimately show ?thesis
    using assms(3-5) by (auto simp: Entry_read_def slice_def fold_be_n ientry_ok_def)
qed

lemma read_entries_encoded:
  assumes "ok s" and "has_at (content s) (base + j * (ks + sb + ob)) (concat (map (ientry_bytes sb ob) es))"
    and "\<forall>e \<in> set es. ientry_ok ks sb ob e" and "sb \<le> 8" and "ob \<le> 8" and "0 < ks"
  shows "\<exists>s'. read_entries (length es + n) j io base ks sb ob acc s =
      read_entries n (j + length es) io base ks sb ob
        (fst acc @ concat (map i_key es), snd acc @ index_entries ks (length (fst acc)) es) s' \<and>
    ok s' \<and> content s' = content s"
  using assms(1-3)
proof (induction es arbitrary: j acc s)
  case Nil
  then show ?case by (intro exI [of _ s]) simp
next
  case (Cons e es)
  let ?E = "ks + sb + ob" and ?data = "be_n sb (i_size e) @ be_n ob (i_offset e)"
  have e: "ientry_ok ks sb ob e" using Cons.prems by simp
  then have k: "length (i_key e) = ks" "\<not> list_all (\<lambda>b. b = 0) (i_key e)" "i_key e \<noteq> []"
    using assms(6) by (auto simp: ientry_ok_def)
  have at: "has_at (content s) (base + j * ?E) (ientry_bytes sb ob e)"
    "has_at (content s) (base + (j + 1) * ?E) (concat (map (ientry_bytes sb ob) es))"
    using has_at_append [of "content s" "base + j * ?E" "ientry_bytes sb ob e"] Cons.prems(2)
      length_ientry_bytes [OF e assms(4,5)] by (auto simp: algebra_simps)
  then have "has_at (content s) (base + j * ?E) (i_key e @ ?data)" by (simp add: ientry_bytes_def)
  then obtain s1 tail where s1: "SeekRead io (base + j * ?E) s = (base + j * ?E, s1)" "ok s1"
      "content s1 = content s" "GetReadCursor io s1 = base + j * ?E" "Data io s1 = Inr ((i_key e @ ?data) @ tail)"
    using SeekRead_Data [OF Cons.prems(1), of _ "i_key e @ ?data"] k(3) by blast
  have r1: "rest s1 = i_key e @ ?data @ tail"
    using Data [OF s1(2)] s1(5) by (simp add: rest_of_def)
  let ?s2 = "SkipRead io ks s1"
  have s2: "eats ks s1 ?s2" using r1 k(1) by (intro SkipRead_rest [OF s1(2)]) simp
  have "rest ?s2 = be_n sb (i_size e) @ be_n ob (i_offset e) @ tail"
    using rest_of_consumed [OF s2] r1 k(1) by simp
  from Entry_read_encoded [OF consumed_inv [OF s2] this e assms(4,5), of "length (fst acc)"] obtain s3 where
    s3: "Entry_read io sb ob (length (fst acc)) ?s2 =
      Inr (\<lparr>ie_keyOffset = length (fst acc), ie_size = i_size e, ie_offset = i_offset e\<rparr>, s3)" "eats (sb + ob) ?s2 s3"
    by blast
  have c3: "ok s3" "content s3 = content s" using s3(2) s2 s1(3) by (simp_all add: consumed_def)
  let ?acc = "(fst acc @ i_key e, snd acc @ [\<lparr>ie_keyOffset = length (fst acc), ie_size = i_size e, ie_offset = i_offset e\<rparr>])"
  have "read_entries (length (e # es) + n) j io base ks sb ob acc s =
      read_entries (length es + n) (j + 1) io base ks sb ob ?acc s3"
    using s1(1,5) s3(1) k by (simp add: Let_def slice_def)
  moreover obtain s' where "read_entries (length es + n) (j + 1) io base ks sb ob ?acc s3 =
      read_entries n (j + 1 + length es) io base ks sb ob
        (fst ?acc @ concat (map i_key es), snd ?acc @ index_entries ks (length (fst ?acc)) es) s'"
      "ok s'" "content s' = content s3"
    using Cons.IH [of s3 "j + 1" ?acc] c3 at(2) Cons.prems(3) by auto
  ultimately show ?case using k(1) c3 by (intro exI [of _ s']) simp
qed

lemma read_entries_padding:
  assumes "ok s" and "has_at (content s) (base + j * (ks + sb + ob)) (replicate (n * (ks + sb + ob)) 0)" and "0 < ks"
  shows "\<exists>s'. read_entries n j io base ks sb ob acc s = Inr (acc, s') \<and> ok s' \<and> content s' = content s"
  using assms(1,2)
proof (induction n arbitrary: j s)
  case 0
  then show ?case by simp
next
  case (Suc n)
  let ?E = "ks + sb + ob"
  have split: "replicate (Suc n * ?E) (0 :: byte) = replicate ks 0 @ replicate (sb + ob) 0 @ replicate (n * ?E) 0"
    by (simp add: replicate_add [symmetric] add.assoc)
  have at: "has_at (content s) (base + j * ?E) (replicate ks 0)"
    "has_at (content s) (base + j * ?E + ks + (sb + ob)) (replicate (n * ?E) 0)"
    using Suc.prems(2) has_at_append [of "content s" "base + j * ?E" "replicate ks 0"]
      has_at_append [of "content s" "base + j * ?E + ks" "replicate (sb + ob) 0"]
    unfolding split by auto
  obtain s1 tail where s1: "SeekRead io (base + j * ?E) s = (base + j * ?E, s1)" "ok s1"
      "content s1 = content s" "Data io s1 = Inr (replicate ks 0 @ tail)"
    using SeekRead_Data [OF Suc.prems(1) at(1)] assms(3) by auto
  have r1: "rest s1 = replicate ks 0 @ tail"
    using Data [OF s1(2)] s1(4) by (simp add: rest_of_def)
  have s2: "eats ks s1 (SkipRead io ks s1)" using r1 by (intro SkipRead_rest [OF s1(2)]) simp
  have "read_entries (Suc n) j io base ks sb ob acc s = read_entries n (j + 1) io base ks sb ob acc (SkipRead io ks s1)"
    using s1(1,4) by (simp add: Let_def slice_def list_all_iff)
  moreover have "has_at (content (SkipRead io ks s1)) (base + (j + 1) * ?E) (replicate (n * ?E) 0)"
    using at(2) s1(3) s2 by (simp add: consumed_def algebra_simps)
  ultimately show ?case
    using Suc.IH [OF consumed_inv [OF s2]] s2 s1(3) by (auto simp: consumed_def)
qed

lemma read_block_encoded:
  assumes "ok s" and "has_at (content s) base (block_bytes sb ob B es)"
    and "\<forall>e \<in> set es. ientry_ok ks sb ob e" and "sb \<le> 8" and "ob \<le> 8" and "0 < ks"
    and "length es * (ks + sb + ob) \<le> B"
  shows "\<exists>s'. read_entries (B div (ks + sb + ob)) 0 io base ks sb ob acc s =
      Inr ((fst acc @ concat (map i_key es), snd acc @ index_entries ks (length (fst acc)) es), s') \<and>
    ok s' \<and> content s' = content s"
proof -
  let ?E = "ks + sb + ob" and ?bs = "concat (map (ientry_bytes sb ob) es)"
  let ?n = "B div ?E - length es"
  have len: "length ?bs = length es * ?E"
    using assms(3-5) by (rule length_ientries)
  have "length es \<le> B div ?E"
    using assms(6,7) by (simp add: less_eq_div_iff_mult_less_eq)
  then have n: "B div ?E = length es + ?n" by simp
  have "?n * ?E \<le> B - length es * ?E"
    unfolding diff_mult_distrib by (rule diff_le_mono) (rule div_times_less_eq_dividend)
  then obtain r where "B - length es * ?E = ?n * ?E + r" using le_Suc_ex by blast
  then have "block_bytes sb ob B es = ?bs @ replicate (?n * ?E) 0 @ replicate r 0"
    by (simp add: block_bytes_def Let_def len replicate_add)
  then have at: "has_at (content s) base ?bs" "has_at (content s) (base + length es * ?E) (replicate (?n * ?E) 0)"
    using assms(2) has_at_append [of "content s" base ?bs]
      has_at_append [of "content s" "base + length es * ?E" "replicate (?n * ?E) 0"] len by auto
  obtain s1 where s1: "read_entries (length es + ?n) 0 io base ks sb ob acc s =
      read_entries ?n (0 + length es) io base ks sb ob
        (fst acc @ concat (map i_key es), snd acc @ index_entries ks (length (fst acc)) es) s1"
      "ok s1" "content s1 = content s"
    using read_entries_encoded [OF assms(1) _ assms(3-6), where base = base and j = 0 and n = ?n and acc = acc] at(1)
    by auto
  then show ?thesis
    using read_entries_padding [OF s1(2) _ assms(6), of base "length es" sb ob ?n] at(2) n by auto
qed

lemma read_blocks_encoded:
  assumes "ok s" and "has_at (content s) (i * B) (concat (map (block_bytes sb ob B) blocks))"
    and "has_at (content s) (N * B + N * ks + i * 16) (concat (map (md5 \<circ> block_bytes sb ob B) blocks))"
    and "\<forall>es \<in> set blocks. (\<forall>e \<in> set es. ientry_ok ks sb ob e) \<and> length es * (ks + sb + ob) \<le> B"
    and "\<forall>x. length (md5 x) = 16" and "sb \<le> 8" and "ob \<le> 8" and "0 < ks" and "0 < B"
  shows "\<exists>s'. read_blocks (length blocks) i md5 io N B (B div (ks + sb + ob)) ks sb ob 16 acc s =
      Inr ((fst acc @ concat (map i_key (concat blocks)),
        snd acc @ index_entries ks (length (fst acc)) (concat blocks)), s')"
  using assms(1-4)
proof (induction blocks arbitrary: i acc s)
  case Nil
  then show ?case by simp
next
  case (Cons es blocks)
  let ?b = "block_bytes sb ob B es"
  have es: "\<forall>e \<in> set es. ientry_ok ks sb ob e" "length es * (ks + sb + ob) \<le> B"
    using Cons.prems(4) by simp_all
  have lb: "length ?b = B" using length_block_bytes [OF es(1) assms(6,7) es(2)] .
  then have ne: "?b \<noteq> []" "md5 ?b \<noteq> []" using assms(9,5) by auto (metis list.size(3) zero_neq_numeral)
  have at: "has_at (content s) (i * B) ?b" "has_at (content s) ((i + 1) * B) (concat (map (block_bytes sb ob B) blocks))"
    using Cons.prems(2) has_at_append [of "content s" "i * B" ?b] lb by (auto simp: algebra_simps)
  have sum: "has_at (content s) (N * B + N * ks + i * 16) (md5 ?b)"
    "has_at (content s) (N * B + N * ks + (i + 1) * 16) (concat (map (md5 \<circ> block_bytes sb ob B) blocks))"
    using Cons.prems(3) has_at_append [of "content s" "N * B + N * ks + i * 16" "md5 ?b"] assms(5)
    by (auto simp: algebra_simps comp_def)
  obtain s1 tail1 where s1: "SeekRead io (i * B) s = (i * B, s1)" "ok s1" "content s1 = content s"
      "Data io s1 = Inr (?b @ tail1)"
    using SeekRead_Data [OF Cons.prems(1) at(1) ne(1)] by blast
  let ?q = "N * B + N * ks + i * 16"
  have "has_at (content s1) ?q (md5 ?b)" using sum(1) s1(3) by simp
  then obtain s2 tail2 where s2: "SeekRead io ?q s1 = (?q, s2)" "ok s2" "content s2 = content s1"
      "Data io s2 = Inr (md5 ?b @ tail2)"
    using SeekRead_Data [OF s1(2) _ ne(2)] by blast
  have "has_at (content s2) (i * B) ?b" using at(1) s1(3) s2(3) by simp
  from read_block_encoded [OF s2(2) this es(1) assms(6-8) es(2), of acc] obtain s3 where
    s3: "read_entries (B div (ks + sb + ob)) 0 io (i * B) ks sb ob acc s2 =
      Inr ((fst acc @ concat (map i_key es), snd acc @ index_entries ks (length (fst acc)) es), s3)"
      "ok s3" "content s3 = content s2" by blast
  let ?acc = "(fst acc @ concat (map i_key es), snd acc @ index_entries ks (length (fst acc)) es)"
  have "read_blocks (length (es # blocks)) i md5 io N B (B div (ks + sb + ob)) ks sb ob 16 acc s =
      read_blocks (length blocks) (i + 1) md5 io N B (B div (ks + sb + ob)) ks sb ob 16 ?acc s3"
    using s1(1,4) s2(1,4) s3(1) lb assms(5) by (simp add: Let_def slice_def)
  moreover have "length (concat (map i_key es)) = length es * ks"
    using length_concat_same [of "map i_key es" ks] es(1) by (fastforce simp: ientry_ok_def)
  moreover have "\<exists>s'. read_blocks (length blocks) (i + 1) md5 io N B (B div (ks + sb + ob)) ks sb ob 16 ?acc s3 =
      Inr ((fst ?acc @ concat (map i_key (concat blocks)),
        snd ?acc @ index_entries ks (length (fst ?acc)) (concat blocks)), s')"
    using at(2) sum(2) s1(3) s2(3) s3(2,3) Cons.prems(4) by (intro Cons.IH) (auto simp: comp_def)
  ultimately show ?case by (simp add: index_entries_append)
qed

lemma read_footer_encoded:
  assumes "ok s" and "rest s = footer_bytes tocHash kb ob sb ks n check" and "length tocHash = 16"
  shows "\<exists>s'. read_footer io 16 s = Inr ((kb, ob, sb, ks), s') \<and> ok s' \<and> content s' = content s"
proof -
  let ?tail = "bytes_of n @ check"
  have d: "Data io s = Inr (footer_bytes tocHash kb ob sb ks n check)"
    using Data [OF assms(1)] assms(2) by (simp add: rest_of_def)
  let ?s0 = "SkipRead io 16 s"
  have s0: "eats 16 s ?s0" using assms by (intro SkipRead_rest) (simp_all add: footer_bytes_def)
  have r0: "rest ?s0 = 1 # 0 # 0 # kb # ob # sb # ks # 16 # ?tail"
    using rest_of_consumed [OF s0] assms by (simp add: footer_bytes_def)
  obtain s1 where s1: "ReadValue io native ?s0 = Inr (1 :: byte, s1)" "eats 1 ?s0 s1"
      "rest s1 = 0 # 0 # kb # ob # sb # ks # 16 # ?tail"
    using ReadValue_byte [OF consumed_inv [OF s0] r0, of native] r0 by (auto simp: rest_of_consumed)
  obtain s2 where s2: "ReadValue io native s1 = Inr (0 :: byte, s2)" "eats 1 s1 s2"
      "rest s2 = 0 # kb # ob # sb # ks # 16 # ?tail"
    using ReadValue_byte [OF consumed_inv [OF s1(2)] s1(3), of native] s1(3) by (auto simp: rest_of_consumed)
  obtain s3 where s3: "ReadValue io native s2 = Inr (0 :: byte, s3)" "eats 1 s2 s3"
      "rest s3 = kb # ob # sb # ks # 16 # ?tail"
    using ReadValue_byte [OF consumed_inv [OF s2(2)] s2(3), of native] s2(3) by (auto simp: rest_of_consumed)
  obtain s4 where s4: "ReadValue io native s3 = Inr (kb, s4)" "eats 1 s3 s4" "rest s4 = ob # sb # ks # 16 # ?tail"
    using ReadValue_byte [OF consumed_inv [OF s3(2)] s3(3), of native] s3(3) by (auto simp: rest_of_consumed)
  obtain s5 where s5: "ReadValue io native s4 = Inr (ob, s5)" "eats 1 s4 s5" "rest s5 = sb # ks # 16 # ?tail"
    using ReadValue_byte [OF consumed_inv [OF s4(2)] s4(3), of native] s4(3) by (auto simp: rest_of_consumed)
  obtain s6 where s6: "ReadValue io native s5 = Inr (sb, s6)" "eats 1 s5 s6" "rest s6 = ks # 16 # ?tail"
    using ReadValue_byte [OF consumed_inv [OF s5(2)] s5(3), of native] s5(3) by (auto simp: rest_of_consumed)
  obtain s7 where s7: "ReadValue io native s6 = Inr (ks, s7)" "eats 1 s6 s7" "rest s7 = 16 # ?tail"
    using ReadValue_byte [OF consumed_inv [OF s6(2)] s6(3), of native] s6(3) by (auto simp: rest_of_consumed)
  obtain s8 where s8: "ReadValue io native s7 = Inr (16 :: byte, s8)" "eats 1 s7 s8" "rest s8 = ?tail"
    using ReadValue_byte [OF consumed_inv [OF s7(2)] s7(3), of native] s7(3) by (auto simp: rest_of_consumed)
  obtain s9 where s9: "ReadValue io native s8 = Inr (n, s9)" "eats 4 s8 s9"
    using ReadValue_le [OF consumed_inv [OF s8(2)] s8(3)] by auto
  have "ok s9 \<and> content s9 = content s"
    using s0 s1(2) s2(2) s3(2) s4(2) s5(2) s6(2) s7(2) s8(2) s9(2) by (simp add: consumed_def)
  then show ?thesis
    using d s1(1) s2(1) s3(1) s4(1) s5(1) s6(1) s7(1) s8(1) s9(1) assms(3)
    by (simp add: read_footer_def footer_bytes_def Let_def)
qed

lemma SeekRead_footer:
  assumes "ok s" and "content s = bs @ footer" and "length footer = 44"
  shows "\<exists>s'. SeekRead io (sub_sz (GetLength io s) (footer_size 16)) s = (length bs, s') \<and> ok s' \<and>
    content s' = content s \<and> GetReadCursor io s' = length bs \<and> rest s' = footer"
proof -
  have "length bs + 44 < size_mod" using length_content [OF assms(1)] assms(2,3) by simp
  then have "sub_sz (GetLength io s) (footer_size 16) = length bs"
    using GetLength [OF assms(1)] assms(2,3) by (simp add: sub_sz_def footer_size_def)
  moreover obtain s' where "SeekRead io (length bs) s = (length bs, s')" "ok s'" "content s' = content s"
      "GetReadCursor io s' = length bs"
    using SeekRead [OF assms(1), of "length bs"] assms(2) by auto
  ultimately show ?thesis using assms(2) by (auto simp: rest_of_def)
qed

lemma find_checksumSize_first:
  assumes "ok s" and "content s = bs @ footer" and "length footer = 44"
  shows "\<exists>s'. find_checksumSize (Suc fuel) md5 io (md5 footer) 16 s = Inr (16, s') \<and> ok s' \<and> content s' = content s"
proof -
  obtain s' where s': "SeekRead io (sub_sz (GetLength io s) (footer_size 16)) s = (length bs, s')" "ok s'"
      "content s' = content s" "GetReadCursor io s' = length bs" "rest s' = footer"
    using SeekRead_footer [OF assms] by blast
  have "GetReadCursor io s' + 44 < size_mod"
    using length_content [OF assms(1)] assms(2,3) s'(4) by simp
  then have "CanRead io (footer_size 16) s'"
    using CanRead [OF s'(2), of 44] assms(2,3) s'(3,4) by (simp add: footer_size_def)
  moreover have "Data io s' = Inr footer"
    using Data [OF s'(2)] s'(5) by (simp add: rest_of_def)
  ultimately show ?thesis
    using s'(1-3) assms(3) by (simp add: Let_def footer_size_def slice_def)
qed

lemma Index_new_encoded:
  fixes kb ob sb ks :: byte and tocHash check :: "byte list" and n :: u32
  defines "B \<equiv> 1024 * unat kb" and "footer \<equiv> footer_bytes tocHash kb ob sb ks n check"
  assumes "ok s"
    and "content s = index_bytes md5 (unat sb) (unat ob) B blocks toc footer"
    and "length tocHash = 16" and "length check = 16" and "length toc = length blocks * unat ks"
    and "\<forall>es \<in> set blocks. (\<forall>e \<in> set es. ientry_ok (unat ks) (unat sb) (unat ob) e) \<and>
      length es * (unat ks + unat sb + unat ob) \<le> B"
    and "\<forall>x. length (md5 x) = 16" and "unat sb \<le> 8" and "unat ob \<le> 8" and "ks \<noteq> 0" and "kb \<noteq> 0"
  shows "\<exists>s'. Index_new md5 (hex (md5 footer)) io s =
    Inr (index_of (hex (md5 footer)) (unat ks) (concat blocks), s')"
proof -
  let ?N = "length blocks" and ?blocks = "concat (map (block_bytes (unat sb) (unat ob) B) blocks)"
  let ?sums = "concat (map (md5 \<circ> block_bytes (unat sb) (unat ob) B) blocks)"
  have pos: "0 < unat ks" "0 < B" using assms by (simp_all add: unat_gt_0)
  have "length (block_bytes (unat sb) (unat ob) B es) = B" if "es \<in> set blocks" for es
    using length_block_bytes that assms by blast
  then have lb: "length ?blocks = ?N * B"
    using length_concat_same [of "map (block_bytes (unat sb) (unat ob) B) blocks" B] by fastforce
  have ls: "length ?sums = ?N * 16"
    using length_concat_same [of "map (md5 \<circ> block_bytes (unat sb) (unat ob) B) blocks" 16] assms(9) by fastforce
  have lf: "length footer = 44" using assms by (simp add: footer_bytes_def)
  have c: "content s = (?blocks @ toc @ ?sums) @ footer" using assms(4) by (simp add: index_bytes_def)
  have lc: "length (content s) - 44 = ?N * (B + (unat ks + 16))"
    using lb ls lf assms(7) unfolding c by (simp add: algebra_simps)
  obtain s1 where s1: "find_checksumSize (Suc 16) md5 io (md5 footer) 16 s = Inr (16, s1)" "ok s1" "content s1 = content s"
    using find_checksumSize_first [OF assms(3) c lf] by blast
  obtain s2 where s2: "SeekRead io (sub_sz (GetLength io s1) (footer_size 16)) s1 = (length (?blocks @ toc @ ?sums), s2)"
      "ok s2" "content s2 = content s" "rest s2 = footer"
    using SeekRead_footer [OF s1(2) _ lf] s1(3) c by metis
  obtain s3 where s3: "read_footer io 16 s2 = Inr ((kb, ob, sb, ks), s3)" "ok s3" "content s3 = content s"
    using read_footer_encoded [OF s2(2) _ assms(5)] s2(3,4) unfolding footer_def by metis
  have "44 \<le> length (content s)" using lf unfolding c by simp
  then have "sub_sz (GetLength io s3) (footer_size 16) = length (content s) - 44"
    using length_content [OF s3(2)] GetLength [OF s3(2)] s3(3) by (simp add: footer_size_def)
  then have N: "sub_sz (GetLength io s3) (footer_size 16) div (B + (unat ks + 16)) = ?N"
    using lc by simp
  have at: "has_at (content s3) (0 * B) ?blocks" "has_at (content s3) (?N * B + ?N * unat ks + 0 * 16) ?sums"
    using s3(3) c has_at_append [of "content s3" 0 "?blocks @ toc" ?sums] has_at_append [of "content s3" 0 ?blocks toc]
      lb assms(7) by (auto simp: has_at_def)
  obtain s4 where s4: "read_blocks ?N 0 md5 io ?N B (B div (unat ks + unat sb + unat ob)) (unat ks) (unat sb) (unat ob) 16
        ([], []) s3 = Inr ((fst ([], []) @ concat (map i_key (concat blocks)),
          snd ([], []) @ index_entries (unat ks) (length (fst ([], [] :: IndexEntry list))) (concat blocks)), s4)"
    using read_blocks_encoded [OF s3(2) at assms(8-11) pos, of "([], [])"] by auto
  have "unhex (hex (md5 footer)) (replicate (length (hex (md5 footer)) div 2) 0) = Inr (md5 footer)"
    using assms(9) by (simp add: unhex_ok)
  then show ?thesis
    using s1(1) s2(1) s3(1) s4 N pos
    by (simp add: Index_new_def Let_def index_of_def B_def [symmetric])
qed

text \<open>On a stream that holds a footer the search ends.\<close>

lemma find_checksumSize_total:
  assumes "ok s" and "footer_size 16 \<le> length (content s)" and "k \<le> 16"
  shows "\<exists>k' s'. find_checksumSize (Suc k) md5 io hb k s = Inr (k', s') \<and> k' \<le> k \<and> ok s' \<and> content s' = content s"
  using assms(1,2,3)
proof (induction k arbitrary: s)
  case 0
  then show ?case by (intro exI [of _ 0] exI [of _ s]) simp
next
  case (Suc k)
  let ?p = "length (content s) - footer_size (Suc k)"
  have fs: "footer_size (Suc k) \<le> length (content s)" "length (content s) < size_mod"
    using Suc.prems length_content [OF Suc.prems(1)] by (simp_all add: footer_size_def)
  then have "sub_sz (GetLength io s) (footer_size (Suc k)) = ?p"
    using GetLength [OF Suc.prems(1)] by simp
  moreover obtain s1 where s1: "SeekRead io ?p s = (?p, s1)" "ok s1" "content s1 = content s" "GetReadCursor io s1 = ?p"
    using SeekRead [OF Suc.prems(1), of ?p] by auto
  moreover have "CanRead io (footer_size (Suc k)) s1"
    using CanRead [OF s1(2), of "footer_size (Suc k)"] s1(3,4) fs by simp
  moreover have "Data io s1 = Inr (drop ?p (content s))"
    using Data [OF s1(2)] s1(3,4) by simp
  ultimately have step: "find_checksumSize (Suc (Suc k)) md5 io hb (Suc k) s =
      (if hb = Hash_Of md5 16 [drop ?p (content s)] then Inr (Suc k, s1)
       else find_checksumSize (Suc k) md5 io hb k s1)"
    using fs by (simp add: Let_def slice_def)
  show ?case
    using Suc.IH [OF s1(2)] Suc.prems(2,3) s1(2,3) unfolding step by (auto intro: le_SucI)
qed

lemma Index_new_entrySize_0:
  assumes "ok s" and "content s = bs @ footer_bytes tocHash kb 0 0 0 n check"
    and "length tocHash = 16" and "length check = 16" and "\<forall>x. length (md5 x) = 16"
  shows "Index_new md5 (hex (md5 (footer_bytes tocHash kb 0 0 0 n check))) io s = Inl DivisionByZero"
proof -
  let ?footer = "footer_bytes tocHash kb 0 0 0 n check"
  have lf: "length ?footer = 44" using assms(3,4) by (simp add: footer_bytes_def)
  obtain s1 where s1: "find_checksumSize (Suc 16) md5 io (md5 ?footer) 16 s = Inr (16, s1)" "ok s1" "content s1 = content s"
    using find_checksumSize_first [OF assms(1,2) lf] by blast
  obtain s2 where s2: "SeekRead io (sub_sz (GetLength io s1) (footer_size 16)) s1 = (length bs, s2)"
      "ok s2" "rest s2 = ?footer"
    using SeekRead_footer [OF s1(2) _ lf, of bs] s1(3) assms(2) by metis
  obtain s3 where s3: "read_footer io 16 s2 = Inr ((kb, 0, 0, 0), s3)"
    using read_footer_encoded [OF s2(2,3) assms(3)] by metis
  have "unhex (hex (md5 ?footer)) (replicate (length (hex (md5 ?footer)) div 2) 0) = Inr (md5 ?footer)"
    using assms(5) by (simp add: unhex_ok)
  then show ?thesis using s1(1) s2(1) s3 by (simp add: Index_new_def Let_def)
qed

end

section \<open>Lookup\<close>

lemma Entry_key_of:
  assumes "\<forall>e \<in> set (pre @ e # post). length (i_key e) = ks"
  shows "Entry_key \<lparr>ie_keyOffset = length pre * ks, ie_size = a, ie_offset = b\<rparr> (index_of hash ks (pre @ e # post)) =
    Inr (i_key e)"
proof -
  have "length (concat (map i_key pre)) = length pre * ks"
    using length_concat_same [of "map i_key pre" ks] assms by fastforce
  then show ?thesis using assms by (simp add: Entry_key_def index_of_def slice_def)
qed

lemma find_entry_skip:
  assumes "\<forall>e \<in> set (pre @ es @ post). length (i_key e) = ks" and "needle \<notin> i_key ` set es"
  shows "find_entry (index_of hash ks (pre @ es @ post)) needle (index_entries ks (length pre * ks) es @ rest) =
    find_entry (index_of hash ks (pre @ es @ post)) needle rest"
  using assms
proof (induction es arbitrary: pre)
  case (Cons e es)
  have "find_entry (index_of hash ks ((pre @ [e]) @ es @ post)) needle (index_entries ks (length (pre @ [e]) * ks) es @ rest) =
      find_entry (index_of hash ks ((pre @ [e]) @ es @ post)) needle rest"
    using Cons.prems by (intro Cons.IH) auto
  moreover have "Entry_key \<lparr>ie_keyOffset = length pre * ks, ie_size = i_size e, ie_offset = i_offset e\<rparr>
      (index_of hash ks (pre @ e # es @ post)) = Inr (i_key e)"
    using Cons.prems(1) by (intro Entry_key_of) simp
  ultimately show ?case using Cons.prems(2) by (auto simp: add.commute)
qed simp

lemma find_key_None:
  "needle \<notin> i_key ` set es \<Longrightarrow> find (\<lambda>(i, e). i_key e = needle) (enumerate k es) = None"
  by (induction es arbitrary: k) auto

lemma Index_lookup_index_of:
  assumes "\<forall>e \<in> set es. length (i_key e) = ks" and "key_wf key"
  shows "Index_lookup (index_of hash ks es) key = Inr (case find (\<lambda>(i, e). i_key e = k_data key) (enumerate 0 es) of
      None \<Rightarrow> None
    | Some (i, e) \<Rightarrow> Some \<lparr>ie_keyOffset = i * ks, ie_size = i_size e, ie_offset = i_offset e\<rparr>)"
proof -
  have data: "Key_data key = Inr (k_data key)" using assms(2) by (simp add: Key_data_def key_wf_def slice_def)
  have entries: "ix_entries (index_of hash ks fs) = index_entries ks (length ([] :: ientry list) * ks) fs @ []" for fs
    by (simp add: index_of_def)
  show ?thesis
  proof (cases "k_data key \<in> i_key ` set es")
    case False
    then have "find (\<lambda>(i, e). i_key e = k_data key) (enumerate 0 es) = None"
      by (rule find_key_None)
    then show ?thesis
      using find_entry_skip [of "[]" es "[]" ks "k_data key" hash "[]"] False assms(1) data entries
      by (simp add: Index_lookup_def)
  next
    case True
    then obtain pre e post where es: "es = pre @ e # post" "i_key e = k_data key" "k_data key \<notin> i_key ` set pre"
      using split_list_first_prop [of es "\<lambda>e. i_key e = k_data key"] by (auto simp: image_iff) metis
    have "find (\<lambda>(i, e). i_key e = k_data key) (enumerate 0 es) = Some (length pre, e)"
      using es(2) find_key_None [OF es(3)] unfolding es(1)
      by (simp add: enumerate_append_eq find_append_case)
    moreover have "find_entry (index_of hash ks es) (k_data key) (ix_entries (index_of hash ks es)) =
        Inr (Some \<lparr>ie_keyOffset = length pre * ks, ie_size = i_size e, ie_offset = i_offset e\<rparr>)"
      using find_entry_skip [of "[]" pre "e # post" ks "k_data key" hash
          "index_entries ks (length pre * ks) (e # post)"] es assms(1) Entry_key_of [of pre e post ks]
      by (simp add: index_entries_append entries)
    ultimately show ?thesis using data by (simp add: Index_lookup_def)
  qed
qed

text \<open>The first entry with a key, its place forgotten.\<close>

lemma find_enumerate: "map_option snd (find (\<lambda>(i, e). P e) (enumerate k es)) = find P es"
  by (induction es arbitrary: k) auto

lemma Index_lookup_find:
  assumes "\<forall>e \<in> set es. length (i_key e) = ks" and "key_wf key"
  obtains (missing) "Index_lookup (index_of hash ks es) key = Inr None" "find (\<lambda>e. i_key e = k_data key) es = None"
  | (found) x e where "Index_lookup (index_of hash ks es) key = Inr (Some x)" "find (\<lambda>e. i_key e = k_data key) es = Some e"
    "ie_size x = i_size e" "ie_offset x = i_offset e"
proof (cases "find (\<lambda>(i, e). i_key e = k_data key) (enumerate 0 es)")
  case None
  then show thesis
    using missing Index_lookup_index_of [OF assms, of hash] find_enumerate [of "\<lambda>e. i_key e = k_data key" 0 es] by simp
next
  case (Some p)
  obtain i e where "p = (i, e)" by (cases p)
  with Some show thesis
    using Index_lookup_index_of [OF assms, of hash] find_enumerate [of "\<lambda>e. i_key e = k_data key" 0 es]
    by (intro found [of "\<lparr>ie_keyOffset = i * ks, ie_size = i_size e, ie_offset = i_offset e\<rparr>" e]) simp_all
qed

section \<open>Properties\<close>


text \<open>Looking up an encoding key returns the size and offset of the first entry that has the key, and
  nothing when there is none; the key buffer is never indexed out of bounds.\<close>

theorem Index_lookup_first:
  assumes "\<forall>e \<in> set es. length (i_key e) = ks" and "key_wf key"
  shows "Index_lookup (index_of hash ks es) key = Inr (case find (\<lambda>(i, e). i_key e = k_data key) (enumerate 0 es) of
      None \<Rightarrow> None
    | Some (i, e) \<Rightarrow> Some \<lparr>ie_keyOffset = i * ks, ie_size = i_size e, ie_offset = i_offset e\<rparr>)"
  using assms by (rule Index_lookup_index_of)

text \<open>The search for the checksum size ends with a size of at most sixteen on every file that is long
  enough for a footer. The guard against shorter files does not work: on a mapped file its sum wraps
  around as the position does, and the data is taken out of bounds; on a memory stream, that clamps
  the position, the loop goes on for ever. An index whose footer has sizes of zero makes the
  constructor divide by zero.\<close>

theorem Index_new_hazards:
  "(FileStream_ok f \<and> 44 \<le> length (fs_stream f) \<longrightarrow>
      (\<exists>k s'. find_checksumSize 17 md5_fun FileStream_vt hb 16 f = Inr (k, s') \<and> k \<le> 16)) \<and>
   (length (fs_stream f) < 44 \<and> even (length hash) \<longrightarrow>
      Index_new md5_fun hash FileStream_vt f = Inl OutOfBounds) \<and>
   (length (gs_data g) < 44 \<longrightarrow>
      find_checksumSize fuel md5_fun GrowableMemoryStream_vt hb 16 g = Inl Diverges) \<and>
   (FileStream_ok f \<and> fs_stream f = bs @ footer_bytes tocHash kb 0 0 0 n check \<and>
      length tocHash = 16 \<and> length check = 16 \<and> (\<forall>x. length (md5_fun x) = 16) \<longrightarrow>
      Index_new md5_fun (hex (md5_fun (footer_bytes tocHash kb 0 0 0 n check))) FileStream_vt f = Inl DivisionByZero)"
proof (intro conjI impI; (elim conjE)?)
  assume "FileStream_ok f" "44 \<le> length (fs_stream f)"
  then show "\<exists>k s'. find_checksumSize 17 md5_fun FileStream_vt hb 16 f = Inr (k, s') \<and> k \<le> 16"
    using fstream.find_checksumSize_total [of f 16 md5_fun hb] by (auto simp: footer_size_def eval_nat_numeral)
next
  assume short: "length (fs_stream f) < 44" "even (length hash)"
  let ?w = "length (fs_stream f) + size_mod - 44"
  have w: "sub_sz (length (fs_stream f)) 44 = ?w" "add_sz ?w 44 = length (fs_stream f)"
    "sub_sz (length (fs_stream f)) ?w = 44" "length (fs_stream f) < ?w" "0 < size_mod"
    using short(1) by (simp_all add: sub_sz_def add_sz_def size_mod_def mod_if)
  have "unhex hash (replicate (length hash div 2) 0) = Inr (unhex_bytes hash)"
    using short(2) by (simp add: unhex_ok)
  moreover have "find_checksumSize (Suc 16) md5_fun FileStream_vt (unhex_bytes hash) 16 f = Inl OutOfBounds"
    using w unfolding find_checksumSize.simps
    by (simp add: Let_def footer_size_def FileStream_vt_def FileStream_SeekRead_def FileStream_CanRead_def
        FileStream_Data_def subspan_def size_mod_def)
  ultimately show "Index_new md5_fun hash FileStream_vt f = Inl OutOfBounds"
    by (simp add: Index_new_def)
next
  assume short: "length (gs_data g) < 44"
  let ?w = "length (gs_data g) + size_mod - 44"
  have "sub_sz (length (gs_data g)) 44 = ?w" "min ?w (length (gs_data g)) = length (gs_data g)"
    "\<not> add_sz (length (gs_data g)) 44 \<le> length (gs_data g)"
    using short by (simp_all add: sub_sz_def add_sz_def size_mod_def mod_if)
  then show "find_checksumSize fuel md5_fun GrowableMemoryStream_vt hb 16 g = Inl Diverges"
    using short
    by (induction fuel arbitrary: g) (simp_all add: Let_def footer_size_def GrowableMemoryStream_vt_def
        GrowableMemoryStream_SeekRead_def GrowableMemoryStream_CanRead_def)
next
  assume "FileStream_ok f" "fs_stream f = bs @ footer_bytes tocHash kb 0 0 0 n check"
    "length tocHash = 16" "length check = 16" "\<forall>x. length (md5_fun x) = 16"
  then show "Index_new md5_fun (hex (md5_fun (footer_bytes tocHash kb 0 0 0 n check))) FileStream_vt f = Inl DivisionByZero"
    by (rule fstream.Index_new_entrySize_0)
qed

definition example_ientry :: ientry where
  "example_ientry = \<lparr>i_key = [1, 2], i_size = 7, i_offset = 9\<rparr>"


lemma Index_lookup_first_witness:
  "Index_lookup (index_of ''x'' 2 [example_ientry]) (Key_of_span [1, 2]) =
    Inr (Some \<lparr>ie_keyOffset = 0, ie_size = 7, ie_offset = 9\<rparr>)"
proof -
  have "k_data (Key_of_span [1, 2]) = [1, 2]" by (simp add: Key_of_span_def)
  then show ?thesis
    using Index_lookup_first [of "[example_ientry]" 2 "Key_of_span [1, 2]" "''x''"] by (simp add: example_ientry_def)
qed

lemma Index_new_hazards_witness:
  "find_checksumSize 1000000 (\<lambda>bs. bs) GrowableMemoryStream_vt [] 16 (GrowableMemoryStream_new [1, 2, 3]) = Inl Diverges \<and>
   Index_new (\<lambda>bs. bs) ''00'' FileStream_vt (FileStream_new (Some [1, 2, 3])) = Inl OutOfBounds"
  using Index_new_hazards [where f = "FileStream_new (Some [1, 2, 3])" and g = "GrowableMemoryStream_new [1, 2, 3]"
      and fuel = 1000000 and hash = "''00''" and md5_fun = "\<lambda>bs. bs" and hb = "[]"]
  by (simp add: FileStream_new_def GrowableMemoryStream_new_def)

end
