(* ===== verification/Install.thy ===== *)
theory Install
  imports Reads Key FileLocation
begin

text \<open>
  \<^verbatim>\<open>libtactmon/tact/data/Install.cpp\<close>: the install manifest, which maps the paths of the installed files
  to their content keys. Its tags select files by a bit mask with a bit for each file.
\<close>

record Tag =
  tg_name :: string
  tg_type :: byte
  tg_bitmaskSize :: nat
  tg_bitmask :: "byte list"

record InstallEntry =
  in_name :: string
  in_fileSize :: nat
  in_hash :: CKey

record Install =
  in_tags :: "Tag list"
  in_entries :: "InstallEntry list"

text \<open>The type has two bytes in the file and one in the object.\<close>

definition Tag_read :: "'s readable \<Rightarrow> nat \<Rightarrow> string \<Rightarrow> 's \<Rightarrow> (Tag \<times> 's) result" where
  "Tag_read io bitmaskSize name s =
     bindr (ReadValue io Big s) (\<lambda>(type :: u16, s).
     bindr (ReadBytes io (replicate ((bitmaskSize + 7) div 8) 0) Little s) (\<lambda>(bitmask, _, s).
       Inr (\<lparr>tg_name = name, tg_type = ucast type, tg_bitmaskSize = bitmaskSize, tg_bitmask = bitmask\<rparr>, s)))"

text \<open>The copy constructor and assignment: an array of \<^verbatim>\<open>_bitmaskSize\<close> bytes, and as many are copied.\<close>

definition Tag_copy :: "Tag \<Rightarrow> Tag result" where
  "Tag_copy other = bindr (subspan 0 (tg_bitmaskSize other) (tg_bitmask other)) (\<lambda>bitmask.
     Inr \<lparr>tg_name = tg_name other, tg_type = tg_type other, tg_bitmaskSize = tg_bitmaskSize other,
       tg_bitmask = bitmask\<rparr>)"

text \<open>The move constructor copies the name, the move assignment takes it.\<close>

definition Tag_move :: "Tag \<Rightarrow> Tag \<times> Tag" where
  "Tag_move other = (other, other\<lparr>tg_bitmaskSize := 0, tg_bitmask := []\<rparr>)"

definition Tag_move_assign :: "Tag \<Rightarrow> Tag \<times> Tag" where
  "Tag_move_assign other = (other, other\<lparr>tg_name := [], tg_bitmaskSize := 0, tg_bitmask := []\<rparr>)"

definition Tag_Matches :: "Tag \<Rightarrow> nat \<Rightarrow> bool" where
  "Tag_Matches tag fileIndex \<longleftrightarrow> False"

definition InstallEntry_read :: "'s readable \<Rightarrow> nat \<Rightarrow> string \<Rightarrow> 's \<Rightarrow> (InstallEntry \<times> 's) result" where
  "InstallEntry_read io hashSize name s =
     bindr (Data io s) (\<lambda>view.
     bindr (subspan 0 hashSize view) (\<lambda>hash.
     let s = SkipRead io hashSize s in
     bindr (ReadValue io Big s) (\<lambda>(fileSize :: u32, s).
       Inr (\<lparr>in_name = name, in_fileSize = unat fileSize, in_hash = Key_of_span hash\<rparr>, s))))"

primrec install_tags :: "nat \<Rightarrow> 's readable \<Rightarrow> nat \<Rightarrow> Tag list \<Rightarrow> 's \<Rightarrow> (Tag list \<times> 's) result" where
  "install_tags 0 io numEntries tags s = Inr (tags, s)"
| "install_tags (Suc n) io numEntries tags s =
     bindr (ReadCString io s) (\<lambda>(tagName, _, s).
     bindr (Tag_read io numEntries tagName s) (\<lambda>(tag, s).
       install_tags n io numEntries (tags @ [tag]) s))"

primrec install_entries ::
  "nat \<Rightarrow> 's readable \<Rightarrow> nat \<Rightarrow> InstallEntry list \<Rightarrow> 's \<Rightarrow> (InstallEntry list \<times> 's) result" where
  "install_entries 0 io hashSize entries s = Inr (entries, s)"
| "install_entries (Suc n) io hashSize entries s =
     bindr (ReadCString io s) (\<lambda>(name, _, s).
     bindr (InstallEntry_read io hashSize name s) (\<lambda>(entry, s).
       install_entries n io hashSize (entries @ [entry]) s))"

definition Install_Parse :: "'s readable \<Rightarrow> 's \<Rightarrow> (Install option \<times> 's) result" where
  "Install_Parse io s =
     (if \<not> CanRead io (2 + 1 + 1 + 2 + 4) s then Inr (None, s)
      else
        bindr (ReadValue io Big s) (\<lambda>(signature :: u16, s).
        bindr (ReadValue io native s) (\<lambda>(version :: byte, s).
        bindr (ReadValue io native s) (\<lambda>(hashSize :: byte, s).
        bindr (ReadValue io Big s) (\<lambda>(numTags :: u16, s).
        bindr (ReadValue io Big s) (\<lambda>(numEntries :: u32, s).
        bindr (install_tags (unat numTags) io (unat numEntries) [] s) (\<lambda>(tags, s).
        bindr (install_entries (unat numEntries) io (unat hashSize) [] s) (\<lambda>(entries, s).
          Inr (Some \<lparr>in_tags = tags, in_entries = entries\<rparr>, s)))))))))"

definition Install_FindFile :: "Install \<Rightarrow> string \<Rightarrow> CKey option" where
  "Install_FindFile i fileName = map_option in_hash (find (\<lambda>entry. in_name entry = fileName) (in_entries i))"

section \<open>The format\<close>

definition tag_bytes :: "string \<times> u16 \<times> byte list \<Rightarrow> byte list" where
  "tag_bytes = (\<lambda>(name, type, mask). cstring name @ be type @ mask)"

definition tag_ok :: "nat \<Rightarrow> string \<times> u16 \<times> byte list \<Rightarrow> bool" where
  "tag_ok n = (\<lambda>(name, type, mask). cstring_ok name \<and> length mask = (n + 7) div 8)"

definition tag_of :: "nat \<Rightarrow> string \<times> u16 \<times> byte list \<Rightarrow> Tag" where
  "tag_of n = (\<lambda>(name, type, mask).
     \<lparr>tg_name = name, tg_type = ucast type, tg_bitmaskSize = n, tg_bitmask = mask\<rparr>)"

definition install_entry_bytes :: "string \<times> byte list \<times> u32 \<Rightarrow> byte list" where
  "install_entry_bytes = (\<lambda>(name, hash, fileSize). cstring name @ hash @ be fileSize)"

definition install_entry_ok :: "nat \<Rightarrow> string \<times> byte list \<times> u32 \<Rightarrow> bool" where
  "install_entry_ok hs = (\<lambda>(name, hash, fileSize). cstring_ok name \<and> length hash = hs)"

definition install_entry_of :: "string \<times> byte list \<times> u32 \<Rightarrow> InstallEntry" where
  "install_entry_of = (\<lambda>(name, hash, fileSize).
     \<lparr>in_name = name, in_fileSize = unat fileSize, in_hash = Key_of_span hash\<rparr>)"

definition install_bytes ::
  "u16 \<Rightarrow> byte \<Rightarrow> byte \<Rightarrow> (string \<times> u16 \<times> byte list) list \<Rightarrow> (string \<times> byte list \<times> u32) list \<Rightarrow> byte list" where
  "install_bytes signature version hashSize tags entries =
     be signature @ [version, hashSize] @ be (of_nat (length tags) :: u16) @ be (of_nat (length entries) :: u32)
     @ concat (map tag_bytes tags) @ concat (map install_entry_bytes entries)"

context readable_stream
begin

lemma reads_tag:
  assumes "tag_ok n (name, type, bm)"
  shows "reads (Tag_read io n name) (be type @ bm) (tag_of n (name, type, bm))"
proof -
  have len: "length bm = (n + 7) div 8" using assms by (simp add: tag_ok_def)
  have "reads (Tag_read io n name) (be type @ bm @ []) (tag_of n (name, type, bm))"
    unfolding Tag_read_def [abs_def] tag_of_def prod.case
    by (rule reads_step reads_bind3 reads_bytes len)+
  then show ?thesis by simp
qed

lemma reads_tags:
  assumes "\<forall>t \<in> set tags. tag_ok n t"
  shows "reads (install_tags (length tags) io n acc) (concat (map tag_bytes tags)) (acc @ map (tag_of n) tags)"
  using assms
proof (induction tags arbitrary: acc)
  case Nil
  show ?case unfolding list.size(3) install_tags.simps [abs_def] by (simp add: reads_return)
next
  case (Cons t tags)
  obtain name type bm where t: "t = (name, type, bm)" by (cases t) auto
  then have ok: "tag_ok n (name, type, bm)" "cstring_ok name" using Cons.prems by (auto simp: tag_ok_def)
  have "reads (install_tags (Suc (length tags)) io n acc)
      (cstring name @ (be type @ bm) @ concat (map tag_bytes tags)) (acc @ tag_of n t # map (tag_of n) tags)"
    unfolding install_tags.simps [abs_def]
    by (rule reads_bind3 [OF reads_cstring [OF ok(2)]], rule reads_bind [OF reads_tag [OF ok(1)]])
      (use Cons.IH [of "acc @ [tag_of n t]"] Cons.prems t in simp)
  then show ?case by (simp add: t tag_bytes_def del: install_tags.simps)
qed

lemma reads_entry:
  assumes "install_entry_ok hs (name, hash, fileSize)"
  shows "reads (InstallEntry_read io hs name) (hash @ be fileSize) (install_entry_of (name, hash, fileSize))"
proof -
  have "reads (\<lambda>s. bindr (ReadValue io Big s) (\<lambda>(v :: u32, s).
      Inr (\<lparr>in_name = name, in_fileSize = unat v, in_hash = Key_of_span hash\<rparr>, s)))
      (be fileSize @ []) (install_entry_of (name, hash, fileSize))"
    unfolding install_entry_of_def prod.case by (rule reads_step)+
  then show ?thesis
    using assms unfolding InstallEntry_read_def [abs_def] Let_def
    by (intro reads_span) (simp_all add: install_entry_ok_def)
qed

lemma reads_entries:
  assumes "\<forall>e \<in> set entries. install_entry_ok hs e"
  shows "reads (install_entries (length entries) io hs acc) (concat (map install_entry_bytes entries))
    (acc @ map install_entry_of entries)"
  using assms
proof (induction entries arbitrary: acc)
  case Nil
  show ?case unfolding list.size(3) install_entries.simps [abs_def] by (simp add: reads_return)
next
  case (Cons e entries)
  obtain name hash fileSize where e: "e = (name, hash, fileSize)" by (cases e) auto
  then have ok: "install_entry_ok hs (name, hash, fileSize)" "cstring_ok name"
    using Cons.prems by (auto simp: install_entry_ok_def)
  have "reads (install_entries (Suc (length entries)) io hs acc)
      (cstring name @ (hash @ be fileSize) @ concat (map install_entry_bytes entries))
      (acc @ install_entry_of e # map install_entry_of entries)"
    unfolding install_entries.simps [abs_def]
    by (rule reads_bind3 [OF reads_cstring [OF ok(2)]], rule reads_bind [OF reads_entry [OF ok(1)]])
      (use Cons.IH [of "acc @ [install_entry_of e]"] Cons.prems e in simp)
  then show ?case by (simp add: e install_entry_bytes_def del: install_entries.simps)
qed

lemma Install_Parse_encoded:
  assumes "ok s" and "rest s = install_bytes signature version hashSize tags entries @ tail"
    and "length tags < 2 ^ 16" and "length entries < 2 ^ 32" and "length (content s) < size_mod - 10"
    and "\<forall>t \<in> set tags. tag_ok (length entries) t" and "\<forall>e \<in> set entries. install_entry_ok (unat hashSize) e"
  shows "\<exists>s'. Install_Parse io s =
    Inr (Some \<lparr>in_tags = map (tag_of (length entries)) tags, in_entries = map install_entry_of entries\<rparr>, s')"
proof -
  have n: "unat (of_nat (length tags) :: u16) = length tags" "unat (of_nat (length entries) :: u32) = length entries"
    using assms(3,4) by (simp_all add: unat_of_nat take_bit_nat_eq_self)
  have "CanRead io 10 s"
    using CanRead_rest [OF assms(1), of 10] assms(2,5) by (simp add: install_bytes_def)
  moreover have "reads (\<lambda>s.
        bindr (ReadValue io Big s) (\<lambda>(signature :: u16, s).
        bindr (ReadValue io native s) (\<lambda>(version :: byte, s).
        bindr (ReadValue io native s) (\<lambda>(hashSize :: byte, s).
        bindr (ReadValue io Big s) (\<lambda>(numTags :: u16, s).
        bindr (ReadValue io Big s) (\<lambda>(numEntries :: u32, s).
        bindr (install_tags (unat numTags) io (unat numEntries) [] s) (\<lambda>(tags, s).
        bindr (install_entries (unat numEntries) io (unat hashSize) [] s) (\<lambda>(entries, s).
          Inr (Some \<lparr>in_tags = tags, in_entries = entries\<rparr>, s)))))))))
      (be signature @ [version] @ [hashSize] @ be (of_nat (length tags) :: u16) @ be (of_nat (length entries) :: u32)
        @ concat (map tag_bytes tags) @ concat (map install_entry_bytes entries) @ [])
      (Some \<lparr>in_tags = [] @ map (tag_of (length entries)) tags, in_entries = [] @ map install_entry_of entries\<rparr>)"
    by ((rule reads_step)+, simp add: n, rule reads_tags [OF assms(6)], rule reads_bind, simp add: n,
        rule reads_entries [OF assms(7)], rule reads_return)
  then obtain s' where "bindr (ReadValue io Big s) (\<lambda>(signature :: u16, s).
        bindr (ReadValue io native s) (\<lambda>(version :: byte, s).
        bindr (ReadValue io native s) (\<lambda>(hashSize :: byte, s).
        bindr (ReadValue io Big s) (\<lambda>(numTags :: u16, s).
        bindr (ReadValue io Big s) (\<lambda>(numEntries :: u32, s).
        bindr (install_tags (unat numTags) io (unat numEntries) [] s) (\<lambda>(tags, s).
        bindr (install_entries (unat numEntries) io (unat hashSize) [] s) (\<lambda>(entries, s).
          Inr (Some \<lparr>in_tags = tags, in_entries = entries\<rparr>, s)))))))) =
      Inr (Some \<lparr>in_tags = [] @ map (tag_of (length entries)) tags, in_entries = [] @ map install_entry_of entries\<rparr>, s')"
    by (rule readsE [OF _ assms(1), of _ _ _ tail]) (simp add: assms(2) install_bytes_def)
  ultimately show ?thesis by (simp add: Install_Parse_def)
qed

end

section \<open>Properties\<close>

text \<open>An install manifest with any number of tags and files is parsed completely; \<^verbatim>\<open>FindFile\<close> returns
  the content key of the first file with the path, and nothing when there is none.\<close>

theorem Install_Parse_roundtrip:
  assumes "length tags < 2 ^ 16" and "length entries < 2 ^ 32"
    and "length (install_bytes signature version hashSize tags entries) < size_mod - 10"
    and "\<forall>t \<in> set tags. tag_ok (length entries) t" and "\<forall>e \<in> set entries. install_entry_ok (unat hashSize) e"
  shows "\<exists>i s'. Install_Parse FileStream_vt (FileStream_new (Some (install_bytes signature version hashSize tags entries))) =
      Inr (Some i, s') \<and>
    in_tags i = map (tag_of (length entries)) tags \<and> in_entries i = map install_entry_of entries \<and>
    Install_FindFile i path =
      map_option (\<lambda>(_, hash, _). Key_of_span hash) (find (\<lambda>(name, _, _). name = path) entries)"
proof -
  let ?f = "FileStream_new (Some (install_bytes signature version hashSize tags entries))"
  have "FileStream_ok ?f" "rest_of FileStream_vt fs_stream ?f = install_bytes signature version hashSize tags entries @ []"
    "length (fs_stream ?f) < size_mod - 10"
    using assms(3) by (auto simp: FileStream_new_def FileStream_ok_def rest_of_def install_bytes_def)
  then obtain s' where "Install_Parse FileStream_vt ?f =
      Inr (Some \<lparr>in_tags = map (tag_of (length entries)) tags, in_entries = map install_entry_of entries\<rparr>, s')"
    using fstream.Install_Parse_encoded [OF _ _ assms(1,2) _ assms(4,5)] by blast
  moreover have "map_option in_hash (find (\<lambda>entry. in_name entry = path) (map install_entry_of entries)) =
      map_option (\<lambda>(_, hash, _). Key_of_span hash) (find (\<lambda>(name, _, _). name = path) entries)"
    by (induction entries) (auto simp: install_entry_of_def)
  ultimately show ?thesis by (auto simp: Install_FindFile_def)
qed

text \<open>A tag that was read for a manifest of \<open>n\<close> files cannot be copied when there are at least two of
  them: the copy takes a byte for each file out of an array with a bit for each; with at most one
  file the copy is equal to the tag. The type of a tag loses its high byte, and no tag matches a file.\<close>

theorem Install_Tag_copy:
  assumes "FileStream_ok s" and "Tag_read FileStream_vt n name s = Inr (tag, s')"
  shows "Tag_copy tag = (if 2 \<le> n then Inl OutOfBounds else Inr tag) \<and>
    (\<exists>type :: u16. tg_type tag = ucast type) \<and> \<not> Tag_Matches tag i"
proof -
  obtain type :: u16 and s1 where s1: "ReadValue FileStream_vt Big s = Inr (type, s1)"
      "bindr (ReadBytes FileStream_vt (replicate ((n + 7) div 8) 0) Little s1) (\<lambda>(bitmask, _, s).
        Inr (\<lparr>tg_name = name, tg_type = ucast type, tg_bitmaskSize = n, tg_bitmask = bitmask\<rparr>, s)) = Inr (tag, s')"
    using assms(2) by (auto simp: Tag_read_def bindr_eq_Inr)
  then obtain bm k where bm: "ReadBytes FileStream_vt (replicate ((n + 7) div 8) 0) Little s1 = Inr (bm, k, s')"
      "tag = \<lparr>tg_name = name, tg_type = ucast type, tg_bitmaskSize = n, tg_bitmask = bm\<rparr>"
    by (auto simp: bindr_eq_Inr)
  have "length bm = (n + 7) div 8"
    using bm(1) by (auto simp: ReadBytes_def ReadSpan_def native_def bindr_eq_Inr FileStream_ReadImpl_def Let_def
        subspan_eq_Inr)
  moreover have "(n + 7) div 8 < n" if "2 \<le> n"
    using that by linarith
  moreover have "(n + 7) div 8 = n" if "n < 2"
    using that by (auto simp: less_2_cases_iff)
  ultimately show ?thesis
    using bm(2) by (auto simp: Tag_copy_def Tag_Matches_def subspan_def slice_def)
qed

lemma Install_Parse_roundtrip_witness:
  "\<exists>i s'. Install_Parse FileStream_vt (FileStream_new (Some (install_bytes 0x494E 1 2
      [(''Windows'', 2, [0x80])] [(''a.exe'', [1, 2], 7), (''b.exe'', [3, 4], 9)]))) = Inr (Some i, s') \<and>
    Install_FindFile i ''b.exe'' = Some (Key_of_span [3, 4])"
  using Install_Parse_roundtrip [where tags = "[(''Windows'', 2, [0x80])]" and signature = "0x494E" and version = 1 and
      entries = "[(''a.exe'', [1, 2], 7), (''b.exe'', [3, 4], 9)]" and hashSize = 2 and path = "''b.exe''"]
  by (auto simp: install_bytes_def tag_bytes_def install_entry_bytes_def tag_ok_def install_entry_ok_def size_mod_def
      cstring_ok_def byte_of_char_zero)

lemma Install_Tag_copy_witness:
  "\<exists>tag s'. Tag_read FileStream_vt 9 ''t'' (FileStream_new (Some [1, 2, 3, 4])) = Inr (tag, s') \<and>
    Tag_copy tag = Inl OutOfBounds"
proof -
  have ok: "FileStream_ok (FileStream_new (Some [1, 2, 3, 4]))"
    by (simp add: FileStream_new_def FileStream_ok_def size_mod_def)
  have "tag_ok 9 (''t'', 0x102, [3, 4])" "be (0x102 :: u16) = [1, 2]"
    by (simp_all add: tag_ok_def cstring_ok_def byte_of_char_zero be_def bytes_of_def upt_rec)
  then have "\<exists>s'. Tag_read FileStream_vt 9 ''t'' (FileStream_new (Some [1, 2, 3, 4])) = Inr (tag_of 9 (''t'', 0x102, [3, 4]), s')"
    using fstream.reads_tag [of 9 "''t''" "0x102" "[3, 4]"] ok
    by (auto simp: reads_to_def rest_of_def FileStream_new_def)
  then show ?thesis using Install_Tag_copy [OF ok] by fastforce
qed

end
