(* ===== verification/Root.thy ===== *)
theory Root
  imports Reads Key FileLocation Lookup3
begin

text \<open>
  \<^verbatim>\<open>libtactmon/tact/data/product/wow/Root.cpp\<close>: the root manifest of World of Warcraft, which maps file
  data identifiers and hashes of paths to content keys. Its blocks are parsed by the tasks of a
  thread pool, which share nothing; their results are collected in the order of the blocks.
\<close>

unbundle bit_operations_syntax

record RootEntry =
  re_ContentKey :: CKey
  re_FileDataID :: u32
  re_NameHash :: u64

record Block =
  bl_Content :: u32
  bl_Locales :: u32
  bl_entries :: "RootEntry list"

type_synonym Root = "Block list"

text \<open>The data of a page is a span into the stream: what the stream holds from its start on, and its length.\<close>

record PageInfo =
  pi_numRecords :: u32
  pi_contentFlags :: u32
  pi_localeFlags :: u32
  pi_data :: "(byte list \<times> nat) option"

definition NoNameHash :: u32 where
  "NoNameHash = 0x10000000"

text \<open>\<^verbatim>\<open>Data<uint32_t>()\<close>: the bytes as whole integers.\<close>

fun u32_array :: "byte list \<Rightarrow> u32 list" where
  "u32_array (a # b # c # d # bs) = word_of [a, b, c, d] # u32_array bs"
| "u32_array _ = []"

definition next_fileDataID :: "u32 \<Rightarrow> u32 \<Rightarrow> u32" where
  "next_fileDataID fileDataID delta = fileDataID + (to_endianness Little native delta + 1)"

text \<open>The three loops over the records of a block.\<close>

primrec interleaved_records ::
  "nat \<Rightarrow> nat \<Rightarrow> nat \<Rightarrow> u32 list \<Rightarrow> u32 \<Rightarrow> RootEntry list \<Rightarrow> SpanStream \<Rightarrow> RootEntry list result" where
  "interleaved_records 0 i contentKeySize fileDataIDs fileDataID entries stream = Inr entries"
| "interleaved_records (Suc n) i contentKeySize fileDataIDs fileDataID entries stream =
     bindr (at fileDataIDs i) (\<lambda>delta.
     let fileDataID = next_fileDataID fileDataID delta in
     bindr (Data SpanStream_vt stream) (\<lambda>view.
     bindr (subspan 0 contentKeySize view) (\<lambda>hashSpan.
     bindr (ReadValue SpanStream_vt Little (SkipRead SpanStream_vt contentKeySize stream)) (\<lambda>(nameHash :: u64, stream).
       interleaved_records n (i + 1) contentKeySize fileDataIDs fileDataID
         (entries @ [\<lparr>re_ContentKey = Key_of_span hashSpan, re_FileDataID = fileDataID, re_NameHash = nameHash\<rparr>])
         stream))))"

primrec named_records ::
  "nat \<Rightarrow> nat \<Rightarrow> nat \<Rightarrow> u32 list \<Rightarrow> byte list \<Rightarrow> u32 \<Rightarrow> RootEntry list \<Rightarrow> SpanStream \<Rightarrow> RootEntry list result" where
  "named_records 0 i contentKeySize fileDataIDs hashSpan fileDataID entries stream = Inr entries"
| "named_records (Suc n) i contentKeySize fileDataIDs hashSpan fileDataID entries stream =
     bindr (at fileDataIDs i) (\<lambda>delta.
     let fileDataID = next_fileDataID fileDataID delta in
     bindr (ReadValue SpanStream_vt Little stream) (\<lambda>(nameHash :: u64, stream).
     bindr (subspan (i * contentKeySize) contentKeySize hashSpan) (\<lambda>hash.
       named_records n (i + 1) contentKeySize fileDataIDs hashSpan fileDataID
         (entries @ [\<lparr>re_ContentKey = Key_of_span hash, re_FileDataID = fileDataID, re_NameHash = nameHash\<rparr>]) stream)))"

primrec unnamed_records ::
  "nat \<Rightarrow> nat \<Rightarrow> nat \<Rightarrow> u32 list \<Rightarrow> byte list \<Rightarrow> u32 \<Rightarrow> RootEntry list \<Rightarrow> RootEntry list result" where
  "unnamed_records 0 i contentKeySize fileDataIDs hashSpan fileDataID entries = Inr entries"
| "unnamed_records (Suc n) i contentKeySize fileDataIDs hashSpan fileDataID entries =
     bindr (at fileDataIDs i) (\<lambda>delta.
     let fileDataID = next_fileDataID fileDataID delta in
     bindr (subspan (i * contentKeySize) contentKeySize hashSpan) (\<lambda>hash.
       unnamed_records n (i + 1) contentKeySize fileDataIDs hashSpan fileDataID
         (entries @ [\<lparr>re_ContentKey = Key_of_span hash, re_FileDataID = fileDataID, re_NameHash = 0\<rparr>])))"

definition ParseBlock :: "PageInfo \<Rightarrow> nat \<Rightarrow> bool \<Rightarrow> bool \<Rightarrow> Block option result" where
  "ParseBlock pageInfo contentKeySize interleave canSkip = (case pi_data pageInfo of None \<Rightarrow> Inl Thrown
   | Some (memory, sz) \<Rightarrow>
     let n = unat (pi_numRecords pageInfo);
         stream = SpanStream_new memory 0 sz;
         block = (\<lambda>entries. Some \<lparr>bl_Content = pi_contentFlags pageInfo, bl_Locales = pi_localeFlags pageInfo,
           bl_entries = entries\<rparr>)
     in
     bindr (Data SpanStream_vt stream) (\<lambda>view.
     bindr (subspan 0 n (u32_array view)) (\<lambda>fileDataIDs.
     let stream = SkipRead SpanStream_vt (n * 4) stream in
     if interleave
     then bindr (interleaved_records n 0 contentKeySize fileDataIDs (- 1) [] stream) (\<lambda>entries. Inr (block entries))
     else
       bindr (Data SpanStream_vt stream) (\<lambda>view.
       bindr (subspan 0 (mul_sz n contentKeySize) view) (\<lambda>hashSpan.
       let stream = SkipRead SpanStream_vt (length hashSpan) stream in
       if \<not> canSkip \<or> pi_contentFlags pageInfo AND NoNameHash = 0
       then bindr (named_records n 0 contentKeySize fileDataIDs hashSpan (- 1) [] stream) (\<lambda>entries. Inr (block entries))
       else bindr (unnamed_records n 0 contentKeySize fileDataIDs hashSpan (- 1) []) (\<lambda>entries. Inr (block entries)))))))"

text \<open>The number of bytes of a page behind its header.\<close>

definition page_length :: "u32 \<Rightarrow> u32 \<Rightarrow> nat \<Rightarrow> bool \<Rightarrow> bool \<Rightarrow> nat" where
  "page_length numRecords contentFlags contentKeySize interleave canSkip =
     (let n = unat numRecords; sz = add_sz (mul_sz 4 n) (mul_sz contentKeySize n) in
      if interleave \<or> \<not> canSkip \<or> contentFlags AND NoNameHash = 0 then add_sz sz (mul_sz 8 n) else sz)"

text \<open>The loop over the pages. Each iteration consumes the twelve bytes of a header: \<open>fuel\<close> is the length of the
  stream and one more (\<open>root_pages_returns\<close>).\<close>

primrec root_pages ::
  "nat \<Rightarrow> 's readable \<Rightarrow> nat \<Rightarrow> bool \<Rightarrow> bool \<Rightarrow> PageInfo list \<Rightarrow> 's \<Rightarrow> (PageInfo list option \<times> 's) result" where
  "root_pages 0 io contentKeySize interleave canSkip pages s = Inl Diverges"
| "root_pages (Suc fuel) io contentKeySize interleave canSkip pages s =
     (if GetReadCursor io s < GetLength io s
      then if \<not> CanRead io 12 s then Inr (None, s)
        else
          bindr (ReadValue io Little s) (\<lambda>(numRecords :: u32, s).
          bindr (ReadValue io Little s) (\<lambda>(contentFlags :: u32, s).
          bindr (ReadValue io Little s) (\<lambda>(localeFlags :: u32, s).
          let sz = page_length numRecords contentFlags contentKeySize interleave canSkip in
          if \<not> CanRead io sz s then Inr (None, s)
          else bindr (Data io s) (\<lambda>view.
            if length view < sz then Inl OutOfBounds
            else root_pages fuel io contentKeySize interleave canSkip
              (pages @ [\<lparr>pi_numRecords = numRecords, pi_contentFlags = contentFlags, pi_localeFlags = localeFlags,
                pi_data = Some (view, sz)\<rparr>])
              (SkipRead io sz s)))))
      else Inr (Some pages, s))"

primrec collect_blocks :: "('p \<Rightarrow> Block option result) \<Rightarrow> 'p list \<Rightarrow> Block list \<Rightarrow> Root option result" where
  "collect_blocks load [] acc = Inr (Some acc)"
| "collect_blocks load (page # pages) acc = bindr (load page) (\<lambda>value. case value of
     None \<Rightarrow> Inr None
   | Some block \<Rightarrow> collect_blocks load pages (acc @ [block]))"

text \<open>The first eight bytes behind the magic number of newer manifests: whether files without a name are skipped.\<close>

definition root_header :: "'s readable \<Rightarrow> 's \<Rightarrow> ((bool \<times> bool) option \<times> 's) result" where
  "root_header io s =
     (if \<not> CanRead io 4 s then Inr (None, s)
      else bindr (ReadValue io Little s) (\<lambda>(magic :: u32, s).
        if magic = 0x4D465354
        then if \<not> CanRead io 8 s then Inr (None, s)
          else
            bindr (ReadValue io Little s) (\<lambda>(totalFileCount :: u32, s).
            bindr (ReadValue io Little s) (\<lambda>(namedFileCount :: u32, s).
              Inr (Some (False, totalFileCount \<noteq> namedFileCount), s)))
        else Inr (Some (True, False), s)))"

definition Root_Parse :: "'s readable \<Rightarrow> nat \<Rightarrow> 's \<Rightarrow> (Root option \<times> 's) result" where
  "Root_Parse io contentKeySize s =
     bindr (root_header io s) (\<lambda>(mode, s). case mode of None \<Rightarrow> Inr (None, s)
     | Some (interleave, canSkip) \<Rightarrow>
       bindr (root_pages (GetLength io s + 1) io contentKeySize interleave canSkip [] s) (\<lambda>(pages, s).
       case pages of None \<Rightarrow> Inr (None, s)
       | Some pages \<Rightarrow>
         bindr (collect_blocks (\<lambda>page. ParseBlock page contentKeySize interleave canSkip) pages [])
           (\<lambda>instance. Inr (instance, s))))"

text \<open>Moving an entry: the new one and what is left.\<close>

definition RootEntry_move :: "RootEntry \<Rightarrow> RootEntry \<times> RootEntry" where
  "RootEntry_move other =
     (let (key, key') = Key_move (re_ContentKey other) in
      (other\<lparr>re_ContentKey := key\<rparr>, \<lparr>re_ContentKey = key', re_FileDataID = 0, re_NameHash = 0\<rparr>))"

definition Root_move :: "Root \<Rightarrow> Root \<times> Root" where
  "Root_move other = (other, [])"

definition Root_size :: "Root \<Rightarrow> nat" where
  "Root_size root = fold (\<lambda>block result. result + length (bl_entries block)) root 0"

text \<open>\<^verbatim>\<open>std::lower_bound\<close>: binary search for the first element that is not before the value.\<close>

function lower_bound :: "('a \<Rightarrow> bool) \<Rightarrow> 'a list \<Rightarrow> nat \<Rightarrow> nat \<Rightarrow> nat" where
  "lower_bound before xs first len =
     (if len = 0 then first
      else let half = len div 2; middle = first + half in
        if before (xs ! middle) then lower_bound before xs (middle + 1) (len - half - 1)
        else lower_bound before xs first half)"
  by pat_completeness auto
termination by (relation "measure (\<lambda>(_, _, _, len). len)") auto

declare lower_bound.simps [simp del]

primrec Root_FindFile :: "Root \<Rightarrow> u32 \<Rightarrow> CKey option" where
  "Root_FindFile [] fileDataID = None"
| "Root_FindFile (block # rest) fileDataID =
     (let itr = lower_bound (\<lambda>entry. re_FileDataID entry < fileDataID) (bl_entries block) 0 (length (bl_entries block)) in
      if itr \<noteq> length (bl_entries block) then Some (re_ContentKey (bl_entries block ! itr))
      else Root_FindFile rest fileDataID)"

text \<open>\<open>le\<close> and \<open>addr\<close> are the byte order of the machine and the place of the path, which select the path through
  \<^verbatim>\<open>hashlittle\<close>.\<close>

definition Root_FindFile_name :: "bool \<Rightarrow> nat \<Rightarrow> Root \<Rightarrow> string \<Rightarrow> CKey option" where
  "Root_FindFile_name le addr root fileName =
     (let jenkinsHash = JenkinsHash le addr (map byte_of_char fileName) in
      map_option re_ContentKey
        (find (\<lambda>entry. re_NameHash entry = ucast jenkinsHash) (concat (map bl_entries root))))"

section \<open>The format\<close>

text \<open>A record: the identifier, the content key and the hash of the path. A block: the flags and the records.\<close>

type_synonym rrec = "u32 \<times> byte list \<times> u64"
type_synonym rblock = "u32 \<times> u32 \<times> rrec list"

primrec deltas :: "u32 \<Rightarrow> u32 list \<Rightarrow> u32 list" where
  "deltas prev [] = []"
| "deltas prev (x # xs) = (x - prev - 1) # deltas x xs"

definition has_names :: "bool \<Rightarrow> u32 \<Rightarrow> bool" where
  "has_names canSkip flags \<longleftrightarrow> \<not> canSkip \<or> flags AND NoNameHash = 0"

definition names_of :: "rrec list \<Rightarrow> byte list" where
  "names_of recs = concat (map (\<lambda>(_, _, name). bytes_of name) recs)"

definition body_bytes :: "bool \<Rightarrow> rblock \<Rightarrow> byte list" where
  "body_bytes canSkip = (\<lambda>(flags, locales, recs).
     concat (map bytes_of (deltas (- 1) (map fst recs))) @ concat (map (fst \<circ> snd) recs)
     @ (if has_names canSkip flags then names_of recs else []))"

definition rblock_bytes :: "bool \<Rightarrow> rblock \<Rightarrow> byte list" where
  "rblock_bytes canSkip b = (case b of (flags, locales, recs) \<Rightarrow>
     bytes_of (of_nat (length recs) :: u32) @ bytes_of flags @ bytes_of locales @ body_bytes canSkip b)"

definition rblock_ok :: "nat \<Rightarrow> rblock \<Rightarrow> bool" where
  "rblock_ok cks = (\<lambda>(flags, locales, recs). length recs < 2 ^ 32 \<and> (\<forall>r \<in> set recs. length (fst (snd r)) = cks))"

definition root_bytes :: "u32 \<Rightarrow> u32 \<Rightarrow> rblock list \<Rightarrow> byte list" where
  "root_bytes files named bs = bytes_of (0x4D465354 :: u32) @ bytes_of files @ bytes_of named
     @ concat (map (rblock_bytes (files \<noteq> named)) bs)"

text \<open>What a block becomes: without names exactly its records, with names each record with the name of the
  next one, and the last with the eight bytes that follow the block.\<close>

definition unnamed_entries :: "rrec list \<Rightarrow> RootEntry list" where
  "unnamed_entries = map (\<lambda>(f, k, _). \<lparr>re_ContentKey = Key_of_span k, re_FileDataID = f, re_NameHash = 0\<rparr>)"

primrec named_entries :: "rrec list \<Rightarrow> byte list \<Rightarrow> RootEntry list" where
  "named_entries [] behind = []"
| "named_entries (r # recs) behind =
     \<lparr>re_ContentKey = Key_of_span (fst (snd r)), re_FileDataID = fst r,
       re_NameHash = (case recs of [] \<Rightarrow> word_of (take 8 behind) | r' # _ \<Rightarrow> snd (snd r'))\<rparr>
     # named_entries recs behind"

definition block_result :: "bool \<Rightarrow> rblock \<Rightarrow> byte list \<Rightarrow> Block option result" where
  "block_result canSkip b behind = (case b of (flags, locales, recs) \<Rightarrow>
     let block = (\<lambda>entries. Some \<lparr>bl_Content = flags, bl_Locales = locales, bl_entries = entries\<rparr>) in
     if \<not> has_names canSkip flags then Inr (block (unnamed_entries recs))
     else if recs = [] \<or> 8 \<le> length behind then Inr (block (named_entries recs behind))
     else Inl OutOfBounds)"

lemma next_fileDataID_delta [simp]: "next_fileDataID prev (x - prev - 1) = x"
  by (simp add: next_fileDataID_def to_endianness_def native_def)

lemma length_deltas [simp]: "length (deltas prev xs) = length xs"
  by (induction xs arbitrary: prev) simp_all

lemma length_words [simp]: "length (concat (map bytes_of (ws :: u32 list))) = 4 * length ws"
  by (induction ws) simp_all

lemma length_names_of [simp]: "length (names_of recs) = 8 * length recs"
  by (induction recs) (auto simp: names_of_def)

lemma u32_array_append: "u32_array (concat (map bytes_of ws) @ bs) = ws @ u32_array bs"
proof (induction ws)
  case (Cons w ws)
  obtain a b c d where "bytes_of w = [a, b, c, d]"
    by (simp add: bytes_of_def upt_rec)
  then have "bytes_of w = [a, b, c, d]" "word_of [a, b, c, d] = w"
    using word_of_bytes_of [of w] by simp_all
  then show ?case using Cons by simp
qed simp

lemma keys_length:
  assumes "\<forall>r \<in> set (recs :: rrec list). length (fst (snd r)) = cks"
  shows "length (concat (map (fst \<circ> snd) recs)) = length recs * cks"
  using length_concat_same [of "map (fst \<circ> snd) recs" cks] assms by fastforce

lemma key_slice:
  assumes "\<forall>r \<in> set (pre @ r # recs :: rrec list). length (fst (snd r)) = cks"
  shows "subspan (length pre * cks) cks (concat (map (fst \<circ> snd) (pre @ r # recs))) = Inr (fst (snd r))"
proof -
  have "slice (length pre * cks) cks (concat (map (fst \<circ> snd) (pre @ r # recs))) = map (fst \<circ> snd) (pre @ r # recs) ! length pre"
    using assms by (intro slice_concat_same) auto
  moreover have "length pre * cks + cks \<le> length (concat (map (fst \<circ> snd) (pre @ r # recs)))"
    unfolding keys_length [OF assms] by simp
  ultimately show ?thesis by (simp add: nth_append)
qed

lemma unnamed_records_encoded:
  assumes "\<forall>r \<in> set (pre @ recs). length (fst (snd r)) = cks" and "length ids = length pre"
  shows "unnamed_records (length recs) (length pre) cks (ids @ deltas prev (map fst recs))
    (concat (map (fst \<circ> snd) (pre @ recs))) prev acc = Inr (acc @ unnamed_entries recs)"
  using assms
proof (induction recs arbitrary: pre ids prev acc)
  case Nil
  then show ?case by (simp add: unnamed_entries_def)
next
  case (Cons r recs)
  let ?e = "\<lparr>re_ContentKey = Key_of_span (fst (snd r)), re_FileDataID = fst r, re_NameHash = 0\<rparr>"
  have "unnamed_records (length recs) (length (pre @ [r])) cks ((ids @ [fst r - prev - 1]) @ deltas (fst r) (map fst recs))
      (concat (map (fst \<circ> snd) ((pre @ [r]) @ recs))) (fst r) (acc @ [?e]) = Inr ((acc @ [?e]) @ unnamed_entries recs)"
    using Cons.prems by (intro Cons.IH) auto
  moreover have "subspan (length pre * cks) cks (concat (map (fst \<circ> snd) (pre @ r # recs))) = Inr (fst (snd r))"
    using Cons.prems(1) by (rule key_slice)
  ultimately show ?case
    using Cons.prems(2) by (simp add: nth_append unnamed_entries_def split_def Let_def comp_def)
qed

lemma named_records_encoded:
  assumes "\<forall>r \<in> set (pre @ recs). length (fst (snd r)) = cks" and "length ids = length pre"
    and "drop (ss_cursor s) (ss_memory s) = names_of recs @ behind" and "ss_base s = 0"
    and "ss_cursor s + 8 * length recs = ss_size s" and "ss_size s \<le> length (ss_memory s)" and "ss_size s < size_mod"
  shows "named_records (length recs) (length pre) cks (ids @ deltas prev (map fst recs))
    (concat (map (fst \<circ> snd) (pre @ recs))) prev acc s =
    (if recs = [] \<or> 8 \<le> length behind then Inr (acc @ named_entries recs behind) else Inl OutOfBounds)"
  using assms
proof (induction recs arbitrary: pre ids prev acc s)
  case Nil
  then show ?case by simp
next
  case (Cons r recs)
  let ?c = "ss_cursor s" and ?s = "s\<lparr>ss_cursor := ss_cursor s + 8\<rparr>"
  let ?name = "case recs of [] \<Rightarrow> word_of (take 8 behind) | r' # _ \<Rightarrow> snd (snd r')"
  let ?e = "\<lparr>re_ContentKey = Key_of_span (fst (snd r)), re_FileDataID = fst r, re_NameHash = ?name\<rparr>"
  have d: "drop (?c + 8) (ss_memory s) = names_of recs @ behind"
  proof -
    have "drop (?c + 8) (ss_memory s) = drop 8 (drop ?c (ss_memory s))" by (simp add: add.commute)
    then show ?thesis using Cons.prems(3) by (simp add: names_of_def split_def)
  qed
  have len: "length (ss_memory s) = ?c + 8 + 8 * length recs + length behind"
  proof -
    have "length (drop ?c (ss_memory s)) = 8 + 8 * length recs + length behind" unfolding Cons.prems(3) by simp
    then show ?thesis by simp
  qed
  have read: "ReadValue SpanStream_vt Little s = (if 8 \<le> 8 * length recs + length behind then Inr (?name, ?s) else Inl OutOfBounds)"
  proof -
    have "slice (?c + 8) 8 (ss_memory s) = (case recs of [] \<Rightarrow> take 8 behind | r' # _ \<Rightarrow> bytes_of (snd (snd r')))"
      unfolding slice_def d by (simp add: names_of_def split_def split: list.split)
    then show ?thesis
      using ReadValue_SpanStream [of 8 s Little, where 'a = 64] Cons.prems(4-7) len
      by (auto simp: decode_def native_def word_of_bytes_of split: list.split)
  qed
  have key: "subspan (length pre * cks) cks (concat (map (fst \<circ> snd) (pre @ r # recs))) = Inr (fst (snd r))"
    using Cons.prems(1) by (rule key_slice)
  have rec: "named_records (length recs) (length (pre @ [r])) cks ((ids @ [fst r - prev - 1]) @ deltas (fst r) (map fst recs))
      (concat (map (fst \<circ> snd) ((pre @ [r]) @ recs))) (fst r) (acc @ [?e]) ?s =
      (if recs = [] \<or> 8 \<le> length behind then Inr ((acc @ [?e]) @ named_entries recs behind) else Inl OutOfBounds)"
    using Cons.prems d by (intro Cons.IH) auto
  show ?case
  proof (cases "8 \<le> 8 * length recs + length behind")
    case True
    then show ?thesis using rec key Cons.prems(2) read by (auto simp: nth_append Let_def comp_def)
  next
    case False
    then show ?thesis using Cons.prems(2) read by (auto simp: nth_append Let_def comp_def)
  qed
qed

section \<open>Blocks\<close>

lemma rblock_bytes_triple: "rblock_bytes canSkip (flags, locales, recs) = bytes_of (of_nat (length recs) :: u32)
    @ bytes_of flags @ bytes_of locales @ body_bytes canSkip (flags, locales, recs)"
  by (simp add: rblock_bytes_def)

lemma length_rblock: "length (rblock_bytes canSkip b) = 12 + length (body_bytes canSkip b)"
  by (cases b) (simp add: rblock_bytes_def)

lemma length_body:
  assumes "rblock_ok cks (flags, locales, recs)"
  shows "length (body_bytes canSkip (flags, locales, recs)) =
    4 * length recs + length recs * cks + (if has_names canSkip flags then 8 * length recs else 0)"
  using assms keys_length [of recs cks] by (simp add: body_bytes_def rblock_ok_def)

lemma page_length_body:
  assumes "rblock_ok cks (flags, locales, recs)" and "length (body_bytes canSkip (flags, locales, recs)) < size_mod"
  shows "page_length (of_nat (length recs)) flags cks False canSkip = length (body_bytes canSkip (flags, locales, recs))"
proof -
  have "unat (of_nat (length recs) :: u32) = length recs"
    using assms(1) by (simp add: rblock_ok_def unat_of_nat take_bit_nat_eq_self)
  then show ?thesis
    using assms(2) length_body [OF assms(1), of canSkip]
    by (auto simp: page_length_def has_names_def Let_def mult.commute [of cks])
qed

lemma ParseBlock_encoded:
  assumes "rblock_ok cks (flags, locales, recs)"
    and "length (body_bytes canSkip (flags, locales, recs) @ behind) < size_mod"
  shows "ParseBlock \<lparr>pi_numRecords = of_nat (length recs), pi_contentFlags = flags, pi_localeFlags = locales,
      pi_data = Some (body_bytes canSkip (flags, locales, recs) @ behind,
        length (body_bytes canSkip (flags, locales, recs)))\<rparr> cks False canSkip =
    block_result canSkip (flags, locales, recs) behind"
proof -
  let ?n = "length recs" and ?body = "body_bytes canSkip (flags, locales, recs)"
  let ?ids = "deltas (- 1) (map fst recs)" and ?keys = "concat (map (fst \<circ> snd) recs)"
  let ?names = "if has_names canSkip flags then names_of recs else []"
  have body: "?body = concat (map bytes_of ?ids) @ ?keys @ ?names" by (simp add: body_bytes_def)
  have keys: "\<forall>r \<in> set ([] @ recs). length (fst (snd r)) = cks" "length ?keys = ?n * cks"
    using assms(1) keys_length [of recs cks] by (simp_all add: rblock_ok_def)
  have n: "unat (of_nat ?n :: u32) = ?n"
    using assms(1) by (simp add: rblock_ok_def unat_of_nat take_bit_nat_eq_self)
  have len: "length ?body = 4 * ?n + ?n * cks + length ?names" "length ?body < size_mod"
    using assms(2) keys(2) unfolding body by simp_all
  let ?s = "SpanStream_new (?body @ behind) 0 (length ?body)"
  let ?s1 = "?s\<lparr>ss_cursor := ?n * 4\<rparr>" and ?s2 = "?s\<lparr>ss_cursor := ?n * 4 + ?n * cks\<rparr>"
  have d0: "Data SpanStream_vt ?s = Inr ?body"
    by (simp add: SpanStream_vt_def SpanStream_Data_def SpanStream_new_def slice_def)
  have ids: "subspan 0 ?n (u32_array ?body) = Inr ?ids"
    unfolding body u32_array_append by (simp add: slice_def)
  have s1: "SkipRead SpanStream_vt (?n * 4) ?s = ?s1"
    using len by (simp add: SpanStream_vt_def SpanStream_SkipRead_def SpanStream_new_def)
  have "slice (?n * 4) (length ?body - ?n * 4) (?body @ behind) = drop (?n * 4) ?body"
    using len(1) by (simp add: slice_def)
  also have "\<dots> = ?keys @ ?names" unfolding body by (simp add: mult.commute)
  finally have d1: "Data SpanStream_vt ?s1 = Inr (?keys @ ?names)"
    using len(1) by (simp add: SpanStream_vt_def SpanStream_Data_def SpanStream_new_def)
  have hash: "subspan 0 (mul_sz ?n cks) (?keys @ ?names) = Inr ?keys"
    using len keys(2) by (simp add: slice_def)
  have s2: "SkipRead SpanStream_vt (length ?keys) ?s1 = ?s2"
    using len keys(2) by (simp add: SpanStream_vt_def SpanStream_SkipRead_def SpanStream_new_def)
  have unnamed: "unnamed_records ?n 0 cks ?ids ?keys (- 1) [] = Inr (unnamed_entries recs)"
    using unnamed_records_encoded [OF keys(1), of "[]" "- 1" "[]"] by simp
  have named: "named_records ?n 0 cks ?ids ?keys (- 1) [] ?s2 =
      (if recs = [] \<or> 8 \<le> length behind then Inr (named_entries recs behind) else Inl OutOfBounds)"
    if "has_names canSkip flags"
  proof -
    have "drop (?n * 4 + ?n * cks) (?body @ behind) = names_of recs @ behind"
      using keys(2) that unfolding body by simp
    then show ?thesis
      using named_records_encoded [OF keys(1), of "[]" ?s2 behind "- 1" "[]"] that len by (simp add: SpanStream_new_def)
  qed
  show ?thesis
    using d0 ids s1 d1 hash s2 unnamed named
    by (auto simp: ParseBlock_def Let_def n block_result_def has_names_def)
qed

section \<open>Pages\<close>

primrec page_infos :: "bool \<Rightarrow> rblock list \<Rightarrow> PageInfo list" where
  "page_infos canSkip [] = []"
| "page_infos canSkip (b # bs) =
     \<lparr>pi_numRecords = of_nat (length (snd (snd b))), pi_contentFlags = fst b, pi_localeFlags = fst (snd b),
       pi_data = Some (body_bytes canSkip b @ concat (map (rblock_bytes canSkip) bs), length (body_bytes canSkip b))\<rparr>
     # page_infos canSkip bs"

primrec block_results :: "bool \<Rightarrow> rblock list \<Rightarrow> Block option result list" where
  "block_results canSkip [] = []"
| "block_results canSkip (b # bs) =
     block_result canSkip b (concat (map (rblock_bytes canSkip) bs)) # block_results canSkip bs"

lemma map_ParseBlock:
  assumes "\<forall>b \<in> set bs. rblock_ok cks b" and "length (concat (map (rblock_bytes canSkip) bs)) < size_mod"
  shows "map (\<lambda>page. ParseBlock page cks False canSkip) (page_infos canSkip bs) = block_results canSkip bs"
  using assms
proof (induction bs)
  case (Cons b bs)
  obtain flags locales recs where b: "b = (flags, locales, recs)" by (cases b) auto
  have "length (body_bytes canSkip b @ concat (map (rblock_bytes canSkip) bs)) < size_mod"
    using Cons.prems(2) by (simp add: length_rblock)
  then show ?case
    using Cons ParseBlock_encoded [of cks flags locales recs canSkip] by (simp add: b)
qed simp

text \<open>Blocks do not run for ever.\<close>

lemma ReadValue_SpanStream_returns: "ReadValue SpanStream_vt Little s \<noteq> Inl Diverges"
proof -
  have "ReadImpl SpanStream_vt buf s \<noteq> Inl Diverges" for buf
    by (auto simp: SpanStream_vt_def SpanStream_ReadImpl_def SpanStream_Data_def Let_def subspan_def bindr_eq_Inl)
  then show ?thesis
    by (auto simp: ReadValue_def Read_def ReadSpan_def native_def bindr_eq_Inl)
qed

lemma Data_SpanStream_returns: "Data SpanStream_vt s \<noteq> Inl Diverges"
  by (simp add: SpanStream_vt_def SpanStream_Data_def subspan_def)

lemma storage_returns [simp]: "subspan off n xs \<noteq> Inl Diverges" "at xs i \<noteq> Inl Diverges"
  by (simp_all add: subspan_def at_def)

lemma interleaved_records_returns: "interleaved_records n i cks ids prev acc s \<noteq> Inl Diverges"
  by (induction n arbitrary: i prev acc s)
    (auto simp: bindr_eq_Inl Let_def ReadValue_SpanStream_returns Data_SpanStream_returns)

lemma named_records_returns: "named_records n i cks ids hs prev acc s \<noteq> Inl Diverges"
  by (induction n arbitrary: i prev acc s) (auto simp: bindr_eq_Inl Let_def ReadValue_SpanStream_returns)

lemma unnamed_records_returns: "unnamed_records n i cks ids hs prev acc \<noteq> Inl Diverges"
  by (induction n arbitrary: i prev acc) (auto simp: bindr_eq_Inl Let_def)

lemma ParseBlock_returns: "ParseBlock page cks interleave canSkip \<noteq> Inl Diverges"
  by (auto simp: ParseBlock_def Let_def bindr_eq_Inl Data_SpanStream_returns interleaved_records_returns
      named_records_returns unnamed_records_returns split: option.split if_splits)

lemma collect_blocks_returns: "(\<And>p. load p \<noteq> Inl Diverges) \<Longrightarrow> collect_blocks load ps acc \<noteq> Inl Diverges"
  by (induction ps arbitrary: acc) (auto simp: bindr_eq_Inl split: option.splits)

lemma collect_blocks_map: "collect_blocks load ps acc = collect_blocks (\<lambda>x. x) (map load ps) acc"
  by (induction ps arbitrary: acc) (auto intro!: bindr_cong split: option.split)

context readable_stream
begin

lemmas reads_little = reads_words(3) [unfolded native_def]

lemma root_pages_encoded:
  assumes "ok s" and "rest s = concat (map (rblock_bytes canSkip) bs)" and "\<forall>b \<in> set bs. rblock_ok cks b"
    and "length (content s) < 2 ^ 63" and "length bs < fuel"
  shows "\<exists>s'. root_pages fuel io cks False canSkip acc s = Inr (Some (acc @ page_infos canSkip bs), s')"
  using assms
proof (induction bs arbitrary: fuel s acc)
  case Nil
  then obtain f where "fuel = Suc f" by (cases fuel) auto
  moreover have "\<not> GetReadCursor io s < GetLength io s"
    using Nil.prems(1,2) by (simp add: rest_of_def GetLength)
  ultimately show ?case by simp
next
  case (Cons b bs)
  obtain f where f: "fuel = Suc f" using Cons.prems by (cases fuel) auto
  obtain flags locales recs where b: "b = (flags, locales, recs)" by (cases b) auto
  let ?body = "body_bytes canSkip b" and ?behind = "concat (map (rblock_bytes canSkip) bs)"
  let ?page = "\<lparr>pi_numRecords = of_nat (length recs), pi_contentFlags = flags, pi_localeFlags = locales,
    pi_data = Some (?body @ ?behind, length ?body)\<rparr>"
  have r: "rest s = bytes_of (of_nat (length recs) :: u32) @ bytes_of flags @ bytes_of locales @ ?body @ ?behind"
    using Cons.prems(2) by (simp add: rblock_bytes_triple b)
  have size: "length (content s) < size_mod - length (content s)" "12 + length ?body \<le> length (content s)"
  proof -
    show "length (content s) < size_mod - length (content s)" using Cons.prems(4) by (simp add: size_mod_def)
    have "length (rest s) = 12 + length ?body + length ?behind" unfolding r by simp
    then show "12 + length ?body \<le> length (content s)" using length_rest [OF Cons.prems(1)] by simp
  qed
  obtain s1 where s1: "ReadValue io Little s = Inr (of_nat (length recs) :: u32, s1)" "eats 4 s s1"
      "ok s1" "rest s1 = bytes_of flags @ bytes_of locales @ ?body @ ?behind"
    using readsE [OF reads_little Cons.prems(1) r] by auto
  obtain s2 where s2: "ReadValue io Little s1 = Inr (flags, s2)" "eats 4 s1 s2"
      "ok s2" "rest s2 = bytes_of locales @ ?body @ ?behind"
    using readsE [OF reads_little s1(3,4)] by auto
  obtain s3 where s3: "ReadValue io Little s2 = Inr (locales, s3)" "eats 4 s2 s3" "ok s3" "rest s3 = ?body @ ?behind"
    using readsE [OF reads_little s2(3,4)] by auto
  have c3: "content s3 = content s" using s1(2) s2(2) s3(2) by (simp add: consumed_def)
  have len: "page_length (of_nat (length recs)) flags cks False canSkip = length ?body"
    using page_length_body [of cks flags locales recs canSkip] Cons.prems(3) size by (simp add: b)
  have can: "CanRead io 12 s" "CanRead io (length ?body) s3"
    using CanRead_rest [OF Cons.prems(1), of 12] CanRead_rest [OF s3(3), of "length ?body"] r s3(4) size c3 by simp_all
  have cur: "GetReadCursor io s < GetLength io s"
    using length_rest [OF Cons.prems(1)] r by (simp add: GetLength [OF Cons.prems(1)])
  have data: "Data io s3 = Inr (?body @ ?behind)" using Data [OF s3(3)] s3(4) by (simp add: rest_of_def)
  let ?s4 = "SkipRead io (length ?body) s3"
  have s4: "eats (length ?body) s3 ?s4" using s3(4) by (intro SkipRead_rest [OF s3(3)]) simp
  then have "ok ?s4" "rest ?s4 = ?behind" "content ?s4 = content s"
    using s3(4) c3 by (simp_all add: rest_of_consumed) (simp_all add: consumed_def)
  then obtain s' where "root_pages f io cks False canSkip (acc @ [?page]) ?s4 =
      Inr (Some ((acc @ [?page]) @ page_infos canSkip bs), s')"
    using Cons.IH [of ?s4 f "acc @ [?page]"] Cons.prems f by auto
  then show ?case
    using s1(1) s2(1) s3(1) can cur data by (simp add: f b len)
qed

lemma root_pages_returns:
  assumes "ok s" and "length (rest s) < fuel" and "length (content s) < size_mod - 12"
  shows "root_pages fuel io cks interleave canSkip acc s \<noteq> Inl Diverges"
  using assms
proof (induction fuel arbitrary: acc s)
  case (Suc fuel)
  show ?case
  proof (cases "GetReadCursor io s < GetLength io s \<and> CanRead io 12 s")
    case True
    then have len: "12 \<le> length (rest s)" using CanRead_rest [OF Suc.prems(1)] Suc.prems(3) by simp
    have word: "\<exists>(w :: u32) t'. ReadValue io Little t = Inr (w, t') \<and> eats 4 t t'" if "ok t" "4 \<le> length (rest t)" for t
      using ReadValue_ok [where 'a = 32, of t Little] that by auto
    obtain w1 s1 where s1: "ReadValue io Little s = Inr (w1 :: u32, s1)" "eats 4 s s1" using word [OF Suc.prems(1)] len by auto
    have l1: "ok s1" "length (rest s1) = length (rest s) - 4" "4 \<le> length (rest s1)"
      using s1(2) rest_of_consumed [OF s1(2)] len by (simp_all add: consumed_def)
    obtain w2 s2 where s2: "ReadValue io Little s1 = Inr (w2 :: u32, s2)" "eats 4 s1 s2" using word [OF l1(1)] l1(3) by auto
    have l2: "ok s2" "length (rest s2) = length (rest s) - 8" "4 \<le> length (rest s2)"
      using s2(2) rest_of_consumed [OF s2(2)] l1(2) len by (simp_all add: consumed_def)
    obtain w3 s3 where s3: "ReadValue io Little s2 = Inr (w3 :: u32, s3)" "eats 4 s2 s3" using word [OF l2(1)] l2(3) by auto
    have l3: "ok s3" "length (rest s3) = length (rest s) - 12" "content s3 = content s"
      using s1(2) s2(2) s3(2) rest_of_consumed [OF s3(2)] l2(2) by (simp_all add: consumed_def)
    have data: "Data io s3 = Inr (rest s3)" using Data [OF l3(1)] by (simp add: rest_of_def)
    let ?n = "page_length w1 w2 cks interleave canSkip"
    have "root_pages fuel io cks interleave canSkip acc' (SkipRead io ?n s3) \<noteq> Inl Diverges"
      if "?n \<le> length (rest s3)" for acc'
    proof -
      have "eats ?n s3 (SkipRead io ?n s3)" using that by (intro SkipRead_rest [OF l3(1)])
      then have "ok (SkipRead io ?n s3)" "length (rest (SkipRead io ?n s3)) < fuel" "content (SkipRead io ?n s3) = content s"
        using rest_of_consumed [of io content ok ?n s3] l3(2,3) len Suc.prems(2) by (auto simp: consumed_def)
      then show ?thesis using Suc.prems(3) by (intro Suc.IH) simp_all
    qed
    then show ?thesis using s1(1) s2(1) s3(1) data True by (auto simp: Let_def not_less split: if_splits)
  next
    case False
    then show ?thesis by auto
  qed
qed simp

lemma Root_Parse_encoded:
  assumes "ok s" and "rest s = root_bytes files named bs" and "\<forall>b \<in> set bs. rblock_ok cks b"
    and "length (content s) < 2 ^ 63"
  shows "\<exists>s'. Root_Parse io cks s =
    bindr (collect_blocks (\<lambda>x. x) (block_results (files \<noteq> named) bs) []) (\<lambda>instance. Inr (instance, s'))"
proof -
  let ?pages = "concat (map (rblock_bytes (files \<noteq> named)) bs)"
  have r: "rest s = bytes_of (0x4D465354 :: u32) @ bytes_of files @ bytes_of named @ ?pages"
    using assms(2) by (simp add: root_bytes_def)
  have sz: "length (content s) < size_mod - length (content s)" "12 + length ?pages \<le> length (content s)"
  proof -
    show "length (content s) < size_mod - length (content s)" using assms(4) by (simp add: size_mod_def)
    have "length (rest s) = 12 + length ?pages" unfolding r by simp
    then show "12 + length ?pages \<le> length (content s)" using length_rest [OF assms(1)] by simp
  qed
  obtain s1 where s1: "ReadValue io Little s = Inr (0x4D465354 :: u32, s1)" "eats 4 s s1"
      "ok s1" "rest s1 = bytes_of files @ bytes_of named @ ?pages"
    using readsE [OF reads_little assms(1) r] by auto
  obtain s2 where s2: "ReadValue io Little s1 = Inr (files, s2)" "eats 4 s1 s2"
      "ok s2" "rest s2 = bytes_of named @ ?pages"
    using readsE [OF reads_little s1(3,4)] by auto
  obtain s3 where s3: "ReadValue io Little s2 = Inr (named, s3)" "eats 4 s2 s3" "ok s3" "rest s3 = ?pages"
    using readsE [OF reads_little s2(3,4)] by auto
  have c: "content s1 = content s" "content s3 = content s" using s1(2) s2(2) s3(2) by (simp_all add: consumed_def)
  have can: "CanRead io 4 s" "CanRead io 8 s1"
    using CanRead_rest [OF assms(1), of 4] CanRead_rest [OF s1(3), of 8] r s1(4) sz c by simp_all
  have "length bs * 12 \<le> length ?pages"
    by (induction bs) (simp_all add: length_rblock)
  then have "length bs < GetLength io s3 + 1" using GetLength [OF s3(3)] sz c by simp
  then obtain s' where s': "root_pages (GetLength io s3 + 1) io cks False (files \<noteq> named) [] s3 =
      Inr (Some (page_infos (files \<noteq> named) bs), s')"
    using root_pages_encoded [OF s3(3,4) assms(3), of "GetLength io s3 + 1" "[]"] assms(4) c
    by (auto simp del: root_pages.simps)
  have "map (\<lambda>page. ParseBlock page cks False (files \<noteq> named)) (page_infos (files \<noteq> named) bs)
      = block_results (files \<noteq> named) bs"
    using map_ParseBlock [OF assms(3), of "files \<noteq> named"] sz by simp
  then have "collect_blocks (\<lambda>page. ParseBlock page cks False (files \<noteq> named)) (page_infos (files \<noteq> named) bs) []
      = collect_blocks (\<lambda>x. x) (block_results (files \<noteq> named) bs) []"
    by (subst collect_blocks_map) simp
  moreover have "root_header io s = Inr (Some (False, files \<noteq> named), s3)"
    using s1(1) s2(1) s3(1) can by (simp add: root_header_def)
  ultimately show ?thesis using s' by (auto simp: Root_Parse_def)
qed

lemma root_header_returns:
  assumes "ok s" and "length (content s) < size_mod - 12"
  shows "\<exists>mode s'. root_header io s = Inr (mode, s') \<and> ok s' \<and> content s' = content s \<and>
    length (rest s') \<le> length (content s)"
proof (cases "CanRead io 4 s")
  case True
  then obtain magic :: u32 and s1 where s1: "ReadValue io Little s = Inr (magic, s1)" "eats 4 s s1"
    using CanRead_rest [OF assms(1), of 4] ReadValue_ok [where 'a = 32, OF assms(1), of Little] assms(2) by auto
  have c1: "ok s1" "content s1 = content s" using s1(2) by (simp_all add: consumed_def)
  show ?thesis
  proof (cases "magic = 0x4D465354 \<and> CanRead io 8 s1")
    case True
    then have l1: "8 \<le> length (rest s1)" using CanRead_rest [OF c1(1), of 8] assms(2) c1(2) by simp
    obtain f :: u32 and s2 where s2: "ReadValue io Little s1 = Inr (f, s2)" "eats 4 s1 s2"
      using ReadValue_ok [where 'a = 32, OF c1(1), of Little] l1 by auto
    have c2: "ok s2" "content s2 = content s" "4 \<le> length (rest s2)"
      using s2(2) c1(2) l1 rest_of_consumed [OF s2(2)] by (simp_all add: consumed_def)
    obtain n :: u32 and s3 where s3: "ReadValue io Little s2 = Inr (n, s3)" "eats 4 s2 s3"
      using ReadValue_ok [where 'a = 32, OF c2(1), of Little] c2(3) by auto
    then have "ok s3" "content s3 = content s" using c2(2) by (simp_all add: consumed_def)
    then show ?thesis
      using s1(1) s2(1) s3(1) True \<open>CanRead io 4 s\<close> length_rest [of s3] by (simp add: root_header_def)
  next
    case False
    then show ?thesis using s1(1) c1 \<open>CanRead io 4 s\<close> length_rest [of s1] by (auto simp: root_header_def)
  qed
qed (use assms(1) length_rest [of s] in \<open>simp add: root_header_def\<close>)

lemma Root_Parse_returns:
  assumes "ok s" and "length (content s) < size_mod - 12"
  shows "Root_Parse io cks s \<noteq> Inl Diverges"
proof -
  obtain mode s1 where s1: "root_header io s = Inr (mode, s1)" "ok s1" "content s1 = content s"
      "length (rest s1) \<le> length (content s)"
    using root_header_returns [OF assms] by blast
  have "root_pages (GetLength io s1 + 1) io cks a b [] s1 \<noteq> Inl Diverges" for a b
    using s1(4) assms(2) unfolding s1(3) [symmetric]
    by (intro root_pages_returns [OF s1(2)]) (simp_all add: GetLength [OF s1(2)])
  moreover have "collect_blocks (\<lambda>page. ParseBlock page cks a b) ps acc \<noteq> Inl Diverges" for a b ps acc
    by (rule collect_blocks_returns) (rule ParseBlock_returns)
  ultimately show ?thesis
    using s1(1) by (auto simp: Root_Parse_def bindr_eq_Inl simp del: root_pages.simps split: option.splits prod.splits)
qed

end

lemma collect_block_results:
  assumes "\<forall>b \<in> set bs. \<not> has_names canSkip (fst b)"
  shows "collect_blocks (\<lambda>x. x) (block_results canSkip bs) acc = Inr (Some (acc @ map (\<lambda>(flags, locales, recs).
    \<lparr>bl_Content = flags, bl_Locales = locales, bl_entries = unnamed_entries recs\<rparr>) bs))"
  using assms by (induction bs arbitrary: acc) (auto simp: block_result_def Let_def)

lemma block_result_ok: "8 \<le> length behind \<Longrightarrow> \<exists>block. block_result canSkip b behind = Inr (Some block)"
  by (cases b) (simp add: block_result_def Let_def)

lemma collect_block_results_last:
  assumes "has_names canSkip flags" and "recs \<noteq> []"
  shows "collect_blocks (\<lambda>x. x) (block_results canSkip (bs @ [(flags, locales, recs)])) acc = Inl OutOfBounds"
proof (induction bs arbitrary: acc)
  case Nil
  then show ?case using assms by (simp add: block_result_def Let_def)
next
  case (Cons b bs)
  let ?behind = "concat (map (rblock_bytes canSkip) (bs @ [(flags, locales, recs)]))"
  have "8 \<le> length ?behind" by (simp add: length_rblock)
  from block_result_ok [OF this] obtain block where "block_result canSkip b ?behind = Inr (Some block)" by blast
  then show ?case using Cons by simp
qed

lemma root_file:
  assumes "length (root_bytes files named bs) < 2 ^ 63"
  shows "FileStream_ok (FileStream_new (Some (root_bytes files named bs)))"
    and "rest_of FileStream_vt fs_stream (FileStream_new (Some (root_bytes files named bs))) = root_bytes files named bs"
    and "length (fs_stream (FileStream_new (Some (root_bytes files named bs)))) < 2 ^ 63"
proof -
  have "length (root_bytes files named bs) = 12 + length (concat (map (rblock_bytes (files \<noteq> named)) bs))"
    by (simp add: root_bytes_def)
  then have "root_bytes files named bs \<noteq> []" by (metis add_is_0 list.size(3) zero_neq_numeral)
  then show "FileStream_ok (FileStream_new (Some (root_bytes files named bs)))"
    "rest_of FileStream_vt fs_stream (FileStream_new (Some (root_bytes files named bs))) = root_bytes files named bs"
    "length (fs_stream (FileStream_new (Some (root_bytes files named bs)))) < 2 ^ 63"
    using assms by (auto simp: FileStream_new_def FileStream_ok_def size_mod_def rest_of_def)
qed

section \<open>Lookup\<close>

lemma lower_bound_partition:
  assumes "\<And>i j. first \<le> i \<Longrightarrow> i < j \<Longrightarrow> j < first + len \<Longrightarrow> before (xs ! j) \<Longrightarrow> before (xs ! i)"
  shows "first \<le> lower_bound before xs first len \<and> lower_bound before xs first len \<le> first + len \<and>
    (\<forall>i. first \<le> i \<longrightarrow> i < lower_bound before xs first len \<longrightarrow> before (xs ! i)) \<and>
    (\<forall>i. lower_bound before xs first len \<le> i \<longrightarrow> i < first + len \<longrightarrow> \<not> before (xs ! i))"
  using assms
proof (induction before xs first len rule: lower_bound.induct)
  case (1 before xs first len)
  let ?half = "len div 2" and ?middle = "first + len div 2"
  show ?case
  proof (cases "len = 0")
    case True
    then show ?thesis by (simp add: lower_bound.simps)
  next
    case len: False
    show ?thesis
    proof (cases "before (xs ! ?middle)")
      case True
      have "before (xs ! i)" if "first \<le> i" "i \<le> ?middle" for i
        using that "1.prems" [of i ?middle] True len by (cases "i = ?middle") auto
      moreover have "lower_bound before xs first len = lower_bound before xs (?middle + 1) (len - ?half - 1)"
        using len True by (simp add: lower_bound.simps [of before xs first len] Let_def)
      moreover have "?middle + 1 + (len - ?half - 1) = first + len" using len by simp
      ultimately show ?thesis
        using "1.IH"(1) [OF len refl refl True] "1.prems" by (smt (verit) add_lessD1 le_add1 less_add_one linorder_not_le order_trans
            order_less_le_trans not_less_eq_eq Suc_eq_plus1)
    next
      case False
      have "\<not> before (xs ! i)" if "?middle \<le> i" "i < first + len" for i
        using that "1.prems" [of ?middle i] False by (cases "i = ?middle") auto
      moreover have "lower_bound before xs first len = lower_bound before xs first ?half"
        using len False by (simp add: lower_bound.simps [of before xs first len] Let_def)
      ultimately show ?thesis
        using "1.IH"(2) [OF len refl refl False] "1.prems" by (smt (verit) add_le_cancel_left div_le_dividend le_trans less_le_trans not_less)
    qed
  qed
qed

lemma lower_bound_find:
  assumes "\<And>i j. i < j \<Longrightarrow> j < length xs \<Longrightarrow> before (xs ! j) \<Longrightarrow> before (xs ! i)"
  shows "find (\<lambda>x. \<not> before x) xs =
    (if lower_bound before xs 0 (length xs) = length xs then None else Some (xs ! lower_bound before xs 0 (length xs)))"
proof -
  let ?r = "lower_bound before xs 0 (length xs)"
  have r: "?r \<le> length xs" "\<And>i. i < ?r \<Longrightarrow> before (xs ! i)" "\<And>i. ?r \<le> i \<Longrightarrow> i < length xs \<Longrightarrow> \<not> before (xs ! i)"
    using lower_bound_partition [of 0 "length xs" before xs] assms by auto
  show ?thesis
  proof (cases "?r = length xs")
    case True
    then show ?thesis using r(2) by (auto simp: find_None_iff in_set_conv_nth)
  next
    case False
    then show ?thesis using r by (auto simp: find_Some_iff intro!: exI [of _ ?r])
  qed
qed

section \<open>Lookup\<close>

lemma Root_FindFile_find:
  assumes "\<forall>block \<in> set root. sorted (map re_FileDataID (bl_entries block))"
  shows "Root_FindFile root fileDataID =
    map_option re_ContentKey (find (\<lambda>e. fileDataID \<le> re_FileDataID e) (concat (map bl_entries root)))"
  using assms
proof (induction root)
  case (Cons block root)
  have "re_FileDataID (bl_entries block ! i) < fileDataID"
    if "i < j" "j < length (bl_entries block)" "re_FileDataID (bl_entries block ! j) < fileDataID" for i j
  proof -
    have "re_FileDataID (bl_entries block ! i) \<le> re_FileDataID (bl_entries block ! j)"
      using Cons.prems that sorted_nth_mono [of "map re_FileDataID (bl_entries block)" i j] by simp
    then show ?thesis using that(3) by simp
  qed
  then have "find (\<lambda>e. fileDataID \<le> re_FileDataID e) (bl_entries block) =
      (let r = lower_bound (\<lambda>e. re_FileDataID e < fileDataID) (bl_entries block) 0 (length (bl_entries block)) in
       if r = length (bl_entries block) then None else Some (bl_entries block ! r))"
    using lower_bound_find [of "bl_entries block" "\<lambda>e. re_FileDataID e < fileDataID"] by (simp add: not_less Let_def)
  then show ?case using Cons by (simp add: find_append_case Let_def split: if_splits)
qed simp

lemma Root_FindFile_name_high:
  assumes high: "\<forall>block \<in> set root. \<forall>e \<in> set (bl_entries block). 2 ^ 32 \<le> unat (re_NameHash e)"
  shows "Root_FindFile_name le addr root fileName = None"
proof -
  have "re_NameHash e \<noteq> ucast (w :: u32)" if "block \<in> set root" "e \<in> set (bl_entries block)" for block e w
  proof
    assume "re_NameHash e = ucast w"
    then have "unat (re_NameHash e) < 4294967296" by (simp del: unat_less) (rule unat_less(3))
    with high that show False by fastforce
  qed
  then have "find (\<lambda>entry. re_NameHash entry = ucast (w :: u32)) (concat (map bl_entries root)) = None" for w
    by (auto simp: find_None_iff)
  then show ?thesis by (simp add: Root_FindFile_name_def Let_def)
qed

section \<open>Properties\<close>

text \<open>C6: a root manifest without names, of any number of blocks, is parsed completely: every block has the flags
  and exactly the records that were written, with their identifiers restored from the differences.\<close>

theorem Root_Parse_roundtrip:
  assumes "length (root_bytes files named bs) < 2 ^ 63" and "\<forall>b \<in> set bs. rblock_ok cks b"
    and "files \<noteq> named" and "\<forall>b \<in> set bs. fst b AND NoNameHash \<noteq> 0"
  shows "\<exists>s'. Root_Parse FileStream_vt cks (FileStream_new (Some (root_bytes files named bs))) =
    Inr (Some (map (\<lambda>(flags, locales, recs). \<lparr>bl_Content = flags, bl_Locales = locales,
      bl_entries = map (\<lambda>(f, k, _). \<lparr>re_ContentKey = Key_of_span k, re_FileDataID = f, re_NameHash = 0\<rparr>) recs\<rparr>) bs), s')"
proof -
  obtain s' where "Root_Parse FileStream_vt cks (FileStream_new (Some (root_bytes files named bs))) =
      bindr (collect_blocks (\<lambda>x. x) (block_results (files \<noteq> named) bs) []) (\<lambda>instance. Inr (instance, s'))"
    using fstream.Root_Parse_encoded [OF root_file(1,2) assms(2) root_file(3), OF assms(1,1,1)] by blast
  moreover have "\<forall>b \<in> set bs. \<not> has_names (files \<noteq> named) (fst b)"
    using assms(3,4) by (simp add: has_names_def)
  ultimately show ?thesis
    by (simp only: collect_block_results bindr_Inr append.simps unnamed_entries_def) (rule exI, rule refl)
qed

text \<open>Names are read by a \<^verbatim>\<open>SpanStream\<close>, which delivers the bytes behind the ones asked for: in a block with
  names every record has the name of the next one, and the last one the eight bytes behind the block. A
  manifest whose last block has a name is read out of bounds.\<close>

theorem Root_names_shifted:
  assumes "rblock_ok cks (flags, locales, recs)" and "has_names canSkip flags" and "recs \<noteq> []"
    and "length (body_bytes canSkip (flags, locales, recs) @ behind) < size_mod" and "8 \<le> length behind"
    and "\<forall>b \<in> set bs. rblock_ok cks b" and "canSkip = (files \<noteq> named)"
    and "length (root_bytes files named (bs @ [(flags, locales, recs)])) < 2 ^ 63"
  shows "(\<exists>block. ParseBlock \<lparr>pi_numRecords = of_nat (length recs), pi_contentFlags = flags, pi_localeFlags = locales,
      pi_data = Some (body_bytes canSkip (flags, locales, recs) @ behind,
        length (body_bytes canSkip (flags, locales, recs)))\<rparr> cks False canSkip = Inr (Some block) \<and>
      map re_ContentKey (bl_entries block) = map (\<lambda>(_, k, _). Key_of_span k) recs \<and>
      map re_FileDataID (bl_entries block) = map fst recs \<and>
      map re_NameHash (bl_entries block) = map (snd \<circ> snd) (tl recs) @ [word_of (take 8 behind)]) \<and>
    Root_Parse FileStream_vt cks (FileStream_new (Some (root_bytes files named (bs @ [(flags, locales, recs)])))) =
      Inl OutOfBounds"
proof
  have "map re_ContentKey (named_entries recs behind) = map (\<lambda>(_, k, _). Key_of_span k) recs \<and>
      map re_FileDataID (named_entries recs behind) = map fst recs \<and>
      map re_NameHash (named_entries recs behind) = map (snd \<circ> snd) (tl recs) @ [word_of (take 8 behind)]"
    using assms(3)
  proof (induction recs)
    case (Cons r recs)
    then show ?case by (cases recs) (auto simp: split_def)
  qed simp
  then show "\<exists>block. ParseBlock \<lparr>pi_numRecords = of_nat (length recs), pi_contentFlags = flags, pi_localeFlags = locales,
      pi_data = Some (body_bytes canSkip (flags, locales, recs) @ behind,
        length (body_bytes canSkip (flags, locales, recs)))\<rparr> cks False canSkip = Inr (Some block) \<and>
      map re_ContentKey (bl_entries block) = map (\<lambda>(_, k, _). Key_of_span k) recs \<and>
      map re_FileDataID (bl_entries block) = map fst recs \<and>
      map re_NameHash (bl_entries block) = map (snd \<circ> snd) (tl recs) @ [word_of (take 8 behind)]"
    using ParseBlock_encoded [OF assms(1,4)] assms(2,5) by (auto simp: block_result_def Let_def)
  show "Root_Parse FileStream_vt cks (FileStream_new (Some (root_bytes files named (bs @ [(flags, locales, recs)])))) =
      Inl OutOfBounds"
    using fstream.Root_Parse_encoded [OF root_file(1,2) _ root_file(3), OF assms(8,8) _ assms(8), of cks] assms(1-3,6,7)
      collect_block_results_last [of canSkip flags recs bs locales "[]"] by auto
qed

text \<open>C14: the loop over the pages of any file ends, whatever it holds: the parser returns, fails or reads out of
  bounds, but does not run for ever.\<close>

theorem Root_Parse_terminates:
  assumes "FileStream_ok s" and "length (fs_stream s) < size_mod - 12"
  shows "Root_Parse FileStream_vt cks s \<noteq> Inl Diverges"
  using assms by (rule fstream.Root_Parse_returns)

text \<open>C15: in a manifest whose blocks are ordered, looking up an identifier returns the content key of the first
  record whose identifier is not smaller: the file's own key when no earlier block reaches the identifier, and otherwise, or
  when there is no such file, the key of another file. A path is compared by a hash of 32 bits and finds no
  record whose hash needs more.\<close>

theorem Root_FindFile_not_smaller:
  assumes "\<forall>block \<in> set root. sorted (map re_FileDataID (bl_entries block))"
  shows "Root_FindFile root fileDataID =
      map_option re_ContentKey (find (\<lambda>e. fileDataID \<le> re_FileDataID e) (concat (map bl_entries root))) \<and>
    ((\<forall>block \<in> set root. \<forall>e \<in> set (bl_entries block). 2 ^ 32 \<le> unat (re_NameHash e)) \<longrightarrow>
      Root_FindFile_name le addr root fileName = None)"
  using Root_FindFile_find [OF assms] Root_FindFile_name_high by blast

definition example_root :: "rblock list" where
  "example_root = [(NoNameHash, 2, [(5, [1, 2], 0), (9, [3, 4], 0)])]"

lemma Root_Parse_roundtrip_witness:
  "\<exists>s'. Root_Parse FileStream_vt 2 (FileStream_new (Some (root_bytes 2 1 example_root))) =
    Inr (Some [\<lparr>bl_Content = NoNameHash, bl_Locales = 2, bl_entries =
      [\<lparr>re_ContentKey = Key_of_span [1, 2], re_FileDataID = 5, re_NameHash = 0\<rparr>,
       \<lparr>re_ContentKey = Key_of_span [3, 4], re_FileDataID = 9, re_NameHash = 0\<rparr>]\<rparr>], s')"
  using Root_Parse_roundtrip [of 2 1 example_root 2]
  by (simp add: example_root_def root_bytes_def rblock_bytes_triple body_bytes_def has_names_def NoNameHash_def
      rblock_ok_def)

lemma Root_names_shifted_witness:
  "Root_Parse FileStream_vt 2 (FileStream_new (Some (root_bytes 1 1 ([] @ [(0, 2, [(5, [1, 2], 7)])])))) = Inl OutOfBounds"
  by (rule conjunct2 [OF Root_names_shifted [where cks = 2 and canSkip = False and behind = "replicate 8 0"]])
    (simp_all add: root_bytes_def rblock_bytes_triple body_bytes_def has_names_def rblock_ok_def size_mod_def names_of_def)

lemma Root_Parse_terminates_witness:
  "Root_Parse FileStream_vt 16 (FileStream_new (Some [1, 2, 3, 4, 5])) \<noteq> Inl Diverges"
  by (rule Root_Parse_terminates) (simp_all add: FileStream_new_def FileStream_ok_def size_mod_def)

lemma Root_FindFile_not_smaller_witness:
  "Root_FindFile [\<lparr>bl_Content = 0, bl_Locales = 0, bl_entries =
      [\<lparr>re_ContentKey = Key_of_span [1, 2], re_FileDataID = 5, re_NameHash = 0\<rparr>,
       \<lparr>re_ContentKey = Key_of_span [3, 4], re_FileDataID = 9, re_NameHash = 0\<rparr>]\<rparr>] 6 = Some (Key_of_span [3, 4])"
  by (rule trans [OF conjunct1 [OF Root_FindFile_not_smaller]]) simp_all

end
