(* ===== verification/Ribbit.thy ===== *)
theory Ribbit
  imports Prelude Tokenizer Numbers
begin

text \<open>
  \<^verbatim>\<open>libtactmon/ribbit\<close>: the protocol of the version servers. A command is a line of text; the answer is a message
  with a table, whose rows are lines and whose cells are separated by \<^verbatim>\<open>|\<close>. The connection, the parser of
  the message's header and \<^verbatim>\<open>boost::split\<close> are parameters.
\<close>

section \<open>Records\<close>

record VersionsRecord =
  vr_Region :: string
  vr_BuildConfig :: string
  vr_CDNConfig :: string
  vr_KeyRing :: string
  vr_BuildID :: nat
  vr_VersionsName :: string
  vr_ProductConfig :: string

record BGDLRecord =
  br_Region :: string
  br_BuildConfig :: string
  br_CDNConfig :: string
  br_KeyRing :: string
  br_BuildID :: nat
  br_VersionsName :: string
  br_ProductConfig :: string

record CDNsRecord =
  cr_Name :: string
  cr_Path :: string
  cr_Hosts :: "string list"
  cr_Servers :: "string list"
  cr_ConfigPath :: string

record SummaryRecord =
  sr_Product :: string
  sr_SequenceID :: nat
  sr_Flags :: string

record Versions =
  vs_Records :: "VersionsRecord list"
  vs_SequenceID :: nat

definition u32_bound :: nat where
  "u32_bound = 4294967296"

definition VersionsRecord_Parse :: "string \<Rightarrow> VersionsRecord option" where
  "VersionsRecord_Parse input =
     (let tokens = Tokenize_char input (CHR ''|'') False in
      if length tokens \<noteq> 7 then None
      else case from_chars u32_bound (tokens ! 4) of None \<Rightarrow> None
      | Some buildID \<Rightarrow> Some \<lparr>vr_Region = tokens ! 0, vr_BuildConfig = tokens ! 1, vr_CDNConfig = tokens ! 2,
          vr_KeyRing = tokens ! 3, vr_BuildID = buildID, vr_VersionsName = tokens ! 5,
          vr_ProductConfig = tokens ! 6\<rparr>)"

definition BGDLRecord_Parse :: "string \<Rightarrow> BGDLRecord option" where
  "BGDLRecord_Parse input =
     (let tokens = Tokenize_char input (CHR ''|'') False in
      if length tokens \<noteq> 7 then None
      else case from_chars u32_bound (tokens ! 4) of None \<Rightarrow> None
      | Some buildID \<Rightarrow> Some \<lparr>br_Region = tokens ! 0, br_BuildConfig = tokens ! 1, br_CDNConfig = tokens ! 2,
          br_KeyRing = tokens ! 3, br_BuildID = buildID, br_VersionsName = tokens ! 5,
          br_ProductConfig = tokens ! 6\<rparr>)"

definition CDNsRecord_Parse :: "(string \<Rightarrow> string list) \<Rightarrow> string \<Rightarrow> CDNsRecord option" where
  "CDNsRecord_Parse split input =
     (let tokens = Tokenize_char input (CHR ''|'') False in
      if length tokens \<noteq> 5 then None
      else Some \<lparr>cr_Name = tokens ! 0, cr_Path = tokens ! 1, cr_Hosts = split (tokens ! 2),
        cr_Servers = split (tokens ! 3), cr_ConfigPath = tokens ! 4\<rparr>)"

definition SummaryRecord_Parse :: "string \<Rightarrow> SummaryRecord option" where
  "SummaryRecord_Parse input =
     (let tokens = Tokenize_char input (CHR ''|'') False in
      if length tokens \<noteq> 3 \<and> length tokens \<noteq> 2 then None
      else let flags = (if length tokens = 3 then tokens ! 2 else []) in
        case from_chars u32_bound (tokens ! 1) of None \<Rightarrow> None
        | Some sequenceID \<Rightarrow> Some \<lparr>sr_Product = tokens ! 0, sr_SequenceID = sequenceID, sr_Flags = flags\<rparr>)"

section \<open>Tables\<close>

definition crlf :: string where
  "crlf = [CHR 0x0D, CHR 0x0A]"

text \<open>The loop that the parsers of three tables share: the rows that parse.\<close>

primrec push_records :: "(string \<Rightarrow> 'r option) \<Rightarrow> string list \<Rightarrow> 'r list \<Rightarrow> 'r list" where
  "push_records parse [] records = records"
| "push_records parse (line # rows) records = (case parse line of
     Some r \<Rightarrow> push_records parse rows (records @ [r])
   | None \<Rightarrow> push_records parse rows records)"

definition BGDL_Parse :: "string \<Rightarrow> BGDLRecord list option result" where
  "BGDL_Parse input = bindr (Tokenize_sub input crlf True) (\<lambda>rows.
     let bgdl = push_records BGDLRecord_Parse rows [] in Inr (if bgdl = [] then None else Some (tl bgdl)))"

definition CDNs_Parse :: "(string \<Rightarrow> string list) \<Rightarrow> string \<Rightarrow> CDNsRecord list option result" where
  "CDNs_Parse split input = bindr (Tokenize_sub input crlf True) (\<lambda>rows.
     let cdns = push_records (CDNsRecord_Parse split) rows [] in Inr (if cdns = [] then None else Some (tl cdns)))"

definition Summary_Parse :: "string \<Rightarrow> SummaryRecord list option result" where
  "Summary_Parse input = bindr (Tokenize_sub input crlf True) (\<lambda>rows.
     let summary = push_records SummaryRecord_Parse rows [] in Inr (if summary = [] then None else Some summary))"

definition seqn_prefix :: string where
  "seqn_prefix = ''## seqn = ''"

primrec versions_lines :: "string list \<Rightarrow> Versions \<Rightarrow> Versions" where
  "versions_lines [] versions = versions"
| "versions_lines (line # rows) versions = (case VersionsRecord_Parse line of
     Some r \<Rightarrow> versions_lines rows (versions\<lparr>vs_Records := vs_Records versions @ [r]\<rparr>)
   | None \<Rightarrow>
       if prefix seqn_prefix line
       then versions_lines rows (versions\<lparr>vs_SequenceID :=
         (case from_chars size_mod (drop 10 line) of Some n \<Rightarrow> n | None \<Rightarrow> 0)\<rparr>)
       else versions_lines rows versions)"

definition Versions_Parse :: "string \<Rightarrow> Versions option result" where
  "Versions_Parse input = bindr (Tokenize_sub input crlf True) (\<lambda>rows.
     let versions = versions_lines rows \<lparr>vs_Records = [], vs_SequenceID = 0\<rparr> in
     Inr (if vs_Records versions = [] \<or> vs_SequenceID versions = 0 then None else Some versions))"

section \<open>Messages\<close>

text \<open>Version 1 answers with a MIME message. \<open>mime_boundary\<close> stands for Boost.Beast's parser, applied to the message as
  the body of a response, and the regular expression that takes the boundary out of its content type.\<close>

definition ParseCore_V1 :: "(string \<Rightarrow> string option) \<Rightarrow> string \<Rightarrow> string list result" where
  "ParseCore_V1 mime_boundary input = (case mime_boundary (''HTTP/1.1 200 OK'' @ crlf @ input) of
     None \<Rightarrow> Inr []
   | Some boundary \<Rightarrow> Tokenize_sub input (''--'' @ boundary @ crlf) True)"

definition ParseCore_V2 :: "string \<Rightarrow> string list result" where
  "ParseCore_V2 input = Tokenize_sub input (crlf @ crlf) False"

text \<open>The first part that parses.\<close>

primrec first_parsed :: "(string \<Rightarrow> 'v option result) \<Rightarrow> string list \<Rightarrow> 'v option result" where
  "first_parsed parse [] = Inr None"
| "first_parsed parse (elem # parts) = bindr (parse elem) (\<lambda>v. case v of
     Some x \<Rightarrow> Inr (Some x) | None \<Rightarrow> first_parsed parse parts)"

datatype Version = V1 | V2

definition VersionTraits_Parse ::
  "(string \<Rightarrow> string option) \<Rightarrow> Version \<Rightarrow> (string \<Rightarrow> 'v option result) \<Rightarrow> string \<Rightarrow> 'v option result" where
  "VersionTraits_Parse mime_boundary version parse payload =
     bindr (case version of V1 \<Rightarrow> ParseCore_V1 mime_boundary payload | V2 \<Rightarrow> ParseCore_V2 payload)
       (first_parsed parse)"

section \<open>Commands\<close>

datatype Region = EU | US | KR | CN | TW

fun Region_format :: "Region \<Rightarrow> string" where
  "Region_format EU = ''eu''"
| "Region_format US = ''us''"
| "Region_format KR = ''kr''"
| "Region_format CN = ''cn''"
| "Region_format TW = ''tw''"

fun Version_format :: "Version \<Rightarrow> string" where
  "Version_format V1 = ''v1''"
| "Version_format V2 = ''v2''"

datatype Command = Summary | ProductVersions | ProductCDNs | ProductBGDL | Certificate | OCSP

text \<open>The format strings, applied to the version and the product; the last two commands have none.\<close>

fun Command_Format :: "Command \<Rightarrow> string \<Rightarrow> string \<Rightarrow> string option" where
  "Command_Format Summary version product = Some (version @ ''/summary'')"
| "Command_Format ProductVersions version product = Some (version @ ''/products/'' @ product @ ''/versions'')"
| "Command_Format ProductCDNs version product = Some (version @ ''/products/'' @ product @ ''/cdns'')"
| "Command_Format ProductBGDL version product = Some (version @ ''/products/'' @ product @ ''/cdns'')"
| "Command_Format _ version product = None"

text \<open>A connection: \<^verbatim>\<open>None\<close> is an error; reading to the end of the stream is none.\<close>

record 'c network =
  net_resolve :: "string \<Rightarrow> string \<Rightarrow> bool"   \<comment> \<open>whether the name resolves; \<^verbatim>\<open>resolve\<close> throws otherwise\<close>
  net_connect :: "string \<Rightarrow> string \<Rightarrow> 'c option"
  net_write :: "'c \<Rightarrow> string \<Rightarrow> 'c option"
  net_read :: "'c \<Rightarrow> string option"

definition Execute ::
  "'c network \<Rightarrow> (string \<Rightarrow> string option) \<Rightarrow> string \<Rightarrow> Version \<Rightarrow> (string \<Rightarrow> 'v option result) \<Rightarrow> Region
    \<Rightarrow> 'v option result" where
  "Execute net mime_boundary command version parse region =
     (let command = command @ crlf; host = Region_format region @ ''.version.battle.net'' in
      if \<not> net_resolve net host ''1119'' then Inl Thrown
      else case net_connect net host ''1119'' of None \<Rightarrow> Inr None
      | Some socket \<Rightarrow> (case net_write net socket command of None \<Rightarrow> Inr None
        | Some socket \<Rightarrow> (case net_read net socket of None \<Rightarrow> Inr None
          | Some response \<Rightarrow> VersionTraits_Parse mime_boundary version parse response)))"

definition Execute_Versions where
  "Execute_Versions net mime_boundary version region product =
     (case Command_Format ProductVersions (Version_format version) product of None \<Rightarrow> Inr None
      | Some command \<Rightarrow> Execute net mime_boundary command version Versions_Parse region)"

definition Execute_CDNs where
  "Execute_CDNs net mime_boundary split version region product =
     (case Command_Format ProductCDNs (Version_format version) product of None \<Rightarrow> Inr None
      | Some command \<Rightarrow> Execute net mime_boundary command version (CDNs_Parse split) region)"

definition Execute_BGDL where
  "Execute_BGDL net mime_boundary version region product =
     (case Command_Format ProductBGDL (Version_format version) product of None \<Rightarrow> Inr None
      | Some command \<Rightarrow> Execute net mime_boundary command version BGDL_Parse region)"

definition Execute_Summary where
  "Execute_Summary net mime_boundary version region =
     (case Command_Format Summary (Version_format version) [] of None \<Rightarrow> Inr None
      | Some command \<Rightarrow> Execute net mime_boundary command version Summary_Parse region)"

section \<open>Splitting what was joined\<close>

text \<open>The cells of a row, with separators between them.\<close>

fun row :: "string list \<Rightarrow> string" where
  "row [] = []"
| "row [f] = f"
| "row (f # g # fs) = f @ CHR ''|'' # row (g # fs)"

definition cells :: "string list \<Rightarrow> bool" where
  "cells fs \<longleftrightarrow> list_all (\<lambda>f. CHR ''|'' \<notin> set f \<and> CHR 0x0D \<notin> set f) fs"

lemma Tokenize_row: "cells fs \<Longrightarrow> fs \<noteq> [] \<Longrightarrow> last fs \<noteq> [] \<Longrightarrow> Tokenize_char (row fs) (CHR ''|'') False = fs"
  by (induction fs rule: row.induct) (auto simp: cells_def Tokenize_char_none Tokenize_char_step)

text \<open>An empty last cell is not delivered.\<close>

lemma Tokenize_row_last_empty: "cells fs \<Longrightarrow> fs \<noteq> [] \<Longrightarrow> Tokenize_char (row (fs @ [[]])) (CHR ''|'') False = fs"
proof (induction fs rule: row.induct)
  case (2 f)
  then show ?case using Tokenize_char_step [of "CHR ''|''" f "[]" False] by (simp add: cells_def)
qed (auto simp: cells_def Tokenize_char_step)

lemma set_row: "c \<in> set (row fs) \<Longrightarrow> c = CHR ''|'' \<or> (\<exists>f \<in> set fs. c \<in> set f)"
  by (induction fs rule: row.induct) auto

lemma row_line: "cells fs \<Longrightarrow> CHR 0x0D \<notin> set (row fs)"
  using set_row [of "CHR 0x0D" fs] by (auto simp: cells_def list_all_iff)

lemma cells_number [simp]:
  "CHR ''|'' \<notin> set (print_nat n)" "CHR 0x0D \<notin> set (print_nat n)" "CHR ''-'' \<notin> set (print_nat n)"
  using print_nat_digits [of n] by (auto simp: is_digit_def)

lemma find_sub_step: "c \<notin> set e \<Longrightarrow> find_sub (c # t) (e @ (c # t) @ s) = Some (length e)"
proof (induction e)
  case (Cons x e)
  then show ?case by (auto simp: prefix_def)
qed (auto simp: prefix_def)

lemma Tokenize_sub_loop_rejoin:
  assumes "\<forall>e \<in> set es. c \<notin> set e" and "length es \<le> fuel"
  shows "Tokenize_sub_loop fuel (rejoin (c # t) es) (c # t) r acc =
    Inr (acc @ (if r then filter (\<lambda>e. e \<noteq> []) es else es))"
  using assms
proof (induction es arbitrary: fuel acc)
  case Nil
  then show ?case by (cases fuel) simp_all
next
  case (Cons e es)
  then obtain f where "fuel = Suc f" by (cases fuel) auto
  then show ?case
    using Cons find_sub_step [of c e t "rejoin (c # t) es"] by (auto simp: Let_def)
qed

lemma length_rejoin: "t \<noteq> [] \<Longrightarrow> length es \<le> length (rejoin t es)"
  by (induction es) (auto simp: neq_Nil_conv)

lemma Tokenize_sub_rejoin:
  "\<forall>e \<in> set es. c \<notin> set e \<Longrightarrow>
    Tokenize_sub (rejoin (c # t) es) (c # t) r = Inr (if r then filter (\<lambda>e. e \<noteq> []) es else es)"
  unfolding Tokenize_sub_def
  using Tokenize_sub_loop_rejoin [of es c "length (rejoin (c # t) es)" t r "[]"] length_rejoin [of "c # t" es] by simp

lemma Tokenize_lines:
  "\<forall>e \<in> set es. CHR 0x0D \<notin> set e \<and> e \<noteq> [] \<Longrightarrow> Tokenize_sub (rejoin crlf es) crlf True = Inr es"
  using Tokenize_sub_rejoin [of es "CHR 0x0D" "[CHR 0x0A]" True] by (simp add: crlf_def filter_id_conv)

section \<open>Rows of records\<close>

text \<open>What the parser of a table relies on: a record that can be printed is read back, and is one line of text.\<close>

locale record_format =
  fixes parse :: "string \<Rightarrow> 'r option" and print :: "'r \<Rightarrow> string" and ok :: "'r \<Rightarrow> bool"
  assumes parse_print: "ok r \<Longrightarrow> parse (print r) = Some r"
    and print_line: "ok r \<Longrightarrow> CHR 0x0D \<notin> set (print r) \<and> print r \<noteq> []"
begin

lemma push_records_print: "\<forall>r \<in> set rs. ok r \<Longrightarrow> push_records parse (map print rs) acc = acc @ rs"
  by (induction rs arbitrary: acc) (auto simp: parse_print)

lemma push_records_skip: "\<forall>l \<in> set ls. parse l = None \<Longrightarrow> push_records parse (ls @ rest) acc = push_records parse rest acc"
  by (induction ls arbitrary: acc) auto

text \<open>A table: lines that are no records, and the rows.\<close>

lemma table_rows:
  assumes "\<forall>l \<in> set ls. parse l = None \<and> CHR 0x0D \<notin> set l \<and> l \<noteq> []" and "\<forall>r \<in> set rs. ok r"
  shows "Tokenize_sub (rejoin crlf (ls @ map print rs)) crlf True = Inr (ls @ map print rs) \<and>
    push_records parse (ls @ map print rs) [] = rs"
proof
  have "\<forall>e \<in> set (ls @ map print rs). CHR 0x0D \<notin> set e \<and> e \<noteq> []"
    using assms print_line by auto
  then show "Tokenize_sub (rejoin crlf (ls @ map print rs)) crlf True = Inr (ls @ map print rs)"
    by (rule Tokenize_lines)
  show "push_records parse (ls @ map print rs) [] = rs"
    using assms push_records_skip [of ls "map print rs" "[]"] push_records_print [of rs "[]"] by simp
qed

end

definition print_version :: "VersionsRecord \<Rightarrow> string" where
  "print_version r = row [vr_Region r, vr_BuildConfig r, vr_CDNConfig r, vr_KeyRing r, print_nat (vr_BuildID r),
     vr_VersionsName r, vr_ProductConfig r]"

definition version_ok :: "VersionsRecord \<Rightarrow> bool" where
  "version_ok r \<longleftrightarrow> cells [vr_Region r, vr_BuildConfig r, vr_CDNConfig r, vr_KeyRing r, vr_VersionsName r,
     vr_ProductConfig r] \<and> vr_BuildID r < u32_bound \<and> vr_ProductConfig r \<noteq> []"

definition print_bgdl :: "BGDLRecord \<Rightarrow> string" where
  "print_bgdl r = row [br_Region r, br_BuildConfig r, br_CDNConfig r, br_KeyRing r, print_nat (br_BuildID r),
     br_VersionsName r, br_ProductConfig r]"

definition bgdl_ok :: "BGDLRecord \<Rightarrow> bool" where
  "bgdl_ok r \<longleftrightarrow> cells [br_Region r, br_BuildConfig r, br_CDNConfig r, br_KeyRing r, br_VersionsName r,
     br_ProductConfig r] \<and> br_BuildID r < u32_bound \<and> br_ProductConfig r \<noteq> []"

text \<open>Words with a blank between them.\<close>

definition blanks :: "string list \<Rightarrow> string" where
  "blanks ws = butlast (rejoin '' '' ws)"

definition print_cdns :: "CDNsRecord \<Rightarrow> string" where
  "print_cdns r = row [cr_Name r, cr_Path r, blanks (cr_Hosts r), blanks (cr_Servers r), cr_ConfigPath r]"

definition cdns_ok :: "(string \<Rightarrow> string list) \<Rightarrow> CDNsRecord \<Rightarrow> bool" where
  "cdns_ok split r \<longleftrightarrow> cells [cr_Name r, cr_Path r, blanks (cr_Hosts r), blanks (cr_Servers r), cr_ConfigPath r] \<and>
     cr_ConfigPath r \<noteq> [] \<and> split (blanks (cr_Hosts r)) = cr_Hosts r \<and> split (blanks (cr_Servers r)) = cr_Servers r"

definition print_summary :: "SummaryRecord \<Rightarrow> string" where
  "print_summary r = row [sr_Product r, print_nat (sr_SequenceID r), sr_Flags r]"

definition summary_ok :: "SummaryRecord \<Rightarrow> bool" where
  "summary_ok r \<longleftrightarrow> cells [sr_Product r, sr_Flags r] \<and> sr_SequenceID r < u32_bound"

lemma cells_simps [simp]:
  "cells []" "cells (f # fs) \<longleftrightarrow> CHR ''|'' \<notin> set f \<and> CHR 0x0D \<notin> set f \<and> cells fs"
  by (simp_all add: cells_def)

lemma row_nonempty [simp]: "row (f # g # fs) \<noteq> []"
  by simp

interpretation versions_format: record_format VersionsRecord_Parse print_version version_ok
proof unfold_locales
  fix r assume r: "version_ok r"
  let ?fs = "[vr_Region r, vr_BuildConfig r, vr_CDNConfig r, vr_KeyRing r, print_nat (vr_BuildID r),
    vr_VersionsName r, vr_ProductConfig r]"
  have fs: "cells ?fs" using r by (simp add: version_ok_def)
  then have "Tokenize_char (row ?fs) (CHR ''|'') False = ?fs"
    using r by (intro Tokenize_row) (simp_all add: version_ok_def)
  then show "VersionsRecord_Parse (print_version r) = Some r"
    using r unfolding VersionsRecord_Parse_def print_version_def by (simp add: version_ok_def del: row.simps)
  show "CHR 0x0D \<notin> set (print_version r) \<and> print_version r \<noteq> []"
    unfolding print_version_def using row_line [OF fs] by (simp del: row.simps)
qed

interpretation bgdl_format: record_format BGDLRecord_Parse print_bgdl bgdl_ok
proof unfold_locales
  fix r assume r: "bgdl_ok r"
  let ?fs = "[br_Region r, br_BuildConfig r, br_CDNConfig r, br_KeyRing r, print_nat (br_BuildID r),
    br_VersionsName r, br_ProductConfig r]"
  have fs: "cells ?fs" using r by (simp add: bgdl_ok_def)
  then have "Tokenize_char (row ?fs) (CHR ''|'') False = ?fs"
    using r by (intro Tokenize_row) (simp_all add: bgdl_ok_def)
  then show "BGDLRecord_Parse (print_bgdl r) = Some r"
    using r unfolding BGDLRecord_Parse_def print_bgdl_def by (simp add: bgdl_ok_def del: row.simps)
  show "CHR 0x0D \<notin> set (print_bgdl r) \<and> print_bgdl r \<noteq> []"
    unfolding print_bgdl_def using row_line [OF fs] by (simp del: row.simps)
qed

interpretation cdns_format: record_format "CDNsRecord_Parse split" print_cdns "cdns_ok split" for split
proof unfold_locales
  fix r assume r: "cdns_ok split r"
  let ?fs = "[cr_Name r, cr_Path r, blanks (cr_Hosts r), blanks (cr_Servers r), cr_ConfigPath r]"
  have fs: "cells ?fs" using r by (simp add: cdns_ok_def)
  then have "Tokenize_char (row ?fs) (CHR ''|'') False = ?fs"
    using r by (intro Tokenize_row) (simp_all add: cdns_ok_def)
  then show "CDNsRecord_Parse split (print_cdns r) = Some r"
    using r unfolding CDNsRecord_Parse_def print_cdns_def by (simp add: cdns_ok_def del: row.simps)
  show "CHR 0x0D \<notin> set (print_cdns r) \<and> print_cdns r \<noteq> []"
    unfolding print_cdns_def using row_line [OF fs] by (simp del: row.simps)
qed

interpretation summary_format: record_format SummaryRecord_Parse print_summary summary_ok
proof unfold_locales
  fix r assume r: "summary_ok r"
  let ?fs = "[sr_Product r, print_nat (sr_SequenceID r)]"
  have fs: "cells (?fs @ [sr_Flags r])" "cells ?fs" using r by (simp_all add: summary_ok_def)
  have "Tokenize_char (row (?fs @ [sr_Flags r])) (CHR ''|'') False =
      (if sr_Flags r = [] then ?fs else ?fs @ [sr_Flags r])"
    using Tokenize_row [OF fs(1)] Tokenize_row_last_empty [OF fs(2)] by simp
  then show "SummaryRecord_Parse (print_summary r) = Some r"
    using r unfolding SummaryRecord_Parse_def print_summary_def by (auto simp: summary_ok_def simp del: row.simps)
  show "CHR 0x0D \<notin> set (print_summary r) \<and> print_summary r \<noteq> []"
    unfolding print_summary_def using row_line [OF fs(1)] by (simp del: row.simps)
qed

section \<open>Tables and messages\<close>

lemma versions_lines_print:
  "\<forall>r \<in> set rs. version_ok r \<Longrightarrow>
    versions_lines (map print_version rs) v = v\<lparr>vs_Records := vs_Records v @ rs\<rparr>"
  by (induction rs arbitrary: v) (auto simp: versions_format.parse_print)

lemma row_without_bar: "CHR ''|'' \<notin> set l \<Longrightarrow> VersionsRecord_Parse l = None"
  by (cases "l = []") (simp_all add: VersionsRecord_Parse_def Tokenize_char_none)

lemma seqn_line: "CHR ''|'' \<notin> set (seqn_prefix @ print_nat n)" "CHR 0x0D \<notin> set (seqn_prefix @ print_nat n)"
  by (simp_all add: seqn_prefix_def)

lemma find_sub_separator:
  assumes "c \<notin> set u" and "\<not> sublist (u @ [c]) e"
  shows "find_sub (u @ [c]) (e @ (u @ [c]) @ s) = Some (length e)"
  using assms(2)
proof (induction e)
  case Nil
  obtain x xs where "u @ [c] = x # xs" by (cases "u @ [c]") auto
  then show ?case by (simp add: prefix_def)
next
  case (Cons x e)
  let ?t = "u @ [c]"
  have "\<not> prefix ?t ((x # e) @ ?t @ s)"
  proof
    assume p: "prefix ?t ((x # e) @ ?t @ s)"
    show False
    proof (cases "length ?t \<le> length (x # e)")
      case True
      then have "prefix ?t (x # e)" using p by (metis prefix_length_prefix prefixI)
      then show False using Cons.prems by (simp add: prefix_imp_sublist)
    next
      case False
      define k where "k = length ?t - length (x # e)"
      have k: "0 < k" "k \<le> length u" using False by (simp_all add: k_def)
      from p have "?t = take (length ?t) ((x # e) @ ?t @ s)" by (metis append_eq_conv_conj prefixE)
      also have "\<dots> = (x # e) @ take k u" using False k by (simp add: k_def)
      finally have "last ?t = last ((x # e) @ take k u)" by metis
      moreover have "take k u \<noteq> []" using k by auto
      ultimately have "c = last (take k u)" by simp
      then have "c \<in> set (take k u)" using \<open>take k u \<noteq> []\<close> by simp
      then show False using assms(1) set_take_subset [of k u] by auto
    qed
  qed
  moreover have "\<not> sublist ?t e" using Cons.prems by (simp add: sublist_Cons_right)
  ultimately show ?case using Cons.IH by simp
qed

lemma Tokenize_sub_loop_parts:
  assumes "c \<notin> set u" and "\<forall>e \<in> set es. \<not> sublist (u @ [c]) e" and "length es \<le> fuel"
  shows "Tokenize_sub_loop fuel (rejoin (u @ [c]) es) (u @ [c]) True acc = Inr (acc @ filter (\<lambda>e. e \<noteq> []) es)"
  using assms(2,3)
proof (induction es arbitrary: fuel acc)
  case Nil
  then show ?case by (cases fuel) simp_all
next
  case (Cons e es)
  then obtain f where "fuel = Suc f" by (cases fuel) auto
  then show ?case
    using Cons find_sub_separator [OF assms(1), of e "rejoin (u @ [c]) es"] by (auto simp: Let_def)
qed

lemma Tokenize_parts:
  assumes "c \<notin> set u" and "\<forall>e \<in> set es. e \<noteq> [] \<and> \<not> sublist (u @ [c]) e"
  shows "Tokenize_sub (rejoin (u @ [c]) es) (u @ [c]) True = Inr es"
  unfolding Tokenize_sub_def
  using Tokenize_sub_loop_parts [OF assms(1), of es "length (rejoin (u @ [c]) es)" "[]"] assms(2)
    length_rejoin [of "u @ [c]" es] by (simp add: filter_id_conv)

lemma first_parsed_skip:
  "\<forall>p \<in> set ps. parse p = Inr None \<Longrightarrow> first_parsed parse (ps @ qs) = first_parsed parse qs"
  by (induction ps) auto

lemma Versions_Parse_table:
  assumes "VersionsRecord_Parse h = None" and "\<not> prefix seqn_prefix h" and "CHR 0x0D \<notin> set h" and "h \<noteq> []"
    and "0 < n" and "n < size_mod" and "vs \<noteq> []" and "\<forall>r \<in> set vs. version_ok r"
  shows "Versions_Parse (rejoin crlf (h # (seqn_prefix @ print_nat n) # map print_version vs)) =
    Inr (Some \<lparr>vs_Records = vs, vs_SequenceID = n\<rparr>)"
proof -
  let ?seqn = "seqn_prefix @ print_nat n"
  have "VersionsRecord_Parse ?seqn = None" using seqn_line(1) by (rule row_without_bar)
  moreover have "?seqn \<noteq> []" "prefix seqn_prefix ?seqn" "drop 10 ?seqn = print_nat n"
    by (simp_all add: seqn_prefix_def)
  moreover have "Tokenize_sub (rejoin crlf ([h, ?seqn] @ map print_version vs)) crlf True = Inr ([h, ?seqn] @ map print_version vs)"
    using versions_format.table_rows [of "[h, ?seqn]" vs] assms calculation seqn_line(2) by auto
  ultimately show ?thesis
    using assms by (simp add: Versions_Parse_def versions_lines_print)
qed

section \<open>Properties\<close>

text \<open>C10: tables are read back, whatever their number of rows: versions behind a header row and a line with a sequence
  number, servers behind a header row that has the shape of a record, and summaries, with or without flags,
  behind a header row.\<close>

theorem Tables_roundtrip:
  assumes "VersionsRecord_Parse h = None" and "\<not> prefix seqn_prefix h" and "CHR 0x0D \<notin> set h" and "h \<noteq> []"
    and "0 < n" and "n < size_mod" and "vs \<noteq> []" and "\<forall>r \<in> set vs. version_ok r"
    and "\<forall>r \<in> set (c # cs). cdns_ok split r"
    and "SummaryRecord_Parse h' = None" and "CHR 0x0D \<notin> set h'" and "h' \<noteq> []" and "ss \<noteq> []" and "\<forall>r \<in> set ss. summary_ok r"
  shows "Versions_Parse (rejoin crlf (h # (seqn_prefix @ print_nat n) # map print_version vs)) =
      Inr (Some \<lparr>vs_Records = vs, vs_SequenceID = n\<rparr>) \<and>
    CDNs_Parse split (rejoin crlf (map print_cdns (c # cs))) = Inr (Some cs) \<and>
    Summary_Parse (rejoin crlf (h' # map print_summary ss)) = Inr (Some ss)"
proof (intro conjI)
  show "Versions_Parse (rejoin crlf (h # (seqn_prefix @ print_nat n) # map print_version vs)) =
      Inr (Some \<lparr>vs_Records = vs, vs_SequenceID = n\<rparr>)"
    using assms(1-8) by (rule Versions_Parse_table)
  show "CDNs_Parse split (rejoin crlf (map print_cdns (c # cs))) = Inr (Some cs)"
    using cdns_format.table_rows [of "[]" split "c # cs"] assms(9) by (auto simp: CDNs_Parse_def)
  show "Summary_Parse (rejoin crlf (h' # map print_summary ss)) = Inr (Some ss)"
    using summary_format.table_rows [of "[h']" ss] assms by (simp add: Summary_Parse_def)
qed

text \<open>C16: rows that are lost. A table of background downloads loses its first row although its header, whose build
  number is no number, was not taken for a record; a row of versions whose last cell is empty is not parsed; and the command
  for background downloads asks for the table of servers, none of whose rows it can parse.\<close>

theorem Ribbit_lost_rows:
  assumes "BGDLRecord_Parse h = None" and "CHR 0x0D \<notin> set h" and "h \<noteq> []" and "\<forall>r \<in> set (b # bs). bgdl_ok r"
    and "version_ok v" and "cs \<noteq> []" and "\<forall>r \<in> set cs. cdns_ok split r"
  shows "BGDL_Parse (rejoin crlf (h # map print_bgdl (b # bs))) = Inr (Some bs) \<and>
    VersionsRecord_Parse (print_version (v\<lparr>vr_ProductConfig := []\<rparr>)) = None \<and>
    Command_Format ProductBGDL version product = Command_Format ProductCDNs version product \<and>
    BGDL_Parse (rejoin crlf (map print_cdns cs)) = Inr None"
proof (intro conjI)
  show "BGDL_Parse (rejoin crlf (h # map print_bgdl (b # bs))) = Inr (Some bs)"
    using bgdl_format.table_rows [of "[h]" "b # bs"] assms(1-4) by (auto simp: BGDL_Parse_def)
  let ?fs = "[vr_Region v, vr_BuildConfig v, vr_CDNConfig v, vr_KeyRing v, print_nat (vr_BuildID v), vr_VersionsName v]"
  have "Tokenize_char (row (?fs @ [[]])) (CHR ''|'') False = ?fs"
    using assms(5) by (intro Tokenize_row_last_empty) (simp_all add: version_ok_def)
  then show "VersionsRecord_Parse (print_version (v\<lparr>vr_ProductConfig := []\<rparr>)) = None"
    by (simp add: VersionsRecord_Parse_def print_version_def)
  show "Command_Format ProductBGDL version product = Command_Format ProductCDNs version product" by simp
  have "BGDLRecord_Parse (print_cdns r) = None" if "cdns_ok split r" for r
  proof -
    let ?fs = "[cr_Name r, cr_Path r, blanks (cr_Hosts r), blanks (cr_Servers r), cr_ConfigPath r]"
    have "Tokenize_char (row ?fs) (CHR ''|'') False = ?fs"
      using that by (intro Tokenize_row) (simp_all add: cdns_ok_def)
    then show ?thesis unfolding BGDLRecord_Parse_def print_cdns_def by (simp del: row.simps)
  qed
  then have "push_records BGDLRecord_Parse (map print_cdns cs) [] = []"
    using bgdl_format.push_records_skip [of "map print_cdns cs" "[]" "[]"] assms(7) by simp
  then show "BGDL_Parse (rejoin crlf (map print_cdns cs)) = Inr None"
    using cdns_format.table_rows [of "[]" split cs] assms(7) by (auto simp: BGDL_Parse_def)
qed

text \<open>The versions command as a whole: it connects to the server of the region, sends the line for the product and
  returns the table in the first part of the answer that holds one, whatever stands in the other parts; an error
  of the connection, at any point, gives no result, but a name that does not resolve throws.\<close>

theorem Execute_Versions_message:
  assumes "CHR 0x0A \<notin> set boundary"
    and "mime_boundary (''HTTP/1.1 200 OK'' @ crlf @ rejoin (''--'' @ boundary @ crlf) (ps @ table # qs)) = Some boundary"
    and "\<forall>p \<in> set (ps @ table # qs). p \<noteq> [] \<and> \<not> sublist (''--'' @ boundary @ crlf) p"
    and "\<forall>p \<in> set ps. Versions_Parse p = Inr None" and "Versions_Parse table = Inr (Some v)"
    and "net_resolve net (Region_format region @ ''.version.battle.net'') ''1119''"
    and "net_connect net (Region_format region @ ''.version.battle.net'') ''1119'' = Some socket"
    and "net_write net socket (''v1/products/'' @ product @ ''/versions'' @ crlf) = Some socket'"
    and "net_read net socket' = Some (rejoin (''--'' @ boundary @ crlf) (ps @ table # qs))"
  shows "Execute_Versions net mime_boundary V1 region product = Inr (Some v) \<and>
    Execute_Versions (net\<lparr>net_read := \<lambda>_. None\<rparr>) mime_boundary V1 region product = Inr None \<and>
    Execute_Versions (net\<lparr>net_write := \<lambda>_ _. None\<rparr>) mime_boundary V1 region product = Inr None \<and>
    Execute_Versions (net\<lparr>net_connect := \<lambda>_ _. None\<rparr>) mime_boundary V1 region product = Inr None \<and>
    Execute_Versions (net\<lparr>net_resolve := \<lambda>_ _. False\<rparr>) mime_boundary V1 region product = Inl Thrown"
proof -
  let ?u = "''--'' @ boundary @ [CHR 0x0D]"
  have t: "''--'' @ boundary @ crlf = ?u @ [CHR 0x0A]" by (simp add: crlf_def)
  have "Tokenize_sub (rejoin (''--'' @ boundary @ crlf) (ps @ table # qs)) (''--'' @ boundary @ crlf) True =
      Inr (ps @ table # qs)"
    using assms(1,3) unfolding t by (intro Tokenize_parts) auto
  moreover have "first_parsed Versions_Parse (ps @ table # qs) = Inr (Some v)"
    using first_parsed_skip [OF assms(4)] assms(5) by simp
  ultimately have "VersionTraits_Parse mime_boundary V1 Versions_Parse (rejoin (''--'' @ boundary @ crlf) (ps @ table # qs)) =
      Inr (Some v)"
    using assms(2) unfolding VersionTraits_Parse_def ParseCore_V1_def by simp
  then show ?thesis
    using assms(6-9) by (auto simp: Execute_Versions_def Execute_def Let_def split: option.split)
qed

definition example_version :: VersionsRecord where
  "example_version = \<lparr>vr_Region = ''us'', vr_BuildConfig = ''ab'', vr_CDNConfig = ''cd'', vr_KeyRing = [],
     vr_BuildID = 7, vr_VersionsName = ''1.0.7'', vr_ProductConfig = ''ef''\<rparr>"

definition example_server :: CDNsRecord where
  "example_server = \<lparr>cr_Name = ''us'', cr_Path = ''tpr/wow'', cr_Hosts = [''a''], cr_Servers = [''b''],
     cr_ConfigPath = ''tpr''\<rparr>"

lemma example_ok:
  "version_ok example_version" "cdns_ok (\<lambda>s. [s]) example_server"
  "VersionsRecord_Parse ''Region'' = None" "SummaryRecord_Parse ''Product'' = None" "BGDLRecord_Parse ''Region'' = None"
  by (simp_all add: example_version_def version_ok_def example_server_def cdns_ok_def blanks_def u32_bound_def
      VersionsRecord_Parse_def SummaryRecord_Parse_def BGDLRecord_Parse_def Tokenize_char_none)

text \<open>An answer with one part.\<close>

lemma example_answer:
  assumes "CHR ''-'' \<notin> set table" and "table \<noteq> []" and "parse table = Inr (Some v)"
  shows "VersionTraits_Parse (\<lambda>_. Some ''b'') V1 parse (rejoin (''--b'' @ crlf) [table]) = Inr (Some v)"
proof -
  let ?sep = "(''--b'' @ [CHR 0x0D]) @ [CHR 0x0A]"
  have "\<not> sublist ?sep table" using set_mono_sublist [of ?sep table] assms(1) by auto
  then have "Tokenize_sub (rejoin ?sep [table]) ?sep True = Inr [table]"
    using assms(2) by (intro Tokenize_parts) auto
  then show ?thesis using assms(3) by (simp add: VersionTraits_Parse_def ParseCore_V1_def crlf_def)
qed

lemma Tables_roundtrip_witness:
  "Versions_Parse (rejoin crlf (''Region'' # (seqn_prefix @ print_nat 5) # map print_version [example_version])) =
      Inr (Some \<lparr>vs_Records = [example_version], vs_SequenceID = 5\<rparr>)"
  by (rule conjunct1 [OF Tables_roundtrip [where c = example_server and cs = "[]" and split = "\<lambda>s. [s]" and h' = "''Product''"
        and ss = "[\<lparr>sr_Product = ''wow'', sr_SequenceID = 3, sr_Flags = []\<rparr>]"]])
    (simp_all add: example_ok seqn_prefix_def size_mod_def summary_ok_def u32_bound_def)

lemma Ribbit_lost_rows_witness:
  "BGDL_Parse (rejoin crlf (''Region'' # map print_bgdl [\<lparr>br_Region = ''us'', br_BuildConfig = ''ab'', br_CDNConfig = ''cd'',
      br_KeyRing = [], br_BuildID = 7, br_VersionsName = ''1.0.7'', br_ProductConfig = ''ef''\<rparr>])) = Inr (Some [])"
  by (rule conjunct1 [OF Ribbit_lost_rows [where v = example_version and cs = "[example_server]" and split = "\<lambda>s. [s]"]])
    (simp_all add: example_ok bgdl_ok_def u32_bound_def)

lemma Execute_Versions_message_witness:
  "Execute_Versions \<lparr>net_resolve = \<lambda>_ _. True, net_connect = \<lambda>_ _. Some (), net_write = \<lambda>_ _. Some (),
      net_read = \<lambda>_. Some (rejoin (''--'' @ ''b'' @ crlf) ([''head''] @
        rejoin crlf (''Region'' # (seqn_prefix @ print_nat 5) # map print_version [example_version]) # []))\<rparr>
      (\<lambda>_. Some ''b'') V1 EU ''wow'' = Inr (Some \<lparr>vs_Records = [example_version], vs_SequenceID = 5\<rparr>)"
proof -
  let ?table = "rejoin crlf (''Region'' # (seqn_prefix @ print_nat 5) # map print_version [example_version])"
  have dash: "\<not> sublist (''--'' @ ''b'' @ crlf) e" if "CHR ''-'' \<notin> set e" for e
    using that set_mono_sublist [of "''--'' @ ''b'' @ crlf" e] by auto
  have "CHR ''-'' \<notin> set ?table"
    by (simp add: crlf_def seqn_prefix_def print_version_def example_version_def)
  then have "\<not> sublist (''--'' @ ''b'' @ crlf) ?table" by (rule dash)
  moreover have "\<not> sublist (''--'' @ ''b'' @ crlf) ''head''" by (rule dash) simp
  moreover have "?table \<noteq> []" by simp
  moreover have "Versions_Parse ''head'' = Inr None" by code_simp
  moreover have "Versions_Parse ?table = Inr (Some \<lparr>vs_Records = [example_version], vs_SequenceID = 5\<rparr>)"
    by (intro Versions_Parse_table) (simp_all add: example_ok seqn_prefix_def size_mod_def)
  ultimately show ?thesis
    by (intro conjunct1 [OF Execute_Versions_message [where socket = "()" and socket' = "()" and boundary = "''b''" and
          ps = "[''head'']" and table = ?table and qs = "[]"]]) simp_all
qed

end
