(* ===== verification/Cache.thy ===== *)
theory Cache
  imports Streams
begin

text \<open>
  \<^verbatim>\<open>libtactmon/tact/Cache.cpp\<close>: the part of the file system that keeps copies of files. The state is the
  map of regular files; directories are created when needed and are not part of it.
\<close>

type_synonym files = "string \<Rightarrow> byte list option"

text \<open>\<^verbatim>\<open>operator /\<close> of paths: an absolute second operand replaces the first.\<close>

definition path_append :: "string \<Rightarrow> string \<Rightarrow> string" where
  "path_append p q =
     (if q \<noteq> [] \<and> hd q = CHR ''/'' then q
      else if p = [] \<or> last p = CHR ''/'' then p @ q
      else p @ CHR ''/'' # q)"

definition GetAbsolutePath :: "string \<Rightarrow> string \<Rightarrow> string" where
  "GetAbsolutePath root relativePath =
     (if relativePath \<noteq> [] \<and> (hd relativePath = CHR ''/'' \<or> hd relativePath = CHR 0x5C)
      then path_append root (drop 1 relativePath)
      else path_append root relativePath)"

definition OpenWrite :: "string \<Rightarrow> string \<Rightarrow> files \<Rightarrow> FileStream" where
  "OpenWrite root relativePath files = FileStream_new (files (GetAbsolutePath root relativePath))"

definition Cache_Delete :: "string \<Rightarrow> string \<Rightarrow> files \<Rightarrow> files" where
  "Cache_Delete root relativePath files = files(GetAbsolutePath root relativePath := None)"

text \<open>A handler gets the stream and may throw; then the file is deleted.\<close>

type_synonym 'a file_handler = "FileStream \<Rightarrow> 'a option result"

definition Cache_Resolve :: "string \<Rightarrow> string \<Rightarrow> 'a file_handler \<Rightarrow> files \<Rightarrow> ('a option \<times> files) result" where
  "Cache_Resolve root resourcePath handler files =
     (case files (GetAbsolutePath root resourcePath) of
        None \<Rightarrow> Inr (None, files)
      | Some content \<Rightarrow> (case handler (FileStream_new (Some content)) of
          Inr v \<Rightarrow> Inr (v, files)
        | Inl e \<Rightarrow> if e = Thrown then Inr (None, Cache_Delete root resourcePath files) else Inl e))"

lemma Cache_Resolve_frame:
  "Cache_Resolve root p h files = Inr (v, files') \<Longrightarrow> q \<noteq> GetAbsolutePath root p \<Longrightarrow> files' q = files q"
  by (auto simp: Cache_Resolve_def Cache_Delete_def split: option.splits sum.splits if_splits)

lemma Cache_Resolve_Some:
  "Cache_Resolve root p h files = Inr (Some v, files') \<Longrightarrow>
    files' = files \<and> (\<exists>content. files (GetAbsolutePath root p) = Some content \<and>
      h (FileStream_new (Some content)) = Inr (Some v))"
  by (auto simp: Cache_Resolve_def split: option.splits sum.splits if_splits)

lemma Cache_Resolve_hit:
  "files (GetAbsolutePath root p) = Some content \<Longrightarrow> h (FileStream_new (Some content)) = Inr (Some v) \<Longrightarrow>
    Cache_Resolve root p h files = Inr (Some v, files)"
  by (simp add: Cache_Resolve_def)

end
