(* ===== verification/Download.thy ===== *)
theory Download
  imports Cache Numbers
begin

text \<open>
  \<^verbatim>\<open>libtactmon/net\<close>: download tasks. The connection to an HTTP server is a parameter; a task keeps the answer in a
  file of the cache or in memory.
\<close>

record request =
  rq_target :: string
  rq_host :: string
  rq_range :: "string option"

text \<open>What \<^verbatim>\<open>http::read\<close> leaves: whether it failed, the status and the body as far as it was read.\<close>

record response =
  rs_failed :: bool
  rs_status :: nat
  rs_body :: "byte list"

record 'c http =
  http_resolve :: "string \<Rightarrow> bool"       \<comment> \<open>whether the name resolves; \<^verbatim>\<open>resolve\<close> throws otherwise\<close>
  http_connect :: "string \<Rightarrow> 'c option"
  http_write :: "'c \<Rightarrow> request \<Rightarrow> 'c option"
  http_read :: "'c \<Rightarrow> response \<times> 'c"
  http_shutdown :: "'c \<Rightarrow> bool"        \<comment> \<open>whether the socket can be shut down\<close>
  http_can_open :: "string \<Rightarrow> bool"   \<comment> \<open>whether a file can be opened for writing\<close>

record DownloadTask =
  dt_resourcePath :: string
  dt_size :: nat
  dt_offset :: nat

definition DownloadTask_new :: "string \<Rightarrow> DownloadTask" where
  "DownloadTask_new resourcePath = \<lparr>dt_resourcePath = resourcePath, dt_size = 0, dt_offset = 0\<rparr>"

definition DownloadTask_range :: "string \<Rightarrow> nat \<Rightarrow> nat \<Rightarrow> DownloadTask" where
  "DownloadTask_range resourcePath off len = (DownloadTask_new resourcePath)\<lparr>dt_offset := off, dt_size := len\<rparr>"

definition make_request :: "DownloadTask \<Rightarrow> string \<Rightarrow> request" where
  "make_request task host = \<lparr>rq_target = dt_resourcePath task, rq_host = host,
     rq_range = (if dt_offset task \<noteq> 0 \<and> dt_size task \<noteq> 0
       then Some (print_nat (dt_offset task) @ ''-'' @ print_nat (sub_sz (add_sz (dt_offset task) (dt_size task)) 1))
       else None)\<rparr>"

text \<open>The body of \<^verbatim>\<open>Run\<close> for a task whose \<^verbatim>\<open>Initialize\<close> and \<^verbatim>\<open>TransformMessage\<close> are given; \<open>receive\<close> is the effect of
  the body that arrives. An error of \<^verbatim>\<open>http::read\<close> is logged only; \<^verbatim>\<open>shutdown\<close> throws.\<close>

definition Run ::
  "'c http \<Rightarrow> ('st \<Rightarrow> 'st option) \<Rightarrow> (byte list \<Rightarrow> 'st \<Rightarrow> 'st) \<Rightarrow> (response \<Rightarrow> 'st \<Rightarrow> 'r option \<times> 'st)
    \<Rightarrow> DownloadTask \<Rightarrow> string \<Rightarrow> 'st \<Rightarrow> ('r option \<times> 'st) result" where
  "Run http Initialize receive TransformMessage task host st =
     (if \<not> http_resolve http host then Inl Thrown
      else case http_connect http host of None \<Rightarrow> Inr (None, st)
      | Some stream \<Rightarrow> (case http_write http stream (make_request task host) of None \<Rightarrow> Inr (None, st)
        | Some stream \<Rightarrow> (case Initialize st of None \<Rightarrow> Inr (None, st)
          | Some st \<Rightarrow>
              let (response, stream) = http_read http stream; st = receive (rs_body response) st in
              if \<not> http_shutdown http stream then Inl Thrown
              else Inr (TransformMessage response st))))"

section \<open>\<^verbatim>\<open>FileDownloadTask\<close>\<close>

definition File_Initialize :: "'c http \<Rightarrow> string \<Rightarrow> string \<Rightarrow> files \<Rightarrow> files option" where
  "File_Initialize http root resourcePath files =
     (let absolutePath = GetAbsolutePath root resourcePath in
      if http_can_open http absolutePath then Some (files(absolutePath \<mapsto> [])) else None)"

definition File_receive :: "string \<Rightarrow> string \<Rightarrow> byte list \<Rightarrow> files \<Rightarrow> files" where
  "File_receive root resourcePath body files = files(GetAbsolutePath root resourcePath \<mapsto> body)"

definition File_TransformMessage :: "string \<Rightarrow> string \<Rightarrow> response \<Rightarrow> files \<Rightarrow> FileStream option \<times> files" where
  "File_TransformMessage root resourcePath message files =
     (if rs_status message \<noteq> 200 then (None, Cache_Delete root resourcePath files)
      else (Some (OpenWrite root resourcePath files), files))"

definition FileDownload_Run ::
  "'c http \<Rightarrow> string \<Rightarrow> DownloadTask \<Rightarrow> string \<Rightarrow> files \<Rightarrow> (FileStream option \<times> files) result" where
  "FileDownload_Run http root task = Run http (File_Initialize http root (dt_resourcePath task))
     (File_receive root (dt_resourcePath task)) (File_TransformMessage root (dt_resourcePath task)) task"

section \<open>\<^verbatim>\<open>MemoryDownloadTask\<close>\<close>

definition Memory_TransformMessage :: "response \<Rightarrow> byte list \<Rightarrow> GrowableMemoryStream option \<times> byte list" where
  "Memory_TransformMessage message body =
     (if rs_status message \<noteq> 200 then (None, body) else (Some (GrowableMemoryStream_new body), body))"

definition MemoryDownload_Run ::
  "'c http \<Rightarrow> DownloadTask \<Rightarrow> string \<Rightarrow> (GrowableMemoryStream option \<times> byte list) result" where
  "MemoryDownload_Run http task host = Run http Some (\<lambda>body _. body) Memory_TransformMessage task host []"

section \<open>Properties\<close>

lemma FileDownload_Run_frame:
  "FileDownload_Run http root task host files = Inr (v, files') \<Longrightarrow>
    q \<noteq> GetAbsolutePath root (dt_resourcePath task) \<Longrightarrow> files' q = files q"
  by (auto simp: FileDownload_Run_def Run_def File_Initialize_def File_receive_def File_TransformMessage_def
      Cache_Delete_def Let_def split: option.splits if_splits prod.splits)

lemma FileDownload_Run_Some:
  "FileDownload_Run http root task host files = Inr (Some stream, files') \<Longrightarrow>
    \<exists>body. files' (GetAbsolutePath root (dt_resourcePath task)) = Some body \<and> stream = FileStream_new (Some body)"
  by (auto simp: FileDownload_Run_def Run_def File_Initialize_def File_receive_def File_TransformMessage_def
      OpenWrite_def Let_def split: option.splits if_splits prod.splits)

text \<open>A download, once connected. With status 200 the file of the cache holds what was received and the stream reads it, also
  when receiving failed half-way; with any other status there is no stream and the file is gone, also
  when it existed before. No other file changes. The range of a partial download that starts at the beginning is not sent, and
  the others are sent without the unit that the header needs.\<close>

theorem FileDownload_outcome:
  assumes "http_resolve http host" and "http_connect http host = Some c" and "http_write http c (make_request task host) = Some c'"
    and "http_read http c' = (response, c'')" and "http_shutdown http c''"
    and "path = GetAbsolutePath root (dt_resourcePath task)" and "http_can_open http path"
  shows "FileDownload_Run http root task host files =
      (if rs_status response = 200
       then Inr (Some (FileStream_new (Some (rs_body response))), files(path \<mapsto> rs_body response))
       else Inr (None, files(path := None))) \<and>
    rq_range (make_request (DownloadTask_range p 0 n) host) = None \<and>
    (0 < off \<longrightarrow> 0 < n \<longrightarrow> off + n < size_mod \<longrightarrow>
      rq_range (make_request (DownloadTask_range p off n) host) = Some (print_nat off @ ''-'' @ print_nat (off + n - 1)))"
  using assms
  by (auto simp: FileDownload_Run_def Run_def File_Initialize_def File_receive_def File_TransformMessage_def Let_def
      OpenWrite_def Cache_Delete_def make_request_def DownloadTask_range_def DownloadTask_new_def)

lemma FileDownload_outcome_witness:
  "FileDownload_Run \<lparr>http_resolve = \<lambda>_. True, http_connect = \<lambda>_. Some (), http_write = \<lambda>_ _. Some (),
      http_read = \<lambda>_. (\<lparr>rs_failed = True, rs_status = 404, rs_body = [1]\<rparr>, ()), http_shutdown = \<lambda>_. True,
      http_can_open = \<lambda>_. True\<rparr> ''cache'' (DownloadTask_new ''/a'') ''host'' [''cache/a'' \<mapsto> [7]] =
    Inr (None, [''cache/a'' \<mapsto> [7]](''cache/a'' := None))"
  using FileDownload_outcome [of "\<lparr>http_resolve = \<lambda>_. True, http_connect = \<lambda>_. Some (), http_write = \<lambda>_ _. Some (),
      http_read = \<lambda>_. (\<lparr>rs_failed = True, rs_status = 404, rs_body = [1]\<rparr>, ()), http_shutdown = \<lambda>_. True,
      http_can_open = \<lambda>_. True\<rparr>" "''host''" "()" "DownloadTask_new ''/a''" "()" _ "()" "''cache/a''" "''cache''"]
  by (simp add: DownloadTask_new_def GetAbsolutePath_def path_append_def)

end
