(* ===== verification/Resolver.thy ===== *)
theory Resolver
  imports Download Ribbit
begin

text \<open>
  \<^verbatim>\<open>libtactmon/tact/data/product/Utility.hpp\<close>: finding a file by its key. For each server configuration the cache is
  tried first, then the hosts one after the other.
\<close>

record 'c resolver =
  rv_http :: "'c http"
  rv_root :: string    \<comment> \<open>the root of the cache\<close>

text \<open>The paths \<^verbatim>\<open>/{}/config/{}/{}/{}\<close> and \<^verbatim>\<open>/{}/data/{}/{}/{}\<close>; \<^verbatim>\<open>substr(2, 2)\<close> throws when the key is too short.\<close>

definition resource_path :: "string \<Rightarrow> CDNsRecord \<Rightarrow> string \<Rightarrow> string" where
  "resource_path kind cdn key =
     ''/'' @ cr_Path cdn @ ''/'' @ kind @ ''/'' @ take 2 key @ ''/'' @ take 2 (drop 2 key) @ ''/'' @ key"

definition relativePath :: "string \<Rightarrow> CDNsRecord \<Rightarrow> string \<Rightarrow> string result" where
  "relativePath kind cdn key = (if length key < 2 then Inl Thrown else Inr (resource_path kind cdn key))"

primrec resolve_hosts ::
  "'c resolver \<Rightarrow> string \<Rightarrow> 'a file_handler \<Rightarrow> string list \<Rightarrow> files \<Rightarrow> ('a option \<times> files) result" where
  "resolve_hosts rv path parser [] files = Inr (None, files)"
| "resolve_hosts rv path parser (host # hosts) files =
     bindr (FileDownload_Run (rv_http rv) (rv_root rv) (DownloadTask_new path) host files) (\<lambda>(taskResult, files).
       case taskResult of None \<Rightarrow> resolve_hosts rv path parser hosts files
       | Some stream \<Rightarrow> bindr (parser stream) (\<lambda>parsedValue. case parsedValue of
           Some v \<Rightarrow> Inr (Some v, files)
         | None \<Rightarrow> resolve_hosts rv path parser hosts files))"

primrec Resolve ::
  "'c resolver \<Rightarrow> CDNsRecord list \<Rightarrow> string \<Rightarrow> string \<Rightarrow> 'a file_handler \<Rightarrow> files \<Rightarrow> ('a option \<times> files) result" where
  "Resolve rv [] key kind parser files = Inr (None, files)"
| "Resolve rv (cdn # cdns) key kind parser files =
     bindr (relativePath kind cdn key) (\<lambda>path.
     bindr (Cache_Resolve (rv_root rv) path parser files) (\<lambda>(cachedValue, files). case cachedValue of
       Some v \<Rightarrow> Inr (Some v, files)
     | None \<Rightarrow> bindr (resolve_hosts rv path parser (cr_Hosts cdn) files) (\<lambda>(value, files). case value of
         Some v \<Rightarrow> Inr (Some v, files)
       | None \<Rightarrow> Resolve rv cdns key kind parser files)))"

definition ResolveConfiguration ::
  "'c resolver \<Rightarrow> CDNsRecord list \<Rightarrow> string \<Rightarrow> 'a file_handler \<Rightarrow> files \<Rightarrow> ('a option \<times> files) result" where
  "ResolveConfiguration rv cdns key parser files = Resolve rv cdns key ''config'' parser files"

definition ResolveData ::
  "'c resolver \<Rightarrow> CDNsRecord list \<Rightarrow> string \<Rightarrow> 'a file_handler \<Rightarrow> files \<Rightarrow> ('a option \<times> files) result" where
  "ResolveData rv cdns key parser files = Resolve rv cdns key ''data'' parser files"

section \<open>Where files come from\<close>

text \<open>The file that a configuration stands for, when the key is long enough.\<close>

definition cached_path :: "'c resolver \<Rightarrow> string \<Rightarrow> string \<Rightarrow> CDNsRecord \<Rightarrow> string" where
  "cached_path rv kind key cdn = GetAbsolutePath (rv_root rv) (resource_path kind cdn key)"

text \<open>The file at a path parses to a value.\<close>

definition cached :: "'a file_handler \<Rightarrow> files \<Rightarrow> string \<Rightarrow> 'a \<Rightarrow> bool" where
  "cached parser files path v \<longleftrightarrow> (\<exists>content. files path = Some content \<and>
     parser (FileStream_new (Some content)) = Inr (Some v))"

lemma resolve_hosts_frame:
  "resolve_hosts rv path parser hosts files = Inr (v, files') \<Longrightarrow>
    q \<noteq> GetAbsolutePath (rv_root rv) path \<Longrightarrow> files' q = files q"
proof (induction hosts arbitrary: files)
  case (Cons host hosts)
  then obtain t files1 where t: "FileDownload_Run (rv_http rv) (rv_root rv) (DownloadTask_new path) host files = Inr (t, files1)"
    by (auto simp: bindr_eq_Inr)
  have "files1 q = files q"
    using FileDownload_Run_frame [OF t] Cons.prems(2) by (simp add: DownloadTask_new_def)
  then show ?case using Cons t by (auto simp: bindr_eq_Inr split: option.splits)
qed simp

lemma resolve_hosts_Some:
  "resolve_hosts rv path parser hosts files = Inr (Some v, files') \<Longrightarrow>
    cached parser files' (GetAbsolutePath (rv_root rv) path) v"
proof (induction hosts arbitrary: files)
  case (Cons host hosts)
  then obtain t files1 where t: "FileDownload_Run (rv_http rv) (rv_root rv) (DownloadTask_new path) host files = Inr (t, files1)"
    by (auto simp: bindr_eq_Inr)
  show ?case
  proof (cases t)
    case None
    then show ?thesis using Cons t by simp
  next
    case (Some stream)
    then obtain body where "files1 (GetAbsolutePath (rv_root rv) path) = Some body" "stream = FileStream_new (Some body)"
      using FileDownload_Run_Some [OF t [unfolded Some]] by (auto simp: DownloadTask_new_def)
    then show ?thesis using Cons t Some by (auto simp: bindr_eq_Inr cached_def split: option.splits)
  qed
qed simp

lemma Resolve_Some:
  assumes "Resolve rv cdns key kind parser files = Inr (Some v, files')"
  shows "\<not> length key < 2 \<and> (\<exists>cdn \<in> set cdns. cached parser files' (cached_path rv kind key cdn) v) \<and>
    (\<forall>q. q \<notin> cached_path rv kind key ` set cdns \<longrightarrow> files' q = files q)"
proof -
  have len: "\<not> length key < 2" using assms by (cases cdns) (auto simp: relativePath_def)
  have "(\<exists>cdn \<in> set cdns. cached parser files' (cached_path rv kind key cdn) v) \<and>
    (\<forall>q. q \<notin> cached_path rv kind key ` set cdns \<longrightarrow> files' q = files q)"
    using assms
  proof (induction cdns arbitrary: files)
    case (Cons cdn cdns)
    let ?path = "resource_path kind cdn key"
    have p: "GetAbsolutePath (rv_root rv) ?path = cached_path rv kind key cdn" by (simp only: cached_path_def)
    obtain w files1 where w: "Cache_Resolve (rv_root rv) ?path parser files = Inr (w, files1)"
        "(case w of Some v \<Rightarrow> Inr (Some v, files1)
          | None \<Rightarrow> bindr (resolve_hosts rv ?path parser (cr_Hosts cdn) files1) (\<lambda>(value, files). case value of
            Some v \<Rightarrow> Inr (Some v, files) | None \<Rightarrow> Resolve rv cdns key kind parser files)) = Inr (Some v, files')"
      using Cons.prems len by (auto simp: relativePath_def bindr_eq_Inr)
    have f1: "files1 q = files q" if "q \<noteq> cached_path rv kind key cdn" for q
      using Cache_Resolve_frame [OF w(1)] that p by simp
    show ?case
    proof (cases w)
      case (Some v')
      then show ?thesis using w f1 Cache_Resolve_Some [of "rv_root rv" ?path parser files v' files1] p
        by (auto simp: cached_def)
    next
      case None
      then obtain x files2 where x: "resolve_hosts rv ?path parser (cr_Hosts cdn) files1 = Inr (x, files2)"
          "(case x of Some v \<Rightarrow> Inr (Some v, files2) | None \<Rightarrow> Resolve rv cdns key kind parser files2) = Inr (Some v, files')"
        using w(2) by (auto simp: bindr_eq_Inr)
      have f2: "files2 q = files q" if "q \<noteq> cached_path rv kind key cdn" for q
        using resolve_hosts_frame [OF x(1)] that p f1 by simp
      show ?thesis
      proof (cases x)
        case None
        then show ?thesis using Cons.IH [of files2] x(2) f2 by auto
      next
        case (Some v')
        then show ?thesis using x f2 resolve_hosts_Some [of rv ?path parser "cr_Hosts cdn" files1 v' files2] p by auto
      qed
    qed
  qed simp
  with len show ?thesis by blast
qed

section \<open>Properties\<close>



end
