(* ===== verification/Product.thy ===== *)
theory Product
  imports Resolver BLTE Config Encoding Index Install "HOL-Library.Sublist"
begin

text \<open>
  \<^verbatim>\<open>libtactmon/tact/data/product/Product.cpp\<close>: a game product. Loading it asks for the servers of the product, resolves the
  two configurations, then the manifests and the indices of the archives they name. The tasks that load the
  indices run in a pool; the model runs them in the order in which they are posted, which is the order in which their results are
  collected.
\<close>

record ('n, 'c, 'z) environment =
  ev_net :: "'n network"
  ev_boundary :: "string \<Rightarrow> string option"
  ev_split :: "string \<Rightarrow> string list"
  ev_resolver :: "'c resolver"
  ev_md5 :: digest
  ev_zlib :: "'z zlib"
  ev_fuel :: nat      \<comment> \<open>for the loop around \<^verbatim>\<open>inflate\<close>\<close>

record Product =
  pr_productName :: string
  pr_cdns :: "CDNsRecord list option"
  pr_buildConfig :: "BuildConfig option"
  pr_cdnConfig :: "CDNConfig option"
  pr_encoding :: "Encoding option"
  pr_install :: "Install option"
  pr_indices :: "Index list"
  pr_fileIndex :: "Index option"

definition Product_new :: "string \<Rightarrow> Product" where
  "Product_new productName = \<lparr>pr_productName = productName, pr_cdns = None, pr_buildConfig = None, pr_cdnConfig = None,
     pr_encoding = None, pr_install = None, pr_indices = [], pr_fileIndex = None\<rparr>"

definition ResolveCachedConfig ::
  "('n, 'c, 'z) environment \<Rightarrow> Product \<Rightarrow> string \<Rightarrow> 'a file_handler \<Rightarrow> files \<Rightarrow> ('a option \<times> files) result" where
  "ResolveCachedConfig ev product key parser files =
     bindr (deref (pr_cdns product)) (\<lambda>cdns. ResolveConfiguration (ev_resolver ev) cdns key parser files)"

definition ResolveCachedData ::
  "('n, 'c, 'z) environment \<Rightarrow> Product \<Rightarrow> string \<Rightarrow> 'a file_handler \<Rightarrow> files \<Rightarrow> ('a option \<times> files) result" where
  "ResolveCachedData ev product key parser files =
     bindr (deref (pr_cdns product)) (\<lambda>cdns. ResolveData (ev_resolver ev) cdns key parser files)"

section \<open>The handlers of \<^verbatim>\<open>Load\<close>\<close>

definition parse_buildConfig :: "BuildConfig file_handler" where
  "parse_buildConfig fstream = bindr (BuildConfig_Parse FileStream_vt fstream) (\<lambda>(config, _). Inr config)"

definition parse_cdnConfig :: "CDNConfig file_handler" where
  "parse_cdnConfig fstream = bindr (CDNConfig_Parse FileStream_vt fstream) (\<lambda>(config, _). Inr config)"

definition parse_encoding :: "('n, 'c, 'z) environment \<Rightarrow> KeyPair \<Rightarrow> Encoding file_handler" where
  "parse_encoding ev key fstream =
     (if \<not> fs_open fstream then Inr None
      else bindr (BLTE_Parse_keys (ev_md5 ev) (ev_zlib ev) (ev_fuel ev) FileStream_vt fstream (EncodingKey key) (KeyPair.ContentKey key))
        (\<lambda>(compressedArchive, _). case compressedArchive of None \<Rightarrow> Inr None
         | Some archive \<Rightarrow> bindr (Encoding_read GrowableMemoryStream_vt (dataBuffer archive)) (\<lambda>(encoding, _). Inr (Some encoding))))"

definition parse_install :: "('n, 'c, 'z) environment \<Rightarrow> KeyPair \<Rightarrow> Install file_handler" where
  "parse_install ev key fstream =
     (if \<not> fs_open fstream then Inr None
      else bindr (BLTE_Parse_keys (ev_md5 ev) (ev_zlib ev) (ev_fuel ev) FileStream_vt fstream (EncodingKey key) (KeyPair.ContentKey key))
        (\<lambda>(compressedArchive, _). case compressedArchive of None \<Rightarrow> Inr None
         | Some archive \<Rightarrow> bindr (Install_Parse GrowableMemoryStream_vt (dataBuffer archive)) (\<lambda>(install, _). Inr install)))"

definition parse_index :: "('n, 'c, 'z) environment \<Rightarrow> string \<Rightarrow> Index file_handler" where
  "parse_index ev name fstream =
     (if \<not> fs_open fstream then Inr None
      else bindr (Index_new (ev_md5 ev) name FileStream_vt fstream) (\<lambda>(index, _). Inr (Some index)))"

section \<open>\<^verbatim>\<open>Load\<close>\<close>

text \<open>One step: the member is assigned, and when it holds no value \<^verbatim>\<open>Load\<close> returns false.\<close>

definition stage ::
  "('a option \<times> files) result \<Rightarrow> ('a option \<Rightarrow> Product \<Rightarrow> Product) \<Rightarrow> Product
    \<Rightarrow> ('a \<Rightarrow> Product \<Rightarrow> files \<Rightarrow> (bool \<times> Product \<times> files) result) \<Rightarrow> (bool \<times> Product \<times> files) result" where
  "stage resolved assign product continue = bindr resolved (\<lambda>(v, files).
     let product = assign v product in
     case v of None \<Rightarrow> Inr (False, product, files) | Some x \<Rightarrow> continue x product files)"

primrec archive_tasks ::
  "('n, 'c, 'z) environment \<Rightarrow> Product \<Rightarrow> Archive list \<Rightarrow> files \<Rightarrow> (Index option list \<times> files) result" where
  "archive_tasks ev product [] files = Inr ([], files)"
| "archive_tasks ev product (archive # archives) files =
     bindr (ResolveCachedData ev product (ar_Name archive @ ''.index'') (parse_index ev (ar_Name archive)) files) (\<lambda>(index, files).
     bindr (archive_tasks ev product archives files) (\<lambda>(indices, files). Inr (index # indices, files)))"

definition load_fileIndex ::
  "('n, 'c, 'z) environment \<Rightarrow> CDNConfig \<Rightarrow> Product \<Rightarrow> files \<Rightarrow> (Product \<times> files) result" where
  "load_fileIndex ev cdnConfig product files = (case cc_fileIndex cdnConfig of
     None \<Rightarrow> Inr (product, files)
   | Some archive \<Rightarrow>
       bindr (ResolveCachedData ev product (ar_Name archive @ ''.index'') (parse_index ev (ar_Name archive)) files) (\<lambda>(index, files).
         Inr (product\<lparr>pr_fileIndex := index\<rparr>, files)))"

definition push_indices :: "Index option list \<Rightarrow> Product \<Rightarrow> Product" where
  "push_indices outcomes product =
     fold (\<lambda>futureOutcome product. case futureOutcome of None \<Rightarrow> product
       | Some index \<Rightarrow> product\<lparr>pr_indices := pr_indices product @ [index]\<rparr>) outcomes product"

definition Load ::
  "('n, 'c, 'z) environment \<Rightarrow> string \<Rightarrow> string \<Rightarrow> Product \<Rightarrow> files \<Rightarrow> (bool \<times> Product \<times> files) result" where
  "Load ev buildConfig cdnConfig product files =
     stage (bindr (Execute_CDNs (ev_net ev) (ev_boundary ev) (ev_split ev) V1 US (pr_productName product))
         (\<lambda>cdns. Inr (cdns, files)))
       (\<lambda>v product. product\<lparr>pr_cdns := v\<rparr>) product (\<lambda>cdns product files.
     stage (ResolveCachedConfig ev product buildConfig parse_buildConfig files)
       (\<lambda>v product. product\<lparr>pr_buildConfig := v\<rparr>) product (\<lambda>buildConfig product files.
     stage (ResolveCachedConfig ev product cdnConfig parse_cdnConfig files)
       (\<lambda>v product. product\<lparr>pr_cdnConfig := v\<rparr>) product (\<lambda>cdnConfig product files.
     stage (bindr (Key_ToString (EncodingKey (sk_Key (bc_Encoding buildConfig))))
         (\<lambda>key. ResolveCachedData ev product key (parse_encoding ev (sk_Key (bc_Encoding buildConfig))) files))
       (\<lambda>v product. product\<lparr>pr_encoding := v\<rparr>) product (\<lambda>encoding product files.
     stage (bindr (Key_ToString (EncodingKey (sk_Key (bc_Install buildConfig))))
         (\<lambda>key. ResolveCachedData ev product key (parse_install ev (sk_Key (bc_Install buildConfig))) files))
       (\<lambda>v product. product\<lparr>pr_install := v\<rparr>) product (\<lambda>install product files.
     bindr (archive_tasks ev product (cc_archives cdnConfig) files) (\<lambda>(outcomes, files).
     bindr (load_fileIndex ev cdnConfig product files) (\<lambda>(product, files).
       Inr (True, push_indices outcomes product, files))))))))"

section \<open>The other operations\<close>

definition Refresh :: "('n, 'c, 'z) environment \<Rightarrow> Product \<Rightarrow> Versions option result" where
  "Refresh ev product =
     bindr (Execute_Summary (ev_net ev) (ev_boundary ev) V1 US) (\<lambda>summary. case summary of None \<Rightarrow> Inr None
     | Some summary \<Rightarrow>
       (case find (\<lambda>record. sr_Product record = pr_productName product \<and> sr_Flags record = []) summary of None \<Rightarrow> Inr None
        | Some summaryItr \<Rightarrow>
          bindr (Execute_Versions (ev_net ev) (ev_boundary ev) V1 US (pr_productName product)) (\<lambda>versions.
            case versions of None \<Rightarrow> Inr None
            | Some v \<Rightarrow> Inr (if vs_SequenceID v \<noteq> sr_SequenceID summaryItr then None else Some v))))"

definition Product_FindFile_key :: "Product \<Rightarrow> CKey \<Rightarrow> FileLocation option result" where
  "Product_FindFile_key product contentKey = (case pr_encoding product of None \<Rightarrow> Inr None
     | Some encoding \<Rightarrow> Encoding_FindFile encoding contentKey)"

definition Product_FindFile :: "Product \<Rightarrow> string \<Rightarrow> FileLocation option result" where
  "Product_FindFile product fileName =
     bindr (deref (pr_install product)) (\<lambda>install. case Install_FindFile install fileName of
       Some installKey \<Rightarrow> Product_FindFile_key product installKey | None \<Rightarrow> Inr None)"

definition Product_FindFile_id :: "Product \<Rightarrow> u32 \<Rightarrow> FileLocation option result" where
  "Product_FindFile_id product fileDataID = Inr None"

primrec find_archive :: "EKey \<Rightarrow> Index list \<Rightarrow> ArchiveFileLocation option result" where
  "find_archive ekey [] = Inr None"
| "find_archive ekey (index # indices) = bindr (Index_lookup index ekey) (\<lambda>entry. case entry of
     Some e \<Rightarrow> Inr (Some (ArchiveFileLocation_new (ix_archiveName index) (unat (ie_offset e)) (unat (ie_size e))))
   | None \<Rightarrow> find_archive ekey indices)"

definition FindArchive :: "Product \<Rightarrow> EKey \<Rightarrow> ArchiveFileLocation option result" where
  "FindArchive product ekey =
     bindr (case pr_fileIndex product of None \<Rightarrow> Inr None | Some fileIndex \<Rightarrow> Index_lookup fileIndex ekey) (\<lambda>entry.
       case entry of
         Some e \<Rightarrow> bindr (Key_ToString ekey) (\<lambda>name.
           Inr (Some (ArchiveFileLocation_new name (unat (ie_offset e)) (unat (ie_size e)))))
       | None \<Rightarrow> find_archive ekey (pr_indices product))"

section \<open>A load that succeeds\<close>

lemma stage_True:
  "stage m a p k = Inr (True, r) \<longleftrightarrow> (\<exists>x f. m = Inr (Some x, f) \<and> k x (a (Some x) p) f = Inr (True, r))"
  by (auto simp: stage_def bindr_eq_Inr Let_def split: option.splits)

lemma stage_TrueE:
  assumes "stage m a p k = Inr (True, r)"
  obtains x f where "m = Inr (Some x, f)" and "k x (a (Some x) p) f = Inr (True, r)"
  using assms by (auto simp: stage_True)

lemma push_indices_append: "push_indices outcomes product =
    product\<lparr>pr_indices := pr_indices product @ concat (map (\<lambda>x. case x of None \<Rightarrow> [] | Some index \<Rightarrow> [index]) outcomes)\<rparr>"
  unfolding push_indices_def by (induction outcomes arbitrary: product) (auto split: option.split)

text \<open>The tasks see of the product only its servers.\<close>

lemma archive_tasks_cdns:
  "pr_cdns p = pr_cdns q \<Longrightarrow> archive_tasks ev p archives files = archive_tasks ev q archives files"
  by (induction archives arbitrary: files) (simp_all add: ResolveCachedData_def)

lemma load_fileIndex_frame:
  "load_fileIndex ev cc p files = Inr (q, files') \<Longrightarrow> q = p\<lparr>pr_fileIndex := pr_fileIndex q\<rparr>"
  by (auto simp: load_fileIndex_def bindr_eq_Inr split: option.splits)

lemma load_fileIndex_cdns:
  assumes "load_fileIndex ev cc p files = Inr (p\<lparr>pr_fileIndex := fi\<rparr>, files')" and "pr_cdns p = pr_cdns q"
  shows "load_fileIndex ev cc q files =
    Inr (q\<lparr>pr_fileIndex := if cc_fileIndex cc = None then pr_fileIndex q else fi\<rparr>, files')"
proof (cases "cc_fileIndex cc")
  case None
  then show ?thesis using assms by (simp add: load_fileIndex_def)
next
  case (Some archive)
  then obtain index where "ResolveCachedData ev p (ar_Name archive @ ''.index'') (parse_index ev (ar_Name archive)) files =
      Inr (index, files')" "p\<lparr>pr_fileIndex := index\<rparr> = p\<lparr>pr_fileIndex := fi\<rparr>"
    using assms(1) by (auto simp: load_fileIndex_def bindr_eq_Inr)
  moreover from this(2) have "index = fi" by (metis Product.simps(8) Product.update_convs(8) Product.surjective)
  ultimately show ?thesis using Some assms(2) by (simp add: load_fileIndex_def ResolveCachedData_def)
qed

text \<open>The members that a load that succeeds assigns before the indices.\<close>

definition with_manifests ::
  "CDNsRecord list \<Rightarrow> BuildConfig \<Rightarrow> CDNConfig \<Rightarrow> Encoding \<Rightarrow> Install \<Rightarrow> Product \<Rightarrow> Product" where
  "with_manifests cdns bc cc en ins product = product\<lparr>pr_cdns := Some cdns, pr_buildConfig := Some bc, pr_cdnConfig := Some cc,
     pr_encoding := Some en, pr_install := Some ins\<rparr>"

text \<open>The steps of such a load.\<close>

definition manifest_steps where
  "manifest_steps ev name b c files cdns bc cc en ins f4 \<longleftrightarrow> (\<exists>f1 f2 f3.
     Execute_CDNs (ev_net ev) (ev_boundary ev) (ev_split ev) V1 US name = Inr (Some cdns) \<and>
     ResolveConfiguration (ev_resolver ev) cdns b parse_buildConfig files = Inr (Some bc, f1) \<and>
     ResolveConfiguration (ev_resolver ev) cdns c parse_cdnConfig f1 = Inr (Some cc, f2) \<and>
     bindr (Key_ToString (EncodingKey (sk_Key (bc_Encoding bc))))
       (\<lambda>key. ResolveData (ev_resolver ev) cdns key (parse_encoding ev (sk_Key (bc_Encoding bc))) f2) = Inr (Some en, f3) \<and>
     bindr (Key_ToString (EncodingKey (sk_Key (bc_Install bc))))
       (\<lambda>key. ResolveData (ev_resolver ev) cdns key (parse_install ev (sk_Key (bc_Install bc))) f3) = Inr (Some ins, f4))"

lemma Load_TrueE:
  assumes "Load ev b c product files = Inr (True, product', files')"
  obtains cdns bc cc en ins f4 outcomes f5 fi where
    "manifest_steps ev (pr_productName product) b c files cdns bc cc en ins f4"
    "archive_tasks ev (with_manifests cdns bc cc en ins product) (cc_archives cc) f4 = Inr (outcomes, f5)"
    "load_fileIndex ev cc (with_manifests cdns bc cc en ins product) f5 =
      Inr ((with_manifests cdns bc cc en ins product)\<lparr>pr_fileIndex := fi\<rparr>, files')"
    "product' = push_indices outcomes ((with_manifests cdns bc cc en ins product)\<lparr>pr_fileIndex := fi\<rparr>)"
proof -
  from assms obtain cdns bc f1 cc f2 en f3 ins f4 outcomes f5 q where
    cdns: "bindr (Execute_CDNs (ev_net ev) (ev_boundary ev) (ev_split ev) V1 US (pr_productName product))
        (\<lambda>cdns. Inr (cdns, files)) = Inr (Some cdns, files)" and
    bc: "ResolveCachedConfig ev (product\<lparr>pr_cdns := Some cdns\<rparr>) b parse_buildConfig files = Inr (Some bc, f1)" and
    cc: "ResolveCachedConfig ev (product\<lparr>pr_cdns := Some cdns, pr_buildConfig := Some bc\<rparr>) c parse_cdnConfig f1 =
      Inr (Some cc, f2)" and
    en: "bindr (Key_ToString (EncodingKey (sk_Key (bc_Encoding bc)))) (\<lambda>key. ResolveCachedData ev
        (product\<lparr>pr_cdns := Some cdns, pr_buildConfig := Some bc, pr_cdnConfig := Some cc\<rparr>) key
        (parse_encoding ev (sk_Key (bc_Encoding bc))) f2) = Inr (Some en, f3)" and
    ins: "bindr (Key_ToString (EncodingKey (sk_Key (bc_Install bc)))) (\<lambda>key. ResolveCachedData ev
        (product\<lparr>pr_cdns := Some cdns, pr_buildConfig := Some bc, pr_cdnConfig := Some cc, pr_encoding := Some en\<rparr>) key
        (parse_install ev (sk_Key (bc_Install bc))) f3) = Inr (Some ins, f4)" and
    a: "archive_tasks ev (with_manifests cdns bc cc en ins product) (cc_archives cc) f4 = Inr (outcomes, f5)" and
    l: "load_fileIndex ev cc (with_manifests cdns bc cc en ins product) f5 = Inr (q, files')" and
    p: "product' = push_indices outcomes q"
    unfolding Load_def with_manifests_def
    by (elim stage_TrueE bindr_InrE) (simp split: prod.splits, elim bindr_InrE, simp split: prod.splits)
  have s: "manifest_steps ev (pr_productName product) b c files cdns bc cc en ins f4"
    unfolding manifest_steps_def
  proof (rule exI [of _ f1], rule exI [of _ f2], rule exI [of _ f3], intro conjI)
    show "Execute_CDNs (ev_net ev) (ev_boundary ev) (ev_split ev) V1 US (pr_productName product) = Inr (Some cdns)"
      using cdns by (auto elim: bindr_InrE)
  qed (use bc cc en ins in \<open>simp_all add: ResolveCachedConfig_def ResolveCachedData_def\<close>)
  obtain fi where q: "q = (with_manifests cdns bc cc en ins product)\<lparr>pr_fileIndex := fi\<rparr>"
    using load_fileIndex_frame [OF l] by blast
  show thesis by (rule that [OF s a l [unfolded q] p [unfolded q]])
qed

lemma Load_TrueI:
  assumes "manifest_steps ev (pr_productName product) b c files cdns bc cc en ins f4"
    and "archive_tasks ev (with_manifests cdns bc cc en ins product) (cc_archives cc) f4 = Inr (outcomes, f5)"
    and "load_fileIndex ev cc (with_manifests cdns bc cc en ins product) f5 = Inr (q, files')"
  shows "Load ev b c product files = Inr (True, push_indices outcomes q, files')"
  using assms by (auto simp: Load_def stage_def manifest_steps_def with_manifests_def ResolveCachedConfig_def
      ResolveCachedData_def bindr_eq_Inr)

section \<open>A cache that holds everything\<close>

lemma Resolve_cached:
  assumes "cached parser files (cached_path rv kind key cdn) v" and "2 \<le> length key"
  shows "Resolve rv (cdn # others) key kind parser files = Inr (Some v, files)"
  using assms Cache_Resolve_hit [of files "rv_root rv" "resource_path kind cdn key" _ parser v]
  by (auto simp: cached_def relativePath_def cached_path_def)

lemma archive_tasks_cached:
  assumes "pr_cdns product = Some (cdn # others)"
    and "\<forall>a \<in> set archives. cached (parse_index ev (ar_Name a)) files
      (cached_path (ev_resolver ev) ''data'' (ar_Name a @ ''.index'') cdn) (ix a)"
  shows "archive_tasks ev product archives files = Inr (map (Some \<circ> ix) archives, files)"
  using assms(2)
proof (induction archives)
  case (Cons a archives)
  have "Resolve (ev_resolver ev) (cdn # others) (ar_Name a @ ''.index'') ''data'' (parse_index ev (ar_Name a)) files =
      Inr (Some (ix a), files)"
    using Cons.prems by (intro Resolve_cached) simp_all
  then show ?case using Cons by (simp add: assms(1) ResolveCachedData_def ResolveData_def del: Resolve.simps)
qed simp

lemma Load_cached:
  assumes "Execute_CDNs (ev_net ev) (ev_boundary ev) (ev_split ev) V1 US (pr_productName product) = Inr (Some (cdn # others))"
    and "2 \<le> length b" and "cached parse_buildConfig files (cached_path (ev_resolver ev) ''config'' b cdn) bc"
    and "2 \<le> length c" and "cached parse_cdnConfig files (cached_path (ev_resolver ev) ''config'' c cdn) cc"
    and "Key_ToString (EncodingKey (sk_Key (bc_Encoding bc))) = Inr ek" and "2 \<le> length ek"
    and "cached (parse_encoding ev (sk_Key (bc_Encoding bc))) files (cached_path (ev_resolver ev) ''data'' ek cdn) en"
    and "Key_ToString (EncodingKey (sk_Key (bc_Install bc))) = Inr ik" and "2 \<le> length ik"
    and "cached (parse_install ev (sk_Key (bc_Install bc))) files (cached_path (ev_resolver ev) ''data'' ik cdn) ins"
    and "\<forall>a \<in> set (cc_archives cc) \<union> set_option (cc_fileIndex cc). cached (parse_index ev (ar_Name a)) files
      (cached_path (ev_resolver ev) ''data'' (ar_Name a @ ''.index'') cdn) (ix a)"
  shows "Load ev b c product files = Inr (True, product\<lparr>pr_cdns := Some (cdn # others), pr_buildConfig := Some bc,
      pr_cdnConfig := Some cc, pr_encoding := Some en, pr_install := Some ins,
      pr_indices := pr_indices product @ map ix (cc_archives cc),
      pr_fileIndex := (case cc_fileIndex cc of None \<Rightarrow> pr_fileIndex product | Some a \<Rightarrow> Some (ix a))\<rparr>, files)"
proof -
  let ?p = "with_manifests (cdn # others) bc cc en ins product"
  let ?q = "?p\<lparr>pr_fileIndex := (case cc_fileIndex cc of None \<Rightarrow> pr_fileIndex product | Some a \<Rightarrow> Some (ix a))\<rparr>"
  have "manifest_steps ev (pr_productName product) b c files (cdn # others) bc cc en ins files"
    unfolding manifest_steps_def
    by (rule exI [of _ files])+ (simp add: assms ResolveConfiguration_def ResolveData_def Resolve_cached del: Resolve.simps)
  moreover have "archive_tasks ev ?p (cc_archives cc) files = Inr (map (Some \<circ> ix) (cc_archives cc), files)"
    using assms(12) by (intro archive_tasks_cached) (auto simp: with_manifests_def)
  moreover have "load_fileIndex ev cc ?p files = Inr (?q, files)"
    using assms(12) by (auto simp: load_fileIndex_def ResolveCachedData_def with_manifests_def ResolveData_def Resolve_cached
        simp del: Resolve.simps split: option.split)
  ultimately have "Load ev b c product files = Inr (True, push_indices (map (Some \<circ> ix) (cc_archives cc)) ?q, files)"
    by (rule Load_TrueI)
  moreover have "concat (map (\<lambda>x. case x of None \<Rightarrow> [] | Some index \<Rightarrow> [index]) (map (Some \<circ> ix) as)) = map ix as" for as
    by (induction as) simp_all
  ultimately show ?thesis by (simp add: push_indices_append with_manifests_def del: map_map)
qed

section \<open>What the handlers accept\<close>

text \<open>A stream whose contents have the digest that a key names.\<close>

definition digest_stream :: "digest \<Rightarrow> CKey \<Rightarrow> GrowableMemoryStream \<Rightarrow> bool" where
  "digest_stream md5 ckey s \<longleftrightarrow> (\<exists>view. Data GrowableMemoryStream_vt s = Inr view \<and> Key_data ckey = Inr (md5 view))"

lemma BLTE_Parse_keys_digest:
  assumes "BLTE_Parse_keys md5 z fuel io s ekey ckey = Inr (Some blte, s')"
  shows "digest_stream md5 ckey (dataBuffer blte)"
proof -
  from assms have "ckey_mismatch md5 (Some ckey) blte = Inr False"
    unfolding BLTE_Parse_keys_def BLTE_parse_def
    by (auto simp: bindr_eq_Inr Let_def split: if_splits option.splits prod.splits)
  then show ?thesis by (auto simp: digest_stream_def ckey_mismatch_def Validate_def bindr_eq_Inr Key_eq_range_def)
qed

lemma parse_encoding_Some:
  assumes "parse_encoding ev key fstream = Inr (Some en)"
  shows "\<exists>s t. digest_stream (ev_md5 ev) (KeyPair.ContentKey key) s \<and> Encoding_read GrowableMemoryStream_vt s = Inr (en, t)"
proof -
  from assms obtain archive s1 t where "BLTE_Parse_keys (ev_md5 ev) (ev_zlib ev) (ev_fuel ev) FileStream_vt fstream
      (EncodingKey key) (KeyPair.ContentKey key) = Inr (Some archive, s1)"
      "Encoding_read GrowableMemoryStream_vt (dataBuffer archive) = Inr (en, t)"
    by (auto simp: parse_encoding_def bindr_eq_Inr split: if_splits option.splits)
  then show ?thesis by (intro exI conjI) (rule BLTE_Parse_keys_digest)
qed

lemma parse_install_Some:
  assumes "parse_install ev key fstream = Inr (Some ins)"
  shows "\<exists>s t. digest_stream (ev_md5 ev) (KeyPair.ContentKey key) s \<and> Install_Parse GrowableMemoryStream_vt s = Inr (Some ins, t)"
proof -
  from assms obtain archive s1 t where "BLTE_Parse_keys (ev_md5 ev) (ev_zlib ev) (ev_fuel ev) FileStream_vt fstream
      (EncodingKey key) (KeyPair.ContentKey key) = Inr (Some archive, s1)"
      "Install_Parse GrowableMemoryStream_vt (dataBuffer archive) = Inr (Some ins, t)"
    by (auto simp: parse_install_def bindr_eq_Inr split: if_splits option.splits)
  then show ?thesis by (intro exI conjI) (rule BLTE_Parse_keys_digest)
qed

lemma Index_new_name: "Index_new md5 hash io s = Inr (index, s') \<Longrightarrow> ix_archiveName index = hash"
  by (auto simp: Index_new_def bindr_eq_Inr Let_def split: if_splits)

lemma archive_tasks_names:
  "archive_tasks ev product archives files = Inr (outcomes, files') \<Longrightarrow>
    subseq (map ix_archiveName (concat (map (\<lambda>x. case x of None \<Rightarrow> [] | Some index \<Rightarrow> [index]) outcomes))) (map ar_Name archives)"
proof (induction archives arbitrary: files outcomes)
  case (Cons a archives)
  then obtain cdns index f1 indices where i: "Resolve (ev_resolver ev) cdns (ar_Name a @ ''.index'') ''data''
      (parse_index ev (ar_Name a)) files = Inr (index, f1)" "archive_tasks ev product archives f1 = Inr (indices, files')"
      "outcomes = index # indices"
    by (auto simp: bindr_eq_Inr ResolveCachedData_def ResolveData_def)
  have "ix_archiveName x = ar_Name a" if "index = Some x" for x
    using Resolve_Some i(1) that unfolding cached_def parse_index_def
    by (fastforce simp: bindr_eq_Inr Index_new_name split: if_splits)
  then show ?case using Cons.IH [OF i(2)] i(3) by (cases index) auto
qed simp

section \<open>Looking through the indices\<close>

lemma find_pair: "find (\<lambda>(name, e). P e) (map (Pair h) es) = map_option (Pair h) (find P es)"
  by (induction es) auto

lemma find_archive_first:
  assumes "\<forall>(h, ks, es) \<in> set indices. \<forall>e \<in> set es. length (i_key e) = ks" and "key_wf ekey"
  shows "find_archive ekey (map (\<lambda>(h, ks, es). index_of h ks es) indices) =
    Inr (map_option (\<lambda>(name, e). ArchiveFileLocation_new name (unat (i_offset e)) (unat (i_size e)))
      (find (\<lambda>(name, e). i_key e = k_data ekey) (concat (map (\<lambda>(h, ks, es). map (Pair h) es) indices))))"
  using assms(1)
proof (induction indices)
  case (Cons i indices)
  obtain h ks es where i: "i = (h, ks, es)" by (cases i)
  then have "\<forall>e \<in> set es. length (i_key e) = ks" using Cons.prems by simp
  moreover have "find_archive ekey (map (\<lambda>(h, ks, es). index_of h ks es) indices) =
      Inr (map_option (\<lambda>(name, e). ArchiveFileLocation_new name (unat (i_offset e)) (unat (i_size e)))
        (find (\<lambda>(name, e). i_key e = k_data ekey) (concat (map (\<lambda>(h, ks, es). map (Pair h) es) indices))))"
    using Cons by simp
  ultimately show ?case using assms(2)
    by (elim Index_lookup_find [where hash = h and key = ekey])
      (simp_all add: i find_append_case find_pair index_of_def)
qed simp

section \<open>An example\<close>

definition const_md5 :: digest where
  "const_md5 x = replicate 16 1"

declare const_md5_def [simp]

definition example_env :: "(unit, unit, unit) environment" where
  "example_env = \<lparr>
     ev_net = \<lparr>net_resolve = \<lambda>_ _. True, net_connect = \<lambda>_ _. Some (), net_write = \<lambda>_ _. Some (),
       net_read = \<lambda>_. Some (''--b'' @ crlf @ ''n|p|h|s|c'' @ crlf @ ''u|p|h|s|c'')\<rparr>,
     ev_boundary = \<lambda>_. Some ''b'', ev_split = \<lambda>s. [s],
     ev_resolver = \<lparr>rv_http = \<lparr>http_resolve = \<lambda>_. True, http_connect = \<lambda>_. None, http_write = \<lambda>_ _. None,
       http_read = \<lambda>_. (\<lparr>rs_failed = True, rs_status = 0, rs_body = []\<rparr>, ()), http_shutdown = \<lambda>_. True,
       http_can_open = \<lambda>_. False\<rparr>, rv_root = ''c''\<rparr>,
     ev_md5 = const_md5, ev_zlib = \<lparr>inflateInit = (0, ()), inflate = \<lambda>_ _ _. (1, (), 0, [])\<rparr>, ev_fuel = 0\<rparr>"

definition example_cdn_record :: CDNsRecord where
  "example_cdn_record = \<lparr>cr_Name = ''u'', cr_Path = ''p'', cr_Hosts = [''h''], cr_Servers = [''s''], cr_ConfigPath = ''c''\<rparr>"

definition example_key :: Key where
  "example_key = Key_of_span (replicate 16 1)"

definition example_buildConfig :: BuildConfig where
  "example_buildConfig = (let sk = \<lparr>sk_Key = \<lparr>ContentKey = example_key, EncodingKey = example_key\<rparr>, sk_Size0 = 1, sk_Size1 = 2\<rparr>
     in \<lparr>bc_Root = example_key, bc_Install = sk, bc_Encoding = sk, bc_BuildName = ''WOW''\<rparr>)"

definition example_cdnConfig :: CDNConfig where
  "example_cdnConfig = \<lparr>cc_archives = [\<lparr>ar_Name = hex (replicate 16 1), ar_Size = 7\<rparr>], cc_fileIndex = None\<rparr>"

definition example_manifest :: "byte list" where
  "example_manifest = install_bytes 0x494E 1 16 [] []"

definition example_index_file :: "byte list" where
  "example_index_file = index_bytes const_md5 1 1 1024 [[example_ientry]] [1, 2]
     (footer_bytes (replicate 16 5) 1 1 1 2 1 (replicate 16 0))"

definition example_files :: files where
  "example_files = [''c/p/config/bc/bc/bcbc'' \<mapsto> file_of (print_build example_buildConfig),
     ''c/p/config/cc/cc/cccc'' \<mapsto> file_of (print_cdn example_cdnConfig),
     ''c/p/data/01/01/'' @ hex (replicate 16 1) \<mapsto> BLTE_encode const_md5 [example_manifest],
     ''c/p/data/01/01/'' @ hex (replicate 16 1) @ ''.index'' \<mapsto> example_index_file]"

definition example_encoding :: Encoding where
  "example_encoding = \<lparr>en_header = EncodingHeader_default, en_cekeyPages = []\<rparr>"

definition example_install :: Install where
  "example_install = \<lparr>in_tags = [], in_entries = []\<rparr>"

definition example_index :: Index where
  "example_index = index_of (hex (replicate 16 1)) 2 [example_ientry]"

lemma example_env_simps [simp]:
  "ev_md5 example_env = const_md5" "rv_root (ev_resolver example_env) = ''c''"
  by (simp_all add: example_env_def)

lemma example_cdns:
  "Execute_CDNs (ev_net example_env) (ev_boundary example_env) (ev_split example_env) V1 US name = Inr (Some [example_cdn_record])"
proof -
  have "Tokenize_sub (''--b'' @ crlf @ ''n|p|h|s|c'' @ crlf @ ''u|p|h|s|c'') (''--b'' @ crlf) True =
      Inr [''n|p|h|s|c'' @ crlf @ ''u|p|h|s|c'']"
    by code_simp
  moreover have "CDNs_Parse (\<lambda>s. [s]) (''n|p|h|s|c'' @ crlf @ ''u|p|h|s|c'') = Inr (Some [example_cdn_record])"
    by code_simp
  ultimately show ?thesis
    by (simp add: Execute_CDNs_def Execute_def example_env_def VersionTraits_Parse_def ParseCore_V1_def)
qed

lemma example_path: "cached_path (ev_resolver example_env) kind key example_cdn_record =
    ''c/p/'' @ kind @ ''/'' @ take 2 key @ ''/'' @ take 2 (drop 2 key) @ ''/'' @ key"
  by (simp add: cached_path_def GetAbsolutePath_def path_append_def resource_path_def example_cdn_record_def)

lemma example_hex: "take 2 (hex (replicate 16 1)) = ''01''" "take 2 (drop 2 (hex (replicate 16 1))) = ''01''"
  by code_simp+

lemma length_example_file:
  "length (file_of (print_build example_buildConfig)) < size_mod" "length (file_of (print_cdn example_cdnConfig)) < size_mod"
proof -
  have "length (file_of (print_build example_buildConfig)) < 1000" "length (file_of (print_cdn example_cdnConfig)) < 1000"
    by code_simp+
  then show "length (file_of (print_build example_buildConfig)) < size_mod"
    "length (file_of (print_cdn example_cdnConfig)) < size_mod"
    by (simp_all add: size_mod_def)
qed

lemma example_configs:
  "cached parse_buildConfig example_files (cached_path (ev_resolver example_env) ''config'' ''bcbc'' example_cdn_record) example_buildConfig"
  "cached parse_cdnConfig example_files (cached_path (ev_resolver example_env) ''config'' ''cccc'' example_cdn_record) example_cdnConfig"
proof -
  have b: "build_ok example_buildConfig"
    by (simp add: example_buildConfig_def Let_def build_ok_def sized_ok_def key_ok_def example_key_def size_mod_def is_word_def
        Separators_def) (simp add: Key_of_span_def)
  have c: "cdn_ok example_cdnConfig"
    using is_word_hex [of "replicate 16 1"] by (simp add: example_cdnConfig_def cdn_ok_def archive_ok_def size_mod_def)
  have nb: "print_build example_buildConfig \<noteq> []" and nc: "print_cdn example_cdnConfig \<noteq> []"
    by (simp_all add: print_build_def print_cdn_def)
  note fb = FileStream_text [OF nb length_example_file(1)] and fc = FileStream_text [OF nc length_example_file(2)]
  show "cached parse_buildConfig example_files (cached_path (ev_resolver example_env) ''config'' ''bcbc'' example_cdn_record) example_buildConfig"
    using fstream.BuildConfig_Parse_lines [OF conjunct1 [OF fb] conjunct2 [OF fb] print_build_newline [OF b] nb]
    by (auto simp: cached_def example_path example_files_def parse_buildConfig_def BuildConfig_print_lines [OF b])
  show "cached parse_cdnConfig example_files (cached_path (ev_resolver example_env) ''config'' ''cccc'' example_cdn_record) example_cdnConfig"
    using fstream.CDNConfig_Parse_lines [OF conjunct1 [OF fc] conjunct2 [OF fc] print_cdn_lines [OF c] nc]
    by (auto simp: cached_def example_path example_files_def parse_cdnConfig_def CDNConfig_print_lines [OF c])
qed

lemma example_archive:
  "\<exists>s'. BLTE_Parse_keys const_md5 z fuel FileStream_vt
      (FileStream_new (Some (BLTE_encode const_md5 [example_manifest]))) example_key example_key =
    Inr (Some \<lparr>dataBuffer = \<lparr>gs_data = example_manifest, gs_readCursor = 0, gs_writeCursor = 10\<rparr>\<rparr>, s')"
proof -
  let ?b = "\<lparr>dataBuffer = \<lparr>gs_data = example_manifest, gs_readCursor = 0, gs_writeCursor = 10\<rparr>\<rparr>"
  have l: "length example_manifest = 10" by (simp add: example_manifest_def install_bytes_def)
  have "ckey_mismatch const_md5 (Some example_key) ?b = Inr False"
    "ekey_mismatch (Some example_key) (replicate 16 1) = Inr False"
    using l by (simp_all add: ckey_mismatch_def ekey_mismatch_def Validate_def GrowableMemoryStream_Data_def Key_eq_range_def
        Key_data_def example_key_def Key_of_span_def slice_def)
  then show ?thesis
    using BLTE_parse_file [of const_md5 "[example_manifest]" ?b z fuel "Some example_key" "Some example_key"] l
    by (auto simp: BLTE_Parse_keys_def length_BLTE_encode size_mod_def)
qed

lemma example_manifests:
  "cached (parse_encoding example_env \<lparr>ContentKey = example_key, EncodingKey = example_key\<rparr>) example_files
    (cached_path (ev_resolver example_env) ''data'' (hex (replicate 16 1)) example_cdn_record) example_encoding"
  "cached (parse_install example_env \<lparr>ContentKey = example_key, EncodingKey = example_key\<rparr>) example_files
    (cached_path (ev_resolver example_env) ''data'' (hex (replicate 16 1)) example_cdn_record) example_install"
proof -
  let ?s = "\<lparr>gs_data = example_manifest, gs_readCursor = 0, gs_writeCursor = 10\<rparr>"
  have l: "length example_manifest = 10" by (simp add: example_manifest_def install_bytes_def)
  have "BLTE_encode const_md5 [example_manifest] \<noteq> []"
    by (simp add: length_BLTE_encode flip: length_greater_0_conv)
  then have "fs_open (FileStream_new (Some (BLTE_encode const_md5 [example_manifest])))"
    by (simp add: FileStream_new_def)
  moreover have "example_files (cached_path (ev_resolver example_env) ''data'' (hex (replicate 16 1)) example_cdn_record) =
      Some (BLTE_encode const_md5 [example_manifest])"
    by (simp add: example_path example_hex example_files_def)
  moreover have "Encoding_read GrowableMemoryStream_vt ?s = Inr (example_encoding, ?s)"
    using l by (simp add: Encoding_read_def EncodingHeader_read_def GrowableMemoryStream_CanRead_def example_encoding_def
        EncodingHeader_default_def size_mod_def)
  moreover obtain s' where "Install_Parse GrowableMemoryStream_vt ?s = Inr (Some example_install, s')"
    using gstream.Install_Parse_encoded [where s = ?s and signature = "0x494E" and version = 1 and hashSize = 16 and
        tags = "[]" and entries = "[]" and tail = "[]"] l
    by (auto simp: example_install_def GrowableMemoryStream_ok_def rest_of_def example_manifest_def size_mod_def)
  ultimately show "cached (parse_encoding example_env \<lparr>ContentKey = example_key, EncodingKey = example_key\<rparr>) example_files
      (cached_path (ev_resolver example_env) ''data'' (hex (replicate 16 1)) example_cdn_record) example_encoding"
    "cached (parse_install example_env \<lparr>ContentKey = example_key, EncodingKey = example_key\<rparr>) example_files
      (cached_path (ev_resolver example_env) ''data'' (hex (replicate 16 1)) example_cdn_record) example_install"
    using example_archive [of "ev_zlib example_env" "ev_fuel example_env"]
    by (auto simp: cached_def parse_encoding_def parse_install_def)
qed

lemma example_indices:
  "cached (parse_index example_env (hex (replicate 16 1))) example_files
    (cached_path (ev_resolver example_env) ''data'' (hex (replicate 16 1) @ ''.index'') example_cdn_record) example_index"
proof -
  have "length (be_n (Suc 0) v) = Suc 0" for v by simp
  then have l: "length example_index_file < size_mod" "example_index_file \<noteq> []"
    by (simp_all add: example_index_file_def index_bytes_def block_bytes_def ientry_bytes_def footer_bytes_def
        example_ientry_def size_mod_def Let_def del: length_be_n)
  have "\<exists>s'. Index_new const_md5 (hex (const_md5 (footer_bytes (replicate 16 5) 1 1 1 2 1 (replicate 16 0))))
      FileStream_vt (FileStream_new (Some example_index_file)) =
    Inr (index_of (hex (const_md5 (footer_bytes (replicate 16 5) 1 1 1 2 1 (replicate 16 0)))) (unat (2 :: byte))
      (concat [[example_ientry]]), s')"
    using l by (intro fstream.Index_new_encoded [where blocks = "[[example_ientry]]" and toc = "[1, 2]" and
        kb = 1 and ob = 1 and sb = 1 and ks = 2 and n = 1 and
        tocHash = "replicate 16 5" and check = "replicate 16 0"])
      (simp_all add: FileStream_new_def FileStream_ok_def example_index_file_def example_ientry_def ientry_ok_def)
  moreover have "example_files (cached_path (ev_resolver example_env) ''data'' (hex (replicate 16 1) @ ''.index'') example_cdn_record) =
      Some example_index_file"
    by (simp add: example_path example_hex example_files_def)
  ultimately show ?thesis using l by (auto simp: cached_def parse_index_def example_index_def FileStream_new_def)
qed

definition example_product :: Product where
  "example_product = \<lparr>pr_productName = ''wow'', pr_cdns = Some [example_cdn_record], pr_buildConfig = Some example_buildConfig,
     pr_cdnConfig = Some example_cdnConfig, pr_encoding = Some example_encoding, pr_install = Some example_install,
     pr_indices = [example_index], pr_fileIndex = None\<rparr>"

lemma example_keys:
  "sk_Key (bc_Encoding example_buildConfig) = \<lparr>ContentKey = example_key, EncodingKey = example_key\<rparr>"
  "sk_Key (bc_Install example_buildConfig) = \<lparr>ContentKey = example_key, EncodingKey = example_key\<rparr>"
  "Key_ToString example_key = Inr (hex (replicate 16 1))"
  by (simp_all add: example_buildConfig_def Let_def) (simp add: example_key_def Key_of_span_def Key_ToString_def slice_def)

lemmas example_load = Load_cached [of example_env "Product_new ''wow''" example_cdn_record "[]" "''bcbc''" example_files
    example_buildConfig "''cccc''" example_cdnConfig "hex (replicate 16 1)" example_encoding "hex (replicate 16 1)"
    example_install "\<lambda>_. example_index"]

lemma example_Load:
  "Load example_env ''bcbc'' ''cccc'' (Product_new ''wow'') example_files = Inr (True, example_product, example_files)"
proof -
  have "\<forall>a \<in> set (cc_archives example_cdnConfig) \<union> set_option (cc_fileIndex example_cdnConfig).
      cached (parse_index example_env (ar_Name a)) example_files
        (cached_path (ev_resolver example_env) ''data'' (ar_Name a @ ''.index'') example_cdn_record) example_index"
    using example_indices by (simp add: example_cdnConfig_def)
  then show ?thesis
    using example_load example_cdns example_configs example_manifests
    by (simp add: example_keys example_product_def Product_new_def) (simp add: example_cdnConfig_def Product_new_def)
qed

section \<open>Properties\<close>

text \<open>C2: loading needs no network beyond the list of servers when the cache holds, for the first server configuration, the two
  configurations, the manifests and the indices that they name: it returns true, changes no file, and the product holds exactly
  what the files parse to.\<close>

theorem Load_from_cache:
  assumes "Execute_CDNs (ev_net ev) (ev_boundary ev) (ev_split ev) V1 US (pr_productName product) = Inr (Some (cdn # others))"
    and "2 \<le> length b" and "cached parse_buildConfig files (cached_path (ev_resolver ev) ''config'' b cdn) bc"
    and "2 \<le> length c" and "cached parse_cdnConfig files (cached_path (ev_resolver ev) ''config'' c cdn) cc"
    and "Key_ToString (EncodingKey (sk_Key (bc_Encoding bc))) = Inr ek" and "2 \<le> length ek"
    and "cached (parse_encoding ev (sk_Key (bc_Encoding bc))) files (cached_path (ev_resolver ev) ''data'' ek cdn) en"
    and "Key_ToString (EncodingKey (sk_Key (bc_Install bc))) = Inr ik" and "2 \<le> length ik"
    and "cached (parse_install ev (sk_Key (bc_Install bc))) files (cached_path (ev_resolver ev) ''data'' ik cdn) ins"
    and "\<forall>a \<in> set (cc_archives cc) \<union> set_option (cc_fileIndex cc). cached (parse_index ev (ar_Name a)) files
      (cached_path (ev_resolver ev) ''data'' (ar_Name a @ ''.index'') cdn) (ix a)"
  shows "Load ev b c product files = Inr (True, product\<lparr>pr_cdns := Some (cdn # others), pr_buildConfig := Some bc,
      pr_cdnConfig := Some cc, pr_encoding := Some en, pr_install := Some ins,
      pr_indices := pr_indices product @ map ix (cc_archives cc),
      pr_fileIndex := (case cc_fileIndex cc of None \<Rightarrow> pr_fileIndex product | Some a \<Rightarrow> Some (ix a))\<rparr>, files)"
  by (rule Load_cached [OF assms])

text \<open>C1: a load that returns true leaves configurations and manifests behind, and the manifests were read from
  contents with the digests that the build configuration names; the indices it adds are those of archives of the server
  configuration, in its order.\<close>

theorem Load_verified:
  assumes "Load ev b c product files = Inr (True, product', files')"
  shows "\<exists>bc cc en ins new. pr_buildConfig product' = Some bc \<and> pr_cdnConfig product' = Some cc \<and>
    pr_encoding product' = Some en \<and> pr_install product' = Some ins \<and>
    (\<exists>s t. digest_stream (ev_md5 ev) (KeyPair.ContentKey (sk_Key (bc_Encoding bc))) s \<and>
      Encoding_read GrowableMemoryStream_vt s = Inr (en, t)) \<and>
    (\<exists>s t. digest_stream (ev_md5 ev) (KeyPair.ContentKey (sk_Key (bc_Install bc))) s \<and>
      Install_Parse GrowableMemoryStream_vt s = Inr (Some ins, t)) \<and>
    pr_indices product' = pr_indices product @ new \<and>
    subseq (map ix_archiveName new) (map ar_Name (cc_archives cc))"
proof -
  from assms obtain cdns bc cc en ins f4 outcomes f5 fi where
    m: "manifest_steps ev (pr_productName product) b c files cdns bc cc en ins f4" and
    a: "archive_tasks ev (with_manifests cdns bc cc en ins product) (cc_archives cc) f4 = Inr (outcomes, f5)" and
    p: "product' = push_indices outcomes ((with_manifests cdns bc cc en ins product)\<lparr>pr_fileIndex := fi\<rparr>)"
    by (rule Load_TrueE)
  from m obtain ek ik f2 f3 where
    "Resolve (ev_resolver ev) cdns ek ''data'' (parse_encoding ev (sk_Key (bc_Encoding bc))) f2 = Inr (Some en, f3)"
    "Resolve (ev_resolver ev) cdns ik ''data'' (parse_install ev (sk_Key (bc_Install bc))) f3 = Inr (Some ins, f4)"
    unfolding manifest_steps_def ResolveData_def by (elim exE conjE bindr_InrE)
  then have "\<exists>s. parse_encoding ev (sk_Key (bc_Encoding bc)) s = Inr (Some en)"
    "\<exists>s. parse_install ev (sk_Key (bc_Install bc)) s = Inr (Some ins)"
    using Resolve_Some unfolding cached_def by metis+
  then show ?thesis
    using parse_encoding_Some parse_install_Some archive_tasks_names [OF a]
    by (simp add: p push_indices_append with_manifests_def) blast
qed

text \<open>C11: what a load that returns true leaves depends on the product before only by its name, except for the indices, which are added
  to those that the product had before, and the file index, which stays when the new server configuration has none.
  So a product that is loaded twice holds every index twice.\<close>

theorem Load_keeps_indices:
  assumes "Load ev b c product files = Inr (True, product', files')"
  shows "\<exists>new. pr_indices product' = pr_indices product @ new \<and>
    (\<forall>other. pr_productName other = pr_productName product \<longrightarrow>
      Load ev b c other files = Inr (True, product'\<lparr>pr_indices := pr_indices other @ new,
        pr_fileIndex := (if map_option cc_fileIndex (pr_cdnConfig product') = Some None then pr_fileIndex other
          else pr_fileIndex product')\<rparr>, files'))"
proof -
  from assms obtain cdns bc cc en ins f4 outcomes f5 fi where
    m: "manifest_steps ev (pr_productName product) b c files cdns bc cc en ins f4" and
    a: "archive_tasks ev (with_manifests cdns bc cc en ins product) (cc_archives cc) f4 = Inr (outcomes, f5)" and
    l: "load_fileIndex ev cc (with_manifests cdns bc cc en ins product) f5 =
      Inr ((with_manifests cdns bc cc en ins product)\<lparr>pr_fileIndex := fi\<rparr>, files')" and
    p: "product' = push_indices outcomes ((with_manifests cdns bc cc en ins product)\<lparr>pr_fileIndex := fi\<rparr>)"
    by (rule Load_TrueE)
  let ?new = "concat (map (\<lambda>x. case x of None \<Rightarrow> [] | Some index \<Rightarrow> [index]) outcomes)"
  have "Load ev b c other files = Inr (True, product'\<lparr>pr_indices := pr_indices other @ ?new,
      pr_fileIndex := (if map_option cc_fileIndex (pr_cdnConfig product') = Some None then pr_fileIndex other
        else pr_fileIndex product')\<rparr>, files')"
    if n: "pr_productName other = pr_productName product" for other
  proof -
    let ?o = "with_manifests cdns bc cc en ins other"
    have c: "pr_cdns (with_manifests cdns bc cc en ins product) = pr_cdns ?o" by (simp add: with_manifests_def)
    have "Load ev b c other files = Inr (True, push_indices outcomes
        (?o\<lparr>pr_fileIndex := if cc_fileIndex cc = None then pr_fileIndex ?o else fi\<rparr>), files')"
      by (rule Load_TrueI [OF m [folded n] a [unfolded archive_tasks_cdns [OF c]] load_fileIndex_cdns [OF l c]])
    then show ?thesis
      using n unfolding p push_indices_append with_manifests_def by (cases other; cases product) simp
  qed
  moreover have "pr_indices product' = pr_indices product @ ?new" by (simp add: p push_indices_append with_manifests_def)
  ultimately show ?thesis by blast
qed

text \<open>C17: once a load has returned true, looking up a path gives the location of the first entry of the encoding manifest whose content
  key is that of the first file of the install manifest with the path, and nothing when one of the two is missing. Before
  any load the install manifest is dereferenced although there is none, while looking up a key is safe at all times.\<close>

theorem Product_FindFile_locates:
  assumes "pr_install product = Some ins" and "pr_encoding product = Some en"
    and "\<forall>page \<in> set (en_cekeyPages en). \<forall>e \<in> set page. entry_ok cks eks e"
    and "unat (ContentKeySize (en_header en)) = cks" and "unat (EncodingKeySize (en_header en)) = eks"
    and "\<forall>f \<in> set (in_entries ins). key_wf (in_hash f)"
  shows "Product_FindFile product fileName = Inr (case find (\<lambda>f. in_name f = fileName) (in_entries ins) of
      None \<Rightarrow> None
    | Some f \<Rightarrow> map_option location_of (find (\<lambda>e. ce_ckey e = k_data (in_hash f)) (concat (en_cekeyPages en)))) \<and>
    Product_FindFile (Product_new name) fileName = Inl NullDereference \<and>
    Product_FindFile_key (Product_new name) k = Inr None"
proof (intro conjI)
  show "Product_FindFile product fileName = Inr (case find (\<lambda>f. in_name f = fileName) (in_entries ins) of
      None \<Rightarrow> None
    | Some f \<Rightarrow> map_option location_of (find (\<lambda>e. ce_ckey e = k_data (in_hash f)) (concat (en_cekeyPages en))))"
  proof (cases "find (\<lambda>f. in_name f = fileName) (in_entries ins)")
    case None
    then show ?thesis by (simp add: Product_FindFile_def Install_FindFile_def assms(1))
  next
    case (Some f)
    then have "key_wf (in_hash f)" using assms(6) by (auto simp: find_Some_iff)
    then show ?thesis
      using Some find_in_pages_find [OF assms(3-5), of "in_hash f"] assms(1,2)
      by (simp add: Product_FindFile_def Install_FindFile_def Product_FindFile_key_def Encoding_FindFile_def)
  qed
qed (simp_all add: Product_FindFile_def Product_FindFile_key_def Product_new_def)

text \<open>An archive is found by its encoding key in the file index, and then the key is the name of the archive, or else in the
  first index, in the order of the archives, that has an entry with the key; offset and size are those of the entry.\<close>

theorem FindArchive_first:
  assumes "pr_fileIndex product = map_option (\<lambda>(h, ks, es). index_of h ks es) fileIndex"
    and "pr_indices product = map (\<lambda>(h, ks, es). index_of h ks es) indices"
    and "\<forall>(h, ks, es) \<in> set indices \<union> set_option fileIndex. \<forall>e \<in> set es. length (i_key e) = ks" and "key_wf ekey"
  shows "FindArchive product ekey = Inr (map_option (\<lambda>(name, e). ArchiveFileLocation_new name (unat (i_offset e)) (unat (i_size e)))
    (find (\<lambda>(name, e). i_key e = k_data ekey)
      ((case fileIndex of None \<Rightarrow> [] | Some (h, ks, es) \<Rightarrow> map (Pair (hex (k_data ekey))) es) @
        concat (map (\<lambda>(h, ks, es). map (Pair h) es) indices))))"
proof -
  have "\<forall>(h, ks, es) \<in> set indices. \<forall>e \<in> set es. length (i_key e) = ks" using assms(3) by auto
  note rest = find_archive_first [OF this assms(4)]
  have name: "Key_ToString ekey = Inr (hex (k_data ekey))" using assms(4) by (simp add: Key_ToString_def key_wf_def slice_def)
  show ?thesis
  proof (cases fileIndex)
    case None
    then show ?thesis using assms(1) rest by (simp add: FindArchive_def assms(2))
  next
    case (Some f)
    obtain h ks es where f: "f = (h, ks, es)" by (cases f)
    then have "\<forall>e \<in> set es. length (i_key e) = ks" using assms(3) Some by simp
    from this assms(4) show ?thesis
      by (rule Index_lookup_find [where hash = h and key = ekey])
        (simp_all add: FindArchive_def assms(1,2) Some f rest name find_append_case find_pair)
  qed
qed

text \<open>A refresh returns the versions that the server has when the first summary record of the product without flags has their
  sequence number, and nothing when there is no such record or the numbers differ.\<close>

theorem Refresh_current:
  assumes "Execute_Summary (ev_net ev) (ev_boundary ev) V1 US = Inr (Some summary)"
    and "Execute_Versions (ev_net ev) (ev_boundary ev) V1 US (pr_productName product) = Inr versions"
  shows "Refresh ev product = Inr (case find (\<lambda>r. sr_Product r = pr_productName product \<and> sr_Flags r = []) summary of
      None \<Rightarrow> None
    | Some r \<Rightarrow> (if \<exists>v. versions = Some v \<and> vs_SequenceID v = sr_SequenceID r then versions else None))"
  using assms by (auto simp: Refresh_def split: option.splits)

section \<open>The properties at the example\<close>

lemma Load_from_cache_witness:
  "Load example_env ''bcbc'' ''cccc'' example_product example_files =
    Inr (True, example_product\<lparr>pr_indices := [example_index, example_index]\<rparr>, example_files)"
proof -
  have "\<forall>a \<in> set (cc_archives example_cdnConfig) \<union> set_option (cc_fileIndex example_cdnConfig).
      cached (parse_index example_env (ar_Name a)) example_files
        (cached_path (ev_resolver example_env) ''data'' (ar_Name a @ ''.index'') example_cdn_record) example_index"
    using example_indices by (simp add: example_cdnConfig_def)
  then show ?thesis
    using Load_from_cache [of example_env example_product example_cdn_record "[]" "''bcbc''" example_files
        example_buildConfig "''cccc''" example_cdnConfig "hex (replicate 16 1)" example_encoding "hex (replicate 16 1)"
        example_install "\<lambda>_. example_index"] example_cdns example_configs example_manifests
    by (simp add: example_keys example_product_def) (simp add: example_cdnConfig_def example_product_def)
qed

lemma Load_verified_witness:
  "\<exists>s t. digest_stream const_md5 example_key s \<and> Install_Parse GrowableMemoryStream_vt s = Inr (Some example_install, t)"
  using Load_verified [OF example_Load] by (simp add: example_product_def example_keys)

lemma Load_keeps_indices_witness:
  "Load example_env ''bcbc'' ''cccc'' example_product example_files =
    Inr (True, example_product\<lparr>pr_indices := [example_index, example_index]\<rparr>, example_files)"
proof -
  have ix: "pr_indices example_product = [example_index]" "pr_indices (Product_new ''wow'') = []"
    "pr_productName example_product = pr_productName (Product_new ''wow'')" "pr_fileIndex example_product = None"
    by (simp_all add: example_product_def Product_new_def)
  obtain new where new: "pr_indices example_product = pr_indices (Product_new ''wow'') @ new"
    "Load example_env ''bcbc'' ''cccc'' example_product example_files = Inr (True,
      example_product\<lparr>pr_indices := pr_indices example_product @ new, pr_fileIndex :=
        (if map_option cc_fileIndex (pr_cdnConfig example_product) = Some None then pr_fileIndex example_product
         else pr_fileIndex example_product)\<rparr>, example_files)"
    using Load_keeps_indices [OF example_Load] ix(3) by blast
  then have "new = [example_index]" using ix by simp
  with new(2) show ?thesis by (simp add: example_product_def)
qed

lemma Product_FindFile_locates_witness:
  "Product_FindFile (example_product\<lparr>pr_install := Some \<lparr>in_tags = [], in_entries =
        [\<lparr>in_name = ''a'', in_fileSize = 7, in_hash = Key_of_span [1, 2]\<rparr>]\<rparr>,
      pr_encoding := Some \<lparr>en_header = encoding_header 1 2 2 1 4 1 0 3, en_cekeyPages = [[example_entry]]\<rparr>\<rparr>) ''a'' =
    Inr (Some (location_of example_entry))"
  using Product_FindFile_locates [of "example_product\<lparr>pr_install := Some \<lparr>in_tags = [], in_entries =
        [\<lparr>in_name = ''a'', in_fileSize = 7, in_hash = Key_of_span [1, 2]\<rparr>]\<rparr>,
      pr_encoding := Some \<lparr>en_header = encoding_header 1 2 2 1 4 1 0 3, en_cekeyPages = [[example_entry]]\<rparr>\<rparr>" _ _ 2 2
      "''a''"] example_entry_ok
  by (simp add: encoding_header_def) (simp add: example_entry_def Key_of_span_def)

lemma FindArchive_first_witness:
  "FindArchive example_product (Key_of_span [1, 2]) = Inr (Some (ArchiveFileLocation_new (hex (replicate 16 1)) 9 7))"
  using FindArchive_first [of example_product None "[(hex (replicate 16 1), 2, [example_ientry])]" "Key_of_span [1, 2]"]
  by (simp add: example_product_def example_index_def) (simp add: example_ientry_def Key_of_span_def)

definition example_summary :: "SummaryRecord list" where
  "example_summary = [\<lparr>sr_Product = ''w'', sr_SequenceID = 4, sr_Flags = ''cdn''\<rparr>,
     \<lparr>sr_Product = ''w'', sr_SequenceID = 5, sr_Flags = []\<rparr>]"

definition example_network :: "string network" where
  "example_network = \<lparr>net_resolve = \<lambda>_ _. True, net_connect = \<lambda>_ _. Some [], net_write = \<lambda>_ command. Some command,
     net_read = \<lambda>command. Some (rejoin (''--b'' @ crlf) [if command = ''v1/summary'' @ crlf
       then rejoin crlf (map print_summary example_summary)
       else rejoin crlf (''Region'' # (seqn_prefix @ print_nat 5) # map print_version [example_version])])\<rparr>"

lemma example_answers:
  "Execute_Summary example_network (\<lambda>_. Some ''b'') V1 US = Inr (Some example_summary)"
  "Execute_Versions example_network (\<lambda>_. Some ''b'') V1 US ''w'' = Inr (Some \<lparr>vs_Records = [example_version], vs_SequenceID = 5\<rparr>)"
proof -
  have "Summary_Parse (rejoin crlf (map print_summary example_summary)) = Inr (Some example_summary)"
    using summary_format.table_rows [of "[]" example_summary]
    by (simp add: Summary_Parse_def example_summary_def summary_ok_def u32_bound_def)
  moreover have "CHR ''-'' \<notin> set (rejoin crlf (map print_summary example_summary))"
    by (simp add: crlf_def print_summary_def example_summary_def)
  moreover have "rejoin crlf (map print_summary example_summary) \<noteq> []" by (simp add: example_summary_def crlf_def)
  ultimately show "Execute_Summary example_network (\<lambda>_. Some ''b'') V1 US = Inr (Some example_summary)"
    using example_answer [of "rejoin crlf (map print_summary example_summary)" Summary_Parse example_summary]
    by (simp add: Execute_Summary_def Execute_def example_network_def)
  let ?t = "rejoin crlf (''Region'' # (seqn_prefix @ print_nat 5) # map print_version [example_version])"
  have "Versions_Parse ?t = Inr (Some \<lparr>vs_Records = [example_version], vs_SequenceID = 5\<rparr>)"
    by (intro Versions_Parse_table) (simp_all add: example_ok seqn_prefix_def size_mod_def)
  moreover have "CHR ''-'' \<notin> set ?t" by (simp add: crlf_def seqn_prefix_def print_version_def example_version_def)
  ultimately show "Execute_Versions example_network (\<lambda>_. Some ''b'') V1 US ''w'' =
      Inr (Some \<lparr>vs_Records = [example_version], vs_SequenceID = 5\<rparr>)"
    using example_answer [of ?t Versions_Parse "\<lparr>vs_Records = [example_version], vs_SequenceID = 5\<rparr>"]
    by (simp add: Execute_Versions_def Execute_def example_network_def)
qed

lemma Refresh_current_witness:
  "\<exists>v. Refresh \<lparr>ev_net = example_network, ev_boundary = \<lambda>_. Some ''b'', ev_split = \<lambda>s. [s],
      ev_resolver = ev_resolver example_env, ev_md5 = const_md5, ev_zlib = ev_zlib example_env, ev_fuel = 0\<rparr> (Product_new ''w'') =
    Inr (Some v) \<and> vs_SequenceID v = 5"
  using Refresh_current [of "\<lparr>ev_net = example_network, ev_boundary = \<lambda>_. Some ''b'', ev_split = \<lambda>s. [s],
      ev_resolver = ev_resolver example_env, ev_md5 = const_md5, ev_zlib = ev_zlib example_env, ev_fuel = 0\<rparr>"
      example_summary "Product_new ''w''" "Some \<lparr>vs_Records = [example_version], vs_SequenceID = 5\<rparr>"]
    example_answers by (simp add: Product_new_def example_summary_def)

end
