(* ===== verification/WowProduct.thy ===== *)
theory WowProduct
  imports Product Root
begin

text \<open>
  \<^verbatim>\<open>libtactmon/tact/data/product/wow/Product.cpp\<close>: the products of one game, whose files are also listed in a root manifest.
\<close>

record WowProduct =
  wp_base :: Product
  wp_root :: "Root option"

definition WowProduct_new :: "string \<Rightarrow> WowProduct" where
  "WowProduct_new productName = \<lparr>wp_base = Product_new productName, wp_root = None\<rparr>"

definition parse_root :: "('n, 'c, 'z) environment \<Rightarrow> Product \<Rightarrow> Root file_handler" where
  "parse_root ev base fstream =
     bindr (BLTE_Parse (ev_md5 ev) (ev_zlib ev) (ev_fuel ev) FileStream_vt fstream) (\<lambda>(blte, _). case blte of None \<Rightarrow> Inr None
     | Some archive \<Rightarrow> bindr (deref (pr_encoding base)) (\<lambda>encoding.
         bindr (Root_Parse GrowableMemoryStream_vt (GetContentKeySize encoding) (dataBuffer archive)) (\<lambda>(root, _). Inr root)))"

text \<open>The loop over the keys of the root manifest, \<open>i\<close> being the next one.\<close>

primrec load_root ::
  "nat \<Rightarrow> nat \<Rightarrow> ('n, 'c, 'z) environment \<Rightarrow> Product \<Rightarrow> FileLocation \<Rightarrow> files \<Rightarrow> (Root option \<times> files) result" where
  "load_root 0 i ev base rootLocation files = Inr (None, files)"
| "load_root (Suc n) i ev base rootLocation files =
     bindr (FileLocation_at rootLocation i) (\<lambda>key.
     bindr (Key_ToString key) (\<lambda>name.
     bindr (ResolveCachedData ev base name (parse_root ev base) files) (\<lambda>(root, files).
       case root of Some r \<Rightarrow> Inr (Some r, files) | None \<Rightarrow> load_root n (i + 1) ev base rootLocation files)))"

definition wow_Load ::
  "('n, 'c, 'z) environment \<Rightarrow> string \<Rightarrow> string \<Rightarrow> WowProduct \<Rightarrow> files \<Rightarrow> (bool \<times> WowProduct \<times> files) result" where
  "wow_Load ev buildConfig cdnConfig product files =
     bindr (Load ev buildConfig cdnConfig (wp_base product) files) (\<lambda>(loaded, base, files).
     let product = product\<lparr>wp_base := base\<rparr> in
     if \<not> loaded then Inr (False, product, files)
     else
       bindr (deref (pr_buildConfig base)) (\<lambda>config.
       bindr (Product_FindFile_key base (bc_Root config)) (\<lambda>location. case location of
         None \<Rightarrow> Inr (False, product, files)
       | Some rootLocation \<Rightarrow>
           bindr (load_root (fl_keyCount rootLocation) 0 ev base rootLocation files) (\<lambda>(root, files).
             let product = product\<lparr>wp_root := root\<rparr> in Inr (root \<noteq> None, product, files)))))"

definition wow_FindFile :: "bool \<Rightarrow> nat \<Rightarrow> WowProduct \<Rightarrow> string \<Rightarrow> FileLocation option result" where
  "wow_FindFile le addr product fileName =
     bindr (Product_FindFile (wp_base product) fileName) (\<lambda>parentResult. case parentResult of
       Some location \<Rightarrow> Inr (Some location)
     | None \<Rightarrow>
         (case (case wp_root product of None \<Rightarrow> None | Some root \<Rightarrow> Root_FindFile_name le addr root fileName) of
            None \<Rightarrow> Inr None
          | Some contentKey \<Rightarrow> Product_FindFile_key (wp_base product) contentKey))"

definition wow_FindFile_id :: "WowProduct \<Rightarrow> u32 \<Rightarrow> FileLocation option result" where
  "wow_FindFile_id product fileDataID = (case wp_root product of None \<Rightarrow> Inr None
     | Some root \<Rightarrow> (case Root_FindFile root fileDataID of None \<Rightarrow> Inr None
         | Some contentKey \<Rightarrow> Product_FindFile_key (wp_base product) contentKey))"

lemma load_root_Some:
  "load_root n i ev base location files = Inr (Some r, files') \<Longrightarrow>
    \<exists>j key stream. i \<le> j \<and> j < i + n \<and> FileLocation_at location j = Inr key \<and> parse_root ev base stream = Inr (Some r)"
proof (induction n arbitrary: i files)
  case (Suc n)
  from Suc.prems obtain key name root f1 where
    k: "FileLocation_at location i = Inr key" and
    r: "ResolveCachedData ev base name (parse_root ev base) files = Inr (root, f1)" and
    c: "(case root of Some r \<Rightarrow> Inr (Some r, f1) | None \<Rightarrow> load_root n (i + 1) ev base location f1) = Inr (Some r, files')"
    by (auto elim!: bindr_InrE)
  show ?case
  proof (cases root)
    case None
    then show ?thesis using Suc.IH [of "i + 1" f1] c by (auto intro: Suc_leD)
  next
    case (Some x)
    then have x: "x = r" using c by simp
    from r obtain cdns where "Resolve (ev_resolver ev) cdns name ''data'' (parse_root ev base) files = Inr (Some x, f1)"
      unfolding Some ResolveCachedData_def ResolveData_def by (elim bindr_InrE)
    then have "\<exists>stream. parse_root ev base stream = Inr (Some r)"
      using Resolve_Some x unfolding cached_def by metis
    then show ?thesis using k by auto
  qed
qed simp

section \<open>Properties\<close>

text \<open>C18: loading returns true only with a root manifest, which was parsed from an archive, after the encoding manifest gave a location for
  the key that the build configuration names; a load that returns false leaves the root manifest as it was, beside
  whatever else it has replaced, or removes it.\<close>

theorem wow_Load_root:
  assumes "wow_Load ev b c product files = Inr (loaded, product', files')"
  shows "(loaded \<longrightarrow> (\<exists>f1. Load ev b c (wp_base product) files = Inr (True, wp_base product', f1)) \<and>
      (\<exists>config location r i key stream. pr_buildConfig (wp_base product') = Some config \<and>
        Product_FindFile_key (wp_base product') (bc_Root config) = Inr (Some location) \<and> wp_root product' = Some r \<and>
        i < fl_keyCount location \<and> FileLocation_at location i = Inr key \<and>
        parse_root ev (wp_base product') stream = Inr (Some r))) \<and>
    (\<not> loaded \<longrightarrow> wp_root product' = wp_root product \<or>
      wp_root product' = None \<and> (\<exists>f1. Load ev b c (wp_base product) files = Inr (True, wp_base product', f1)))"
proof -
  obtain l base f1 where l: "Load ev b c (wp_base product) files = Inr (l, base, f1)"
    using assms by (auto simp: wow_Load_def elim: bindr_InrE)
  show ?thesis
  proof (cases l)
    case False
    then show ?thesis using assms l by (auto simp: wow_Load_def Let_def)
  next
    case True
    then obtain config location where c: "pr_buildConfig base = Some config"
        "Product_FindFile_key base (bc_Root config) = Inr location"
        "(case location of None \<Rightarrow> Inr (False, product\<lparr>wp_base := base\<rparr>, f1)
          | Some rootLocation \<Rightarrow> bindr (load_root (fl_keyCount rootLocation) 0 ev base rootLocation f1) (\<lambda>(root, files).
              Inr (root \<noteq> None, product\<lparr>wp_base := base, wp_root := root\<rparr>, files))) = Inr (loaded, product', files')"
      using assms l by (auto simp: wow_Load_def Let_def deref_def elim!: bindr_InrE split: option.splits)
    show ?thesis
    proof (cases location)
      case None
      then show ?thesis using c by auto
    next
      case (Some loc)
      then obtain root where r: "load_root (fl_keyCount loc) 0 ev base loc f1 = Inr (root, files')"
          "loaded \<longleftrightarrow> root \<noteq> None" "product' = product\<lparr>wp_base := base, wp_root := root\<rparr>"
        using c(3) by (auto elim!: bindr_InrE)
      then show ?thesis
        using c(1,2) Some True l load_root_Some [of "fl_keyCount loc" 0 ev base loc f1] by (cases root) fastforce+
    qed
  qed
qed

text \<open>A path is looked up in the install manifest first, and then in the root manifest, which never answers when its hashes need more
  than 32 bits; an identifier is looked up in the root manifest only, where the first record that is not smaller answers.
  Without a root manifest only the install manifest is used.\<close>

theorem wow_FindFile_order:
  assumes "Product_FindFile (wp_base product) fileName = Inr location" and "wp_root product = Some root"
    and "\<forall>block \<in> set root. sorted (map re_FileDataID (bl_entries block))"
  shows "(location \<noteq> None \<longrightarrow> wow_FindFile le addr product fileName = Inr location) \<and>
    ((\<forall>block \<in> set root. \<forall>e \<in> set (bl_entries block). 2 ^ 32 \<le> unat (re_NameHash e)) \<longrightarrow>
      wow_FindFile le addr product fileName = Inr location) \<and>
    wow_FindFile_id product fileDataID =
      (case find (\<lambda>e. fileDataID \<le> re_FileDataID e) (concat (map bl_entries root)) of None \<Rightarrow> Inr None
       | Some e \<Rightarrow> Product_FindFile_key (wp_base product) (re_ContentKey e)) \<and>
    wow_FindFile le addr (product\<lparr>wp_root := None\<rparr>) fileName = Inr location \<and>
    wow_FindFile_id (product\<lparr>wp_root := None\<rparr>) fileDataID = Inr None"
  using assms(1,2) Root_FindFile_name_high [of root le addr fileName] Root_FindFile_find [OF assms(3), of fileDataID]
  by (auto simp: wow_FindFile_def wow_FindFile_id_def split: option.splits)

lemma wow_Load_root_witness:
  "wow_Load example_env ''bcbc'' ''cccc'' (WowProduct_new ''wow'') example_files =
    Inr (False, \<lparr>wp_base = example_product, wp_root = None\<rparr>, example_files) \<and>
    wp_root \<lparr>wp_base = example_product, wp_root = None\<rparr> = wp_root (WowProduct_new ''wow'')"
proof -
  have "Product_FindFile_key example_product (bc_Root example_buildConfig) = Inr None"
    by (simp add: Product_FindFile_key_def example_product_def Encoding_FindFile_def example_encoding_def)
  then have w: "wow_Load example_env ''bcbc'' ''cccc'' (WowProduct_new ''wow'') example_files =
      Inr (False, \<lparr>wp_base = example_product, wp_root = None\<rparr>, example_files)"
    using example_Load by (simp add: wow_Load_def WowProduct_new_def Let_def) (simp add: example_product_def)
  from wow_Load_root [OF w] w show ?thesis by (simp add: WowProduct_new_def)
qed

lemma wow_FindFile_order_witness:
  "wow_FindFile_id \<lparr>wp_base = example_product\<lparr>pr_encoding :=
        Some \<lparr>en_header = encoding_header 1 2 2 1 4 1 0 3, en_cekeyPages = [[example_entry]]\<rparr>\<rparr>,
      wp_root = Some [\<lparr>bl_Content = 0, bl_Locales = 0, bl_entries =
        [\<lparr>re_ContentKey = Key_of_span [1, 2], re_FileDataID = 9, re_NameHash = 0\<rparr>]\<rparr>]\<rparr> 5 =
    Inr (Some (location_of example_entry))"
proof -
  let ?p = "\<lparr>wp_base = example_product\<lparr>pr_encoding :=
        Some \<lparr>en_header = encoding_header 1 2 2 1 4 1 0 3, en_cekeyPages = [[example_entry]]\<rparr>\<rparr>,
      wp_root = Some [\<lparr>bl_Content = 0, bl_Locales = 0, bl_entries =
        [\<lparr>re_ContentKey = Key_of_span [1, 2], re_FileDataID = 9, re_NameHash = 0\<rparr>]\<rparr>]\<rparr>"
  have "Product_FindFile (wp_base ?p) ''x'' = Inr None"
    by (simp add: Product_FindFile_def example_product_def example_install_def Install_FindFile_def)
  moreover have "Product_FindFile_key (wp_base ?p) (Key_of_span [1, 2]) = Inr (Some (location_of example_entry))"
  proof -
    have "find (\<lambda>e. ce_ckey e = k_data (Key_of_span [1, 2])) (concat [[example_entry]]) = Some example_entry"
      by (simp add: example_entry_def Key_of_span_def)
    then have "find_in_pages (encoding_header 1 2 2 1 4 1 0 3) (Key_of_span [1, 2]) [[example_entry]] =
        Inr (Some (location_of example_entry))"
      using example_entry_ok by (subst find_in_pages_find [of _ 2 2]) (simp_all add: encoding_header_def)
    then show ?thesis by (simp add: Product_FindFile_key_def Encoding_FindFile_def del: find_in_pages.simps)
  qed
  ultimately show ?thesis
    using wow_FindFile_order [of ?p "''x''" None _ True 0 5] by simp
qed

end
