(* ===== verification/Transform.thy ===== *)
theory Transform
  imports BLTE
begin

text \<open>
  \<^verbatim>\<open>tactmon/beast/BlockTableEncodedStreamTransform.cpp\<close>: a decoder of BLTE archives that is fed with the pieces of an answer as they arrive
  and hands the contents on as soon as it can. The calls of the two callbacks are part of the state; that a handler throws is
  not modelled.
\<close>

datatype http_error = body_limit | need_more | bad_alloc | unexpected_body

record ChunkInfo =
  ci_compressedSize :: u32
  ci_decompressedSize :: u32
  ci_checksum :: "byte list"

text \<open>\<^verbatim>\<open>_step\<close>, where \<open>DataBlocks k\<close> is \<^verbatim>\<open>Step::DataBlocks + k\<close>.\<close>

datatype Step = Header | ChunkHeaders | DataBlocks nat

record Transform =
  tf_chunks :: "ChunkInfo list"
  tf_step :: Step
  tf_headerSize :: u32
  tf_ms :: GrowableMemoryStream
  tf_engine :: Hash
  tf_output :: "byte list list"    \<comment> \<open>the arguments of \<^verbatim>\<open>_handler\<close>\<close>
  tf_feedback :: "nat list"        \<comment> \<open>the arguments of \<^verbatim>\<open>_feedback\<close>\<close>

definition Transform_new :: Transform where
  "Transform_new = \<lparr>tf_chunks = [], tf_step = Header, tf_headerSize = 0, tf_ms = GrowableMemoryStream_new [],
     tf_engine = Hash_new 16, tf_output = [], tf_feedback = []\<rparr>"

text \<open>An iteration of the loop: whether it goes on, the object and the error code.\<close>

type_synonym iteration = "(bool \<times> Transform \<times> http_error option) result"

definition parse_header :: "Transform \<Rightarrow> http_error option \<Rightarrow> iteration" where
  "parse_header t ec =
     (if \<not> CanRead GrowableMemoryStream_vt 8 (tf_ms t) then Inr (False, t, ec)
      else bindr (ReadValue GrowableMemoryStream_vt Little (tf_ms t)) (\<lambda>(signature :: u32, ms).
        if signature \<noteq> 0x45544C42 then Inr (False, t\<lparr>tf_ms := ms\<rparr>, Some body_limit)
        else bindr (ReadValue GrowableMemoryStream_vt Big ms) (\<lambda>(headerSize :: u32, ms).
          let engine = UpdateData_int signature (tf_engine t);
              engine = UpdateData_int (byteswap headerSize) engine
          in Inr (True, t\<lparr>tf_ms := ms, tf_headerSize := headerSize, tf_engine := engine, tf_step := ChunkHeaders\<rparr>, ec))))"

primrec read_chunkInfos ::
  "nat \<Rightarrow> ChunkInfo list \<Rightarrow> Hash \<Rightarrow> GrowableMemoryStream \<Rightarrow> (ChunkInfo list \<times> Hash \<times> GrowableMemoryStream) result" where
  "read_chunkInfos 0 chunks engine ms = Inr (chunks, engine, ms)"
| "read_chunkInfos (Suc n) chunks engine ms =
     bindr (ReadValue GrowableMemoryStream_vt Big ms) (\<lambda>(csize :: u32, ms).
     bindr (ReadValue GrowableMemoryStream_vt Big ms) (\<lambda>(dsize :: u32, ms).
     bindr (ReadSpan GrowableMemoryStream_vt (replicate 16 0) Little 16 ms) (\<lambda>(checksum, _, ms).
       let chunk = \<lparr>ci_compressedSize = csize - 1, ci_decompressedSize = dsize, ci_checksum = checksum\<rparr>;
           engine = UpdateData_int (byteswap (ci_compressedSize chunk)) engine;
           engine = UpdateData_int (byteswap (ci_decompressedSize chunk)) engine;
           engine = UpdateData (ci_checksum chunk) engine
       in read_chunkInfos n (chunks @ [chunk]) engine ms)))"

definition parse_chunkHeaders :: "digest \<Rightarrow> Transform \<Rightarrow> http_error option \<Rightarrow> iteration" where
  "parse_chunkHeaders md5 t ec =
     (if \<not> CanRead GrowableMemoryStream_vt (unat (tf_headerSize t)) (tf_ms t) then Inr (False, t, ec)
      else bindr (ReadValue GrowableMemoryStream_vt Big (tf_ms t)) (\<lambda>(flagsChunkCount :: u32, ms).
        let engine = UpdateData_int (byteswap flagsChunkCount) (tf_engine t);
            flags = drop_bit 24 (flagsChunkCount AND 0xFF000000);
            chunkCount = flagsChunkCount AND 0x00FFFFFF
        in if flags \<noteq> 0xF \<or> chunkCount = 0 then Inr (False, t\<lparr>tf_ms := ms, tf_engine := engine\<rparr>, Some need_more)
           else bindr (read_chunkInfos (unat chunkCount) [] engine ms) (\<lambda>(chunks, engine, ms).
             Inr (True, t\<lparr>tf_chunks := chunks, tf_ms := ms, tf_engine := Finalize md5 engine, tf_step := DataBlocks 0\<rparr>, ec))))"

text \<open>The loop around \<^verbatim>\<open>inflate\<close>; every call hands its output on.\<close>

primrec inflate_feed ::
  "nat \<Rightarrow> 'z zlib \<Rightarrow> int \<Rightarrow> 'z \<Rightarrow> byte list \<Rightarrow> byte list list \<Rightarrow> (bool \<times> byte list list) result" where
  "inflate_feed 0 z ret strm next_in out =
     (if ret \<noteq> Z_STREAM_END \<and> next_in \<noteq> [] then Inl Diverges else Inr (True, out))"
| "inflate_feed (Suc fuel) z ret strm next_in out =
     (if ret \<noteq> Z_STREAM_END \<and> next_in \<noteq> []
      then let (ret, strm, consumed, output) = inflate z strm next_in 8192 in
        if ret < 0 then Inr (False, out)
        else inflate_feed fuel z ret strm (drop consumed next_in) (out @ [output])
      else Inr (True, out))"

text \<open>A data block. \<open>nested\<close> decodes a block that is an archive of its own.\<close>

definition parse_block ::
  "(byte list \<Rightarrow> byte list list \<Rightarrow> http_error option \<Rightarrow> (byte list list \<times> http_error option) result)
    \<Rightarrow> digest \<Rightarrow> 'z zlib \<Rightarrow> nat \<Rightarrow> nat \<Rightarrow> Transform \<Rightarrow> http_error option \<Rightarrow> iteration" where
  "parse_block nested md5 z zfuel k t ec =
     (if length (tf_chunks t) \<le> k then Inr (False, t, ec)
      else let n = unat (ci_compressedSize (tf_chunks t ! k)) in
        if \<not> CanRead GrowableMemoryStream_vt n (tf_ms t) then Inr (False, t, ec)
        else
          bindr (Data GrowableMemoryStream_vt (tf_ms t)) (\<lambda>view.
          bindr (subspan 0 n view) (\<lambda>chunk.
          if Hash_Of md5 16 [chunk] \<noteq> ci_checksum (tf_chunks t ! k) then Inr (False, t, Some body_limit)
          else
            bindr (ReadValue GrowableMemoryStream_vt Big (tf_ms t)) (\<lambda>(encodingMode :: byte, ms).
            if encodingMode \<notin> {0x4E, 0x5A, 0x46} then Inr (False, t\<lparr>tf_ms := ms\<rparr>, Some unexpected_body)
            else
              let t' = t\<lparr>tf_ms := SkipRead GrowableMemoryStream_vt n ms, tf_step := DataBlocks (k + 1)\<rparr> in
              bindr (Data GrowableMemoryStream_vt ms) (\<lambda>view.
              if encodingMode = 0x4E then
                bindr (subspan 0 n view) (\<lambda>block. Inr (True, t'\<lparr>tf_output := tf_output t @ [block]\<rparr>, ec))
              else if encodingMode = 0x5A then
                (let (ret, strm) = inflateInit z in
                 if ret \<noteq> Z_OK then Inr (False, t\<lparr>tf_ms := ms\<rparr>, Some bad_alloc)
                 else bindr (subspan 0 n view) (\<lambda>block.
                   bindr (inflate_feed zfuel z ret strm block (tf_output t)) (\<lambda>(ok, out).
                     if ok then Inr (True, t'\<lparr>tf_output := out\<rparr>, ec)
                     else Inr (False, t\<lparr>tf_ms := ms, tf_output := out\<rparr>, Some bad_alloc))))
              else
                bindr (subspan 0 n view) (\<lambda>block.
                bindr (nested block (tf_output t) ec) (\<lambda>(out, ec).
                  Inr (True, t'\<lparr>tf_output := out\<rparr>, ec))))))))"

text \<open>\<^verbatim>\<open>Parse\<close> up to its loop, which is given. It returns the size that it got, always.\<close>

definition Parse_with ::
  "(Transform \<Rightarrow> http_error option \<Rightarrow> (Transform \<times> http_error option) result) \<Rightarrow> byte list \<Rightarrow> Transform
    \<Rightarrow> http_error option \<Rightarrow> (Transform \<times> http_error option) result" where
  "Parse_with loop data t ec =
     bindr (Write_span data native (tf_ms t)) (\<lambda>(_, ms).
       loop (t\<lparr>tf_ms := ms, tf_feedback := tf_feedback t @ [length data]\<rparr>) ec)"

text \<open>The loop, with a bound on its iterations and on the depth of nested archives.\<close>

primrec parse_loop ::
  "nat \<Rightarrow> digest \<Rightarrow> 'z zlib \<Rightarrow> nat \<Rightarrow> Transform \<Rightarrow> http_error option \<Rightarrow> (Transform \<times> http_error option) result" where
  "parse_loop 0 md5 z zfuel t ec = Inl Diverges"
| "parse_loop (Suc fuel) md5 z zfuel t ec =
     bindr (case tf_step t of
         Header \<Rightarrow> parse_header t ec
       | ChunkHeaders \<Rightarrow> parse_chunkHeaders md5 t ec
       | DataBlocks k \<Rightarrow> parse_block
           (\<lambda>block out ec. bindr (Parse_with (parse_loop fuel md5 z zfuel) block (Transform_new\<lparr>tf_output := out\<rparr>) ec)
             (\<lambda>(nestedReader, ec). Inr (tf_output nestedReader, ec))) md5 z zfuel k t ec)
       (\<lambda>(continue, t, ec). if continue then parse_loop fuel md5 z zfuel t ec else Inr (t, ec))"

definition Parse ::
  "digest \<Rightarrow> 'z zlib \<Rightarrow> byte list \<Rightarrow> Transform \<Rightarrow> http_error option \<Rightarrow> (Transform \<times> http_error option) result" where
  "Parse md5 z data t ec =
     (let n = length (gs_data (tf_ms t)) + length data in Parse_with (parse_loop (n + 3) md5 z n) data t ec)"

text \<open>\<^verbatim>\<open>blte_body::reader::put\<close>, called by the parser of the answer for each piece of the body, up to the first error.\<close>

primrec put_all :: "digest \<Rightarrow> 'z zlib \<Rightarrow> byte list list \<Rightarrow> Transform \<Rightarrow> (Transform \<times> http_error option) result" where
  "put_all md5 z [] t = Inr (t, None)"
| "put_all md5 z (buffer # buffers) t = bindr (Parse md5 z buffer t None) (\<lambda>(t, ec).
     case ec of None \<Rightarrow> put_all md5 z buffers t | Some e \<Rightarrow> Inr (t, Some e))"

section \<open>Streams that are written at their end\<close>

definition gms :: "byte list \<Rightarrow> nat \<Rightarrow> GrowableMemoryStream" where
  "gms X c = \<lparr>gs_data = X, gs_readCursor = c, gs_writeCursor = length X\<rparr>"

lemma gms_simps [simp]: "gs_data (gms X c) = X" "gs_readCursor (gms X c) = c" "gs_writeCursor (gms X c) = length X"
  by (simp_all add: gms_def)

lemma gms_ok [simp]: "GrowableMemoryStream_ok (gms X c) \<longleftrightarrow> c \<le> length X \<and> length X < size_mod"
  by (simp add: GrowableMemoryStream_ok_def)

lemma gms_rest [simp]: "rest_of GrowableMemoryStream_vt gs_data (gms X c) = drop c X"
  by (simp add: rest_of_def)

lemma gms_CanRead: "c + n < size_mod \<Longrightarrow> GrowableMemoryStream_CanRead n (gms X c) \<longleftrightarrow> c + n \<le> length X"
  by (simp add: GrowableMemoryStream_CanRead_def)

lemma gms_SkipRead: "c + n < size_mod \<Longrightarrow> GrowableMemoryStream_SkipRead n (gms X c) = gms X (c + n)"
  by (simp add: GrowableMemoryStream_SkipRead_def gms_def)

lemma gms_Data: "c \<le> length X \<Longrightarrow> GrowableMemoryStream_Data (gms X c) = Inr (drop c X)"
  by (simp add: GrowableMemoryStream_Data_def)

lemma gms_Write: "length X + length p < size_mod \<Longrightarrow> Write_span p native (gms X c) = Inr (length p, gms (X @ p) c)"
  using Write_span_append [of "gms X c" p] by (simp add: native_def gms_def)

text \<open>Reading leaves the write cursor alone.\<close>

lemma ReadSpan_writeCursor:
  "ReadSpan GrowableMemoryStream_vt buf e k s = Inr (x, n, s') \<Longrightarrow> gs_writeCursor s' = gs_writeCursor s"
  by (auto simp: ReadSpan_def GrowableMemoryStream_ReadImpl_def bindr_eq_Inr Let_def split: if_splits)

lemma ReadValue_writeCursor:
  "ReadValue GrowableMemoryStream_vt e s = Inr (v, s') \<Longrightarrow> gs_writeCursor s' = gs_writeCursor s"
  by (auto simp: ReadValue_def Read_def bindr_eq_Inr dest: ReadSpan_writeCursor)

lemma consumed_gms:
  "consumed GrowableMemoryStream_vt gs_data GrowableMemoryStream_ok k (gms X c) s' \<Longrightarrow> gs_writeCursor s' = length X \<Longrightarrow>
    s' = gms X (c + k)"
  by (cases s') (simp add: consumed_def gms_def)

lemma gms_ReadValue:
  assumes "c + LENGTH('a::len) div 8 \<le> length X" and "length X < size_mod"
  shows "ReadValue GrowableMemoryStream_vt e (gms X c) =
    Inr (decode e (take (LENGTH('a) div 8) (drop c X)) :: 'a word, gms X (c + LENGTH('a) div 8))"
proof -
  have "LENGTH('a) div 8 \<le> length X - c" using assms(1) by (simp add: le_diff_conv2)
  then obtain s' where s': "ReadValue GrowableMemoryStream_vt e (gms X c) =
      Inr (decode e (take (LENGTH('a) div 8) (drop c X)) :: 'a word, s')"
      "consumed GrowableMemoryStream_vt gs_data GrowableMemoryStream_ok (LENGTH('a) div 8) (gms X c) s'"
    using gstream.ReadValue_ok [where 'a = 'a, of "gms X c" e] assms by auto
  then show ?thesis using consumed_gms [OF s'(2)] ReadValue_writeCursor [OF s'(1)] by simp
qed

lemma gms_ReadSpan:
  assumes "c + 16 \<le> length X" and "length X < size_mod"
  shows "ReadSpan GrowableMemoryStream_vt (replicate 16 0) Little 16 (gms X c) = Inr (take 16 (drop c X), 16, gms X (c + 16))"
proof -
  have "16 \<le> length X - c" using assms(1) by (simp add: le_diff_conv2)
  then obtain s' where s': "ReadSpan GrowableMemoryStream_vt (replicate 16 0) Little 16 (gms X c) = Inr (take 16 (drop c X), 16, s')"
      "consumed GrowableMemoryStream_vt gs_data GrowableMemoryStream_ok 16 (gms X c) s'"
    using gstream.ReadSpan_single [of "gms X c" "replicate 16 0" Little] assms by (auto simp: native_def)
  then show ?thesis using consumed_gms [OF s'(2)] ReadSpan_writeCursor [OF s'(1)] by simp
qed

section \<open>Archives\<close>

text \<open>An archive of stored chunks whose checksums are given by \<open>check\<close>.\<close>

definition sum_entry :: "(byte list \<Rightarrow> byte list) \<Rightarrow> byte list \<Rightarrow> byte list" where
  "sum_entry check d = be32 (length d + 1) @ be32 (length d) @ check d"

definition sum_header :: "(byte list \<Rightarrow> byte list) \<Rightarrow> byte list list \<Rightarrow> byte list" where
  "sum_header check ds = be32 0x424C5445 @ be32 (12 + 24 * length ds) @ be32 (0x0F000000 + length ds)
     @ concat (map (sum_entry check) ds)"

definition sum_archive :: "(byte list \<Rightarrow> byte list) \<Rightarrow> byte list list \<Rightarrow> byte list" where
  "sum_archive check ds = sum_header check ds @ concat (map stored ds)"

definition sums_ok :: "(byte list \<Rightarrow> byte list) \<Rightarrow> byte list list \<Rightarrow> bool" where
  "sums_ok check ds \<longleftrightarrow> (\<forall>x. length (check x) = 16) \<and> ds \<noteq> [] \<and> length ds < 2 ^ 24 \<and>
     (\<forall>d \<in> set ds. length d + 1 < 2 ^ 32) \<and> length (sum_archive check ds) + 2 ^ 33 < size_mod"

lemma BLTE_encode_sum: "BLTE_encode md5 ds = sum_archive (\<lambda>d. md5 (stored d)) ds"
proof -
  have "table_entry md5 = sum_entry (\<lambda>d. md5 (stored d))" by (rule ext) (simp add: table_entry_def sum_entry_def)
  then show ?thesis by (simp add: BLTE_encode_def BLTE_header_def sum_archive_def sum_header_def)
qed

lemma length_sum_header: "\<forall>x. length (check x) = 16 \<Longrightarrow> length (sum_header check ds) = 12 + 24 * length ds"
proof -
  assume "\<forall>x. length (check x) = 16"
  then have "length (concat (map (sum_entry check) ds)) = 24 * length ds" by (induction ds) (simp_all add: sum_entry_def)
  then show ?thesis by (simp add: sum_header_def)
qed

definition info :: "(byte list \<Rightarrow> byte list) \<Rightarrow> byte list \<Rightarrow> ChunkInfo" where
  "info check d = \<lparr>ci_compressedSize = word_of_nat (length d), ci_decompressedSize = word_of_nat (length d), ci_checksum = check d\<rparr>"

lemma read_chunkInfos_encoded:
  assumes "\<forall>x. length (check x) = 16" and "drop c X = concat (map (sum_entry check) ds) @ tail"
    and "c \<le> length X" and "length X < size_mod"
  shows "\<exists>engine'. read_chunkInfos (length ds) acc engine (gms X c) =
    Inr (acc @ map (info check) ds, engine', gms X (c + 24 * length ds))"
  using assms(2,3)
proof (induction ds arbitrary: c acc engine)
  case (Cons d ds)
  have len: "length (concat (map (sum_entry check) (d # ds)) @ tail) = length X - c"
    using Cons.prems by (metis length_drop)
  then have l: "c + 24 \<le> length X" using assms(1) Cons.prems(2) by (simp add: sum_entry_def)
  have v: "take 4 (drop c X) = be32 (length d + 1)" "take 4 (drop (c + 4) X) = be32 (length d)"
    "take 16 (drop (c + 8) X) = check d" "drop (c + 24) X = concat (map (sum_entry check) ds) @ tail"
  proof -
    have d: "drop (c + k) X = drop k (drop c X)" for k by (simp add: add.commute)
    show "take 4 (drop c X) = be32 (length d + 1)" "take 4 (drop (c + 4) X) = be32 (length d)"
      "take 16 (drop (c + 8) X) = check d" "drop (c + 24) X = concat (map (sum_entry check) ds) @ tail"
      unfolding d Cons.prems(1) using assms(1) by (simp_all add: sum_entry_def)
  qed
  have m1: "(word_of_nat (length d + 1) :: u32) - 1 = word_of_nat (length d)" by simp
  obtain engine' where "read_chunkInfos (length ds) (acc @ [info check d])
      (UpdateData (check d) (UpdateData_int (byteswap (word_of_nat (length d) :: u32))
        (UpdateData_int (byteswap (word_of_nat (length d) :: u32)) engine))) (gms X (c + 24)) =
      Inr ((acc @ [info check d]) @ map (info check) ds, engine', gms X (c + 24 + 24 * length ds))"
    using Cons.IH [OF v(4)] l by blast
  then show ?case
    using l v(1-3) assms(4) m1
    by (simp add: gms_ReadValue gms_ReadSpan info_def Let_def add.assoc)
qed simp

section \<open>The iterations on an archive\<close>

text \<open>The states of the decoder while it reads an archive of which \<open>X\<close> has arrived.\<close>

definition in_header :: "byte list \<Rightarrow> Transform \<Rightarrow> bool" where
  "in_header X t \<longleftrightarrow> tf_step t = Header \<and> tf_ms t = gms X 0"

definition in_chunkHeaders :: "byte list list \<Rightarrow> byte list \<Rightarrow> Transform \<Rightarrow> bool" where
  "in_chunkHeaders ds X t \<longleftrightarrow> tf_step t = ChunkHeaders \<and> tf_ms t = gms X 8 \<and>
     tf_headerSize t = word_of_nat (12 + 24 * length ds)"

definition in_block :: "(byte list \<Rightarrow> byte list) \<Rightarrow> byte list list \<Rightarrow> nat \<Rightarrow> byte list \<Rightarrow> Transform \<Rightarrow> bool" where
  "in_block check ds k X t \<longleftrightarrow> tf_step t = DataBlocks k \<and> tf_chunks t = map (info check) ds \<and>
     tf_ms t = gms X (12 + 24 * length ds + length (concat (map stored (take k ds))))"

lemma prefix_header:
  assumes "prefix X (sum_archive check ds)" and "8 \<le> length X"
  shows "take 4 X = be32 0x424C5445 \<and> take 4 (drop 4 X) = be32 (12 + 24 * length ds)"
  using assms by (auto simp: prefix_def sum_archive_def sum_header_def append_eq_append_conv_if take_append split: if_splits
      dest!: arg_cong [where f = "\<lambda>xs. (take 4 xs, take 4 (drop 4 xs))"])

lemma decode_magic: "decode Little (be32 0x424C5445) = (0x45544C42 :: u32)"
  by (simp add: decode_def native_def be32_magic)

lemma size_words:
  assumes "n < 2 ^ 24"
  shows "unat (word_of_nat (12 + 24 * n) :: u32) = 12 + 24 * n"
    and "drop_bit 24 ((word_of_nat (0x0F000000 + n) :: u32) AND 0xFF000000) = 0xF"
    and "unat ((word_of_nat (0x0F000000 + n) :: u32) AND 0x00FFFFFF) = n"
proof -
  have w: "unat (word_of_nat (0x0F000000 + n) :: u32) = 0x0F000000 + n"
    using assms by (intro unat_size32) simp
  show "unat (word_of_nat (12 + 24 * n) :: u32) = 12 + 24 * n"
    using assms by (intro unat_size32) simp
  have "(0xFF000000 :: u32) = push_bit 24 0xFF" by simp
  then have "drop_bit 24 ((word_of_nat (0x0F000000 + n) :: u32) AND 0xFF000000) =
      drop_bit 24 (word_of_nat (0x0F000000 + n) :: u32) AND 0xFF"
    by (simp add: drop_bit_and)
  moreover have "drop_bit 24 (word_of_nat (0x0F000000 + n) :: u32) = 0xF"
  proof -
    have "unat (drop_bit 24 v) = unat v div 2 ^ 24" for v :: u32
      using unat_less(3) [of v] by (simp only: unsigned_drop_bit_eq) (simp add: drop_bit_eq_div take_bit_nat_eq_self)
    then have "unat (drop_bit 24 (word_of_nat (0x0F000000 + n) :: u32)) = (0x0F000000 + n) div 2 ^ 24" by (simp only: w)
    also have "\<dots> = 15" using assms by (intro div_nat_eqI) simp_all
    finally have "unat (drop_bit 24 (word_of_nat (0x0F000000 + n) :: u32)) = unat (0xF :: u32)" by simp
    then show ?thesis by (simp only: word_unat_eq_iff)
  qed
  ultimately show "drop_bit 24 ((word_of_nat (0x0F000000 + n) :: u32) AND 0xFF000000) = 0xF" by simp
  have m: "(0x00FFFFFF :: u32) = mask 24" by (simp add: mask_eq_exp_minus_1)
  have "(0x0F000000 + n) mod 2 ^ 24 = n" using assms mod_mult_self3 [of 15 "2 ^ 24" n] by simp
  then have "take_bit 24 (unat (word_of_nat (0x0F000000 + n) :: u32)) = n" by (simp only: w take_bit_eq_mod)
  then show "unat ((word_of_nat (0x0F000000 + n) :: u32) AND 0x00FFFFFF) = n"
    unfolding m by (simp only: unsigned_take_bit_eq flip: take_bit_eq_mask)
qed

lemma header_more:
  assumes "sums_ok check ds" and "prefix X (sum_archive check ds)" and "in_header X t" and "8 \<le> length X"
  shows "\<exists>t'. parse_header t ec = Inr (True, t', ec) \<and> in_chunkHeaders ds X t' \<and> tf_output t' = tf_output t"
proof -
  have len: "length X + 2 ^ 33 < size_mod"
    using assms(1) prefix_length_le [OF assms(2)] by (simp add: sums_ok_def)
  show ?thesis
    using assms(3,4) prefix_header [OF assms(2,4)] len
    by (simp add: parse_header_def in_header_def in_chunkHeaders_def gms_CanRead gms_ReadValue decode_magic Let_def)
qed

lemma chunkHeaders_more:
  assumes "sums_ok check ds" and "prefix X (sum_archive check ds)" and "in_chunkHeaders ds X t"
    and "20 + 24 * length ds \<le> length X"
  shows "\<exists>t'. parse_chunkHeaders md5 t ec = Inr (True, t', ec) \<and> in_block check ds 0 X t' \<and> tf_output t' = tf_output t"
proof -
  let ?n = "length ds"
  have ok: "\<forall>x. length (check x) = 16" "?n < 2 ^ 24" "ds \<noteq> []" "length X + 2 ^ 33 < size_mod"
    using assms(1) prefix_length_le [OF assms(2)] by (simp_all add: sums_ok_def)
  have "length (sum_header check ds) \<le> length X" using assms(4) ok(1) by (simp add: length_sum_header)
  moreover have "prefix (sum_header check ds) (sum_archive check ds)" by (simp add: sum_archive_def)
  ultimately have "prefix (sum_header check ds) X" using prefix_length_prefix assms(2) by blast
  then obtain Y where X: "X = sum_header check ds @ Y" by (auto simp: prefix_def)
  have d: "take 4 (drop 8 X) = be32 (0x0F000000 + ?n)"
    "drop 12 X = concat (map (sum_entry check) ds) @ Y"
    by (simp_all add: X sum_header_def)
  have "chunkCount \<noteq> 0" if "unat chunkCount = ?n" for chunkCount :: u32
    using that ok(3) by auto
  then have nz: "(word_of_nat (0x0F000000 + ?n) :: u32) AND 0x00FFFFFF \<noteq> 0" using size_words(3) [OF ok(2)] by blast
  obtain engine' where "read_chunkInfos ?n [] (UpdateData_int (byteswap (word_of_nat (0x0F000000 + ?n) :: u32)) (tf_engine t)) (gms X 12) =
      Inr ([] @ map (info check) ds, engine', gms X (12 + 24 * ?n))"
    using read_chunkInfos_encoded [OF ok(1) d(2), of "[]"] assms(4) ok(4) by fastforce
  then show ?thesis
    using assms(3,4) ok(2,4) d(1) nz size_words [OF ok(2)]
    by (simp add: parse_chunkHeaders_def in_chunkHeaders_def in_block_def gms_CanRead gms_ReadValue Let_def)
qed

lemma archive_split:
  assumes "prefix X (sum_archive check ds)" and "\<forall>x. length (check x) = 16" and "k < length ds"
    and "12 + 24 * length ds + length (concat (map stored (take k ds))) + n \<le> length X" and "n \<le> length (ds ! k) + 1"
  shows "take n (drop (12 + 24 * length ds + length (concat (map stored (take k ds)))) X) = take n (stored (ds ! k))"
proof -
  let ?pre = "sum_header check ds @ concat (map stored (take k ds))"
  have "ds = take k ds @ ds ! k # drop (Suc k) ds" using assms(3) by (rule id_take_nth_drop)
  then have "sum_archive check ds = ?pre @ stored (ds ! k) @ concat (map stored (drop (Suc k) ds))"
    by (metis append.assoc concat.simps(2) concat_append list.simps(9) map_append sum_archive_def)
  moreover obtain Z where "sum_archive check ds = X @ Z" using assms(1) by (auto simp: prefix_def)
  ultimately have e: "X @ Z = ?pre @ stored (ds ! k) @ concat (map stored (drop (Suc k) ds))" by simp
  have l: "length ?pre = 12 + 24 * length ds + length (concat (map stored (take k ds)))"
    using assms(2) by (simp add: length_sum_header)
  have "drop (length ?pre) (X @ Z) = stored (ds ! k) @ concat (map stored (drop (Suc k) ds))" unfolding e by simp
  then have "take n (drop (length ?pre) (X @ Z)) = take n (stored (ds ! k))" using assms(5) by simp
  moreover have "take n (drop (length ?pre) (X @ Z)) = take n (drop (length ?pre) X)"
    using assms(4) unfolding l [symmetric] by simp
  ultimately have "take n (drop (length ?pre) X) = take n (stored (ds ! k))" by simp
  then show ?thesis unfolding l .
qed

lemma block_size:
  assumes "sums_ok check ds" and "k < length ds"
  shows "unat (ci_compressedSize (map (info check) ds ! k)) = length (ds ! k)" and "length (ds ! k) < 2 ^ 32"
proof -
  have "length (ds ! k) + 1 < 2 ^ 32" using assms by (auto simp: sums_ok_def)
  then show "unat (ci_compressedSize (map (info check) ds ! k)) = length (ds ! k)" "length (ds ! k) < 2 ^ 32"
    using assms(2) by (simp_all add: info_def unat_size32)
qed

lemma block_wait:
  assumes "sums_ok check ds" and "in_block check ds k X t" and "k < length ds" and "length X + 2 ^ 33 < size_mod"
    and "12 + 24 * length ds + length (concat (map stored (take k ds))) \<le> length X"
    and "length X < 12 + 24 * length ds + length (concat (map stored (take k ds))) + length (ds ! k)"
  shows "parse_block nested md5 z zfuel k t ec = Inr (False, t, ec)"
  using assms(2-6) block_size [OF assms(1,3)]
  by (simp add: parse_block_def in_block_def Let_def gms_CanRead)

lemma block_reject:
  assumes "sums_ok check ds" and "prefix X (sum_archive check ds)" and "in_block check ds k X t" and "k < length ds"
    and "12 + 24 * length ds + length (concat (map stored (take k ds))) + length (ds ! k) \<le> length X"
    and "md5 (butlast (stored (ds ! k))) \<noteq> check (ds ! k)"
  shows "parse_block nested md5 z zfuel k t ec = Inr (False, t, Some body_limit)"
proof -
  have ok: "\<forall>x. length (check x) = 16" "length X + 2 ^ 33 < size_mod"
    using assms(1) prefix_length_le [OF assms(2)] by (simp_all add: sums_ok_def)
  have "take (length (ds ! k)) (stored (ds ! k)) = butlast (stored (ds ! k))" by (simp add: butlast_conv_take)
  then show ?thesis
    using assms(3-6) ok block_size [OF assms(1,4)] archive_split [OF assms(2) ok(1) assms(4), of "length (ds ! k)"]
    by (simp add: parse_block_def in_block_def Let_def gms_CanRead gms_Data slice_def info_def)
qed

lemma block_accept:
  assumes "sums_ok check ds" and "prefix X (sum_archive check ds)" and "in_block check ds k X t" and "k < length ds"
    and "12 + 24 * length ds + length (concat (map stored (take k ds))) + length (ds ! k) + 1 \<le> length X"
    and "md5 (butlast (stored (ds ! k))) = check (ds ! k)"
  shows "\<exists>t'. parse_block nested md5 z zfuel k t ec = Inr (True, t', ec) \<and> in_block check ds (Suc k) X t' \<and>
    tf_output t' = tf_output t @ [ds ! k]"
proof -
  let ?c = "12 + 24 * length ds + length (concat (map stored (take k ds)))" and ?d = "ds ! k"
  have ok: "\<forall>x. length (check x) = 16" "length X + 2 ^ 33 < size_mod"
    using assms(1) prefix_length_le [OF assms(2)] by (simp_all add: sums_ok_def)
  have "take (length ?d) (stored ?d) = butlast (stored ?d)" by (simp add: butlast_conv_take)
  then have chunk: "take (length ?d) (drop ?c X) = butlast (stored ?d)"
    using archive_split [OF assms(2) ok(1) assms(4), of "length ?d"] assms(5) by simp
  have whole: "take (length ?d + 1) (drop ?c X) = stored ?d"
    using archive_split [OF assms(2) ok(1) assms(4), of "length ?d + 1"] assms(5) by (simp add: take_all)
  then have d: "take 1 (drop ?c X) = [0x4E]" "take (length ?d) (drop (?c + 1) X) = ?d"
  proof -
    have "take 1 (drop ?c X) = take 1 (take (length ?d + 1) (drop ?c X))" by (simp add: min_def)
    then show "take 1 (drop ?c X) = [0x4E]" unfolding whole by (simp add: stored_def)
    have "take (length ?d) (drop (?c + 1) X) = drop 1 (take (length ?d + 1) (drop ?c X))"
      by (simp add: drop_take add.commute)
    then show "take (length ?d) (drop (?c + 1) X) = ?d" unfolding whole by (simp add: stored_def)
  qed
  have next_c: "12 + 24 * length ds + length (concat (map stored (take (Suc k) ds))) = ?c + 1 + length ?d"
    using assms(4) by (simp add: take_Suc_conv_app_nth)
  have mode: "ReadValue GrowableMemoryStream_vt Big (gms X ?c) = Inr (0x4E :: byte, gms X (?c + 1))"
    using gms_ReadValue [where 'a = 8, of ?c X Big] d(1) assms(5) ok(2) by (simp add: decode_def native_def)
  show ?thesis
    using assms(3-6) ok block_size [OF assms(1,4)] chunk mode d(2) next_c
    by (simp add: parse_block_def in_block_def Let_def gms_CanRead gms_Data gms_SkipRead slice_def info_def)
qed

text \<open>What a call of \<^verbatim>\<open>Parse\<close> does while the archive arrives and no block has been delivered.\<close>

definition waits :: "(byte list \<Rightarrow> byte list) \<Rightarrow> byte list list \<Rightarrow> byte list \<Rightarrow> Transform \<Rightarrow> bool" where
  "waits check ds X t \<longleftrightarrow> tf_output t = [] \<and>
     (in_header X t \<and> length X < 8 \<or>
      in_chunkHeaders ds X t \<and> 8 \<le> length X \<and> length X < 20 + 24 * length ds \<or>
      in_block check ds 0 X t \<and> 20 + 24 * length ds \<le> length X \<and> length X < 12 + 24 * length ds + length (hd ds))"

text \<open>The state in which the digest of the next block is wrong.\<close>

definition rejected :: "digest \<Rightarrow> Transform \<Rightarrow> bool" where
  "rejected md5 t \<longleftrightarrow> (\<exists>X c k. tf_ms t = gms X c \<and> tf_step t = DataBlocks k \<and> k < length (tf_chunks t) \<and>
     c + unat (ci_compressedSize (tf_chunks t ! k)) \<le> length X \<and>
     md5 (take (unat (ci_compressedSize (tf_chunks t ! k))) (drop c X)) \<noteq> ci_checksum (tf_chunks t ! k))"

definition waits_or_rejects where
  "waits_or_rejects md5 check ds X r \<longleftrightarrow> (\<exists>t. r = Inr (t, Some body_limit) \<and> tf_output t = [] \<and> rejected md5 t \<and> gs_data (tf_ms t) = X \<or>
     r = Inr (t, None) \<and> waits check ds X t)"

definition mismatch :: "digest \<Rightarrow> (byte list \<Rightarrow> byte list) \<Rightarrow> byte list \<Rightarrow> bool" where
  "mismatch md5 check d \<longleftrightarrow> md5 (butlast (stored d)) \<noteq> check d"

lemma loop_block:
  assumes "sums_ok check ds" and "prefix X (sum_archive check ds)" and "in_block check ds 0 X t" and "tf_output t = []"
    and "20 + 24 * length ds \<le> length X" and "mismatch md5 check (hd ds)" and "0 < fuel"
  shows "waits_or_rejects md5 check ds X (parse_loop fuel md5 z zfuel t None)"
proof -
  obtain f where f: "fuel = Suc f" using assms(7) by (cases fuel) auto
  have ds: "0 < length ds" "hd ds = ds ! 0" using assms(1) by (auto simp: sums_ok_def hd_conv_nth)
  have len: "length X + 2 ^ 33 < size_mod"
    using assms(1) prefix_length_le [OF assms(2)] by (simp add: sums_ok_def)
  have step: "tf_step t = DataBlocks 0" using assms(3) by (simp add: in_block_def)
  show ?thesis
  proof (cases "12 + 24 * length ds + length (ds ! 0) \<le> length X")
    case True
    then have "parse_block nested md5 z zfuel 0 t None = Inr (False, t, Some body_limit)" for nested
      using assms(6) ds unfolding mismatch_def by (intro block_reject [OF assms(1-3) ds(1)]) simp_all
    moreover have "rejected md5 t"
      using True assms(3,6) ds block_size [OF assms(1) ds(1)]
        archive_split [OF assms(2) _ ds(1), of "length (ds ! 0)"] assms(1)
      unfolding rejected_def mismatch_def sums_ok_def in_block_def by (simp add: butlast_conv_take info_def) fastforce
    moreover have "gs_data (tf_ms t) = X" using assms(3) by (simp add: in_block_def)
    ultimately show ?thesis using assms(4) step by (auto simp: f waits_or_rejects_def)
  next
    case False
    then have "parse_block nested md5 z zfuel 0 t None = Inr (False, t, None)" for nested
      using assms(5) by (intro block_wait [OF assms(1,3) ds(1) len]) simp_all
    then show ?thesis using False assms(3-5) step ds(2) by (auto simp: f waits_or_rejects_def waits_def)
  qed
qed

lemma loop_chunkHeaders:
  assumes "sums_ok check ds" and "prefix X (sum_archive check ds)" and "in_chunkHeaders ds X t" and "tf_output t = []"
    and "8 \<le> length X" and "mismatch md5 check (hd ds)" and "1 < fuel"
  shows "waits_or_rejects md5 check ds X (parse_loop fuel md5 z zfuel t None)"
proof -
  obtain f where f: "fuel = Suc f" "0 < f" using assms(7) by (cases fuel) auto
  have len: "length X + 2 ^ 33 < size_mod" and n: "length ds < 2 ^ 24"
    using assms(1) prefix_length_le [OF assms(2)] by (simp_all add: sums_ok_def)
  have step: "tf_step t = ChunkHeaders" using assms(3) by (simp add: in_chunkHeaders_def)
  show ?thesis
  proof (cases "20 + 24 * length ds \<le> length X")
    case True
    obtain t' where t': "parse_chunkHeaders md5 t None = Inr (True, t', None)" "in_block check ds 0 X t'" "tf_output t' = []"
      using chunkHeaders_more [OF assms(1-3) True, of md5 None] assms(4) by auto
    then show ?thesis
      using loop_block [OF assms(1,2) t'(2,3) True assms(6) f(2), of z zfuel] step by (simp add: f)
  next
    case False
    then have "parse_chunkHeaders md5 t None = Inr (False, t, None)"
      using assms(3) len size_words(1) [OF n] n by (simp add: parse_chunkHeaders_def in_chunkHeaders_def gms_CanRead)
    then show ?thesis using False assms(3-5) step by (auto simp: f waits_or_rejects_def waits_def)
  qed
qed

lemma loop_header:
  assumes "sums_ok check ds" and "prefix X (sum_archive check ds)" and "in_header X t" and "tf_output t = []"
    and "mismatch md5 check (hd ds)" and "2 < fuel"
  shows "waits_or_rejects md5 check ds X (parse_loop fuel md5 z zfuel t None)"
proof -
  obtain f where f: "fuel = Suc f" "1 < f" using assms(6) by (cases fuel) auto
  have len: "length X + 2 ^ 33 < size_mod"
    using assms(1) prefix_length_le [OF assms(2)] by (simp add: sums_ok_def)
  have step: "tf_step t = Header" using assms(3) by (simp add: in_header_def)
  show ?thesis
  proof (cases "8 \<le> length X")
    case True
    obtain t' where t': "parse_header t None = Inr (True, t', None)" "in_chunkHeaders ds X t'" "tf_output t' = []"
      using header_more [OF assms(1-3) True, of None] assms(4) by auto
    then show ?thesis
      using loop_chunkHeaders [OF assms(1,2) t'(2,3) True assms(5) f(2), of z zfuel] step by (simp add: f)
  next
    case False
    then have "parse_header t None = Inr (False, t, None)"
      using assms(3) len by (simp add: parse_header_def in_header_def gms_CanRead)
    then show ?thesis using False assms(3,4) step by (auto simp: f waits_or_rejects_def waits_def)
  qed
qed

lemma Parse_gms:
  assumes "tf_ms t = gms X c" and "length X + length data < size_mod"
  shows "Parse md5 z data t ec = parse_loop (length X + length data + 3) md5 z (length X + length data)
    (t\<lparr>tf_ms := gms (X @ data) c, tf_feedback := tf_feedback t @ [length data]\<rparr>) ec"
  using assms(2) by (simp only: Parse_def Parse_with_def assms(1) gms_Write Let_def gms_simps bindr_Inr case_prod_conv)

lemma Parse_waits:
  assumes "sums_ok check ds" and "prefix (X @ p) (sum_archive check ds)" and "waits check ds X t"
    and "mismatch md5 check (hd ds)"
  shows "waits_or_rejects md5 check ds (X @ p) (Parse md5 z p t None)"
proof -
  have len: "length X + length p < size_mod"
    using assms(1) prefix_length_le [OF assms(2)] by (simp add: sums_ok_def)
  obtain c where c: "tf_ms t = gms X c" using assms(3) by (auto simp: waits_def in_header_def in_chunkHeaders_def in_block_def)
  let ?t = "t\<lparr>tf_ms := gms (X @ p) c, tf_feedback := tf_feedback t @ [length p]\<rparr>"
  let ?n = "length X + length p"
  note P = Parse_gms [OF c len, of md5 z None]
  have out: "tf_output ?t = []" using assms(3) by (simp add: waits_def)
  consider "in_header (X @ p) ?t" | "in_chunkHeaders ds (X @ p) ?t" "8 \<le> length (X @ p)"
    | "in_block check ds 0 (X @ p) ?t" "20 + 24 * length ds \<le> length (X @ p)"
    using assms(3) c by (fastforce simp: waits_def in_header_def in_chunkHeaders_def in_block_def gms_def)
  then show ?thesis
  proof cases
    case 1
    show ?thesis unfolding P by (rule loop_header [OF assms(1,2) 1 out assms(4)]) simp
  next
    case 2
    show ?thesis unfolding P by (rule loop_chunkHeaders [OF assms(1,2) 2(1) out 2(2) assms(4)]) simp
  next
    case 3
    show ?thesis unfolding P by (rule loop_block [OF assms(1,2) 3(1) out 3(2) assms(4)]) simp
  qed
qed

lemma put_all_waits:
  assumes "sums_ok check ds" and "mismatch md5 check (hd ds)" and "8 \<le> length (concat (map stored ds))"
    and "X @ concat pieces = sum_archive check ds" and "waits check ds X t"
  shows "\<exists>t'. put_all md5 z pieces t = Inr (t', Some body_limit) \<and> tf_output t' = [] \<and> rejected md5 t' \<and>
    prefix (gs_data (tf_ms t')) (sum_archive check ds)"
  using assms(4,5)
proof (induction pieces arbitrary: X t)
  case Nil
  have "length X = 12 + 24 * length ds + length (concat (map stored ds))"
    using Nil.prems(1) assms(1) length_sum_header [of check ds] by (simp add: sum_archive_def sums_ok_def)
  moreover obtain d ds' where "ds = d # ds'" using assms(1) by (cases ds) (auto simp: sums_ok_def)
  ultimately show ?case using Nil.prems(2) assms(3) by (auto simp: waits_def)
next
  case (Cons p pieces)
  have prefix: "prefix (X @ p) (sum_archive check ds)" using Cons.prems(1) by (metis append.assoc concat.simps(2) prefixI)
  from Parse_waits [OF assms(1) this Cons.prems(2) assms(2), of z] show ?case
    using Cons.IH [of "X @ p"] Cons.prems(1) prefix by (auto simp: waits_or_rejects_def)
qed

text \<open>From then on every call ends with the error, whatever it brings.\<close>

lemma Parse_rejected:
  assumes "rejected md5 t" and "length (gs_data (tf_ms t)) + length data + 2 ^ 32 < size_mod"
  shows "\<exists>t'. Parse md5 z data t ec = Inr (t', Some body_limit) \<and> rejected md5 t' \<and> tf_output t' = tf_output t \<and>
    gs_data (tf_ms t') = gs_data (tf_ms t) @ data"
proof -
  obtain X c k where t: "tf_ms t = gms X c" "tf_step t = DataBlocks k" "k < length (tf_chunks t)"
      "c + unat (ci_compressedSize (tf_chunks t ! k)) \<le> length X"
      "md5 (take (unat (ci_compressedSize (tf_chunks t ! k))) (drop c X)) \<noteq> ci_checksum (tf_chunks t ! k)"
    using assms(1) by (auto simp: rejected_def)
  let ?n = "unat (ci_compressedSize (tf_chunks t ! k))"
  let ?t = "t\<lparr>tf_ms := gms (X @ data) c, tf_feedback := tf_feedback t @ [length data]\<rparr>"
  have len: "length X + length data + 2 ^ 32 < size_mod" using assms(2) t(1) by simp
  then have P: "Parse md5 z data t ec = parse_loop (length X + length data + 3) md5 z (length X + length data) ?t ec"
    by (intro Parse_gms [OF t(1)]) simp
  have can: "GrowableMemoryStream_CanRead ?n (gms (X @ data) c)"
    using t(4) len by (subst gms_CanRead) simp_all
  have chunk: "take ?n (drop c (X @ data)) = take ?n (drop c X)" using t(4) by simp
  have "parse_block nested md5 z zfuel k ?t ec = Inr (False, ?t, Some body_limit)" for nested zfuel
    using t(3-5) can chunk by (simp add: parse_block_def Let_def gms_Data slice_def del: drop_append take_append)
  then have "Parse md5 z data t ec = Inr (?t, Some body_limit)"
    unfolding P using t(2) by (simp add: numeral_3_eq_3)
  moreover have "rejected md5 ?t" unfolding rejected_def using t chunk
    by (intro exI [of _ "X @ data"] exI [of _ c] exI [of _ k]) simp
  ultimately show ?thesis using t(1) by simp
qed

lemma loop_accept:
  assumes "sums_ok check ds" and "\<forall>d \<in> set ds. check d = md5 (butlast (stored d))"
    and "in_block check ds k (sum_archive check ds) t" and "k \<le> length ds" and "length ds - k < fuel"
  shows "\<exists>t'. parse_loop fuel md5 z zfuel t ec = Inr (t', ec) \<and> tf_output t' = tf_output t @ drop k ds"
  using assms(3-5)
proof (induction "length ds - k" arbitrary: k t fuel)
  case 0
  then obtain f where f: "fuel = Suc f" by (cases fuel) auto
  have "tf_step t = DataBlocks k" "length (tf_chunks t) \<le> k" using 0 by (auto simp: in_block_def)
  then show ?case using 0 by (simp add: f parse_block_def)
next
  case (Suc m)
  then obtain f where f: "fuel = Suc f" "length ds - Suc k < f" by (cases fuel) auto
  have k: "k < length ds" using Suc.hyps(2) by simp
  let ?nested = "\<lambda>block out ec. bindr (Parse_with (parse_loop f md5 z zfuel) block (Transform_new\<lparr>tf_output := out\<rparr>) ec)
    (\<lambda>(nestedReader, ec). Inr (tf_output nestedReader, ec))"
  from k have split: "ds = take k ds @ ds ! k # drop (Suc k) ds" by (rule id_take_nth_drop)
  have "length (concat (map stored ds)) = length (concat (map stored (take k ds))) + (length (ds ! k) + 1) +
      length (concat (map stored (drop (Suc k) ds)))"
    by (subst split) simp
  then have "12 + 24 * length ds + length (concat (map stored (take k ds))) + length (ds ! k) + 1 \<le> length (sum_archive check ds)"
    using assms(1) length_sum_header [of check ds] by (simp add: sum_archive_def sums_ok_def)
  moreover have "md5 (butlast (stored (ds ! k))) = check (ds ! k)" using assms(2) k by simp
  ultimately obtain t' where t': "parse_block ?nested md5 z zfuel k t ec = Inr (True, t', ec)"
      "in_block check ds (Suc k) (sum_archive check ds) t'" "tf_output t' = tf_output t @ [ds ! k]"
    using block_accept [where nested = ?nested and z = z and zfuel = zfuel and ec = ec,
      OF assms(1) prefix_order.refl Suc.prems(1) k, of md5] by blast
  have "tf_step t = DataBlocks k" using Suc.prems(1) by (simp add: in_block_def)
  then show ?case
    using Suc.hyps(1) [of "Suc k" t' f] Suc.hyps(2) t' f k by (simp add: f Cons_nth_drop_Suc)
qed

text \<open>The feedback is given once per call, before the loop.\<close>

lemma step_feedback:
  "parse_header t ec = Inr (b, t', ec') \<Longrightarrow> tf_feedback t' = tf_feedback t"
  "parse_chunkHeaders md5 t ec = Inr (b, t', ec') \<Longrightarrow> tf_feedback t' = tf_feedback t"
  "parse_block nested md5 z zfuel k t ec = Inr (b, t', ec') \<Longrightarrow> tf_feedback t' = tf_feedback t"
  by (auto simp: parse_header_def parse_chunkHeaders_def parse_block_def Let_def elim!: bindr_InrE split: if_splits prod.splits)

lemma loop_feedback: "parse_loop fuel md5 z zfuel t ec = Inr (t', ec') \<Longrightarrow> tf_feedback t' = tf_feedback t"
proof (induction fuel arbitrary: t ec)
  case (Suc fuel)
  then show ?case
    by (auto elim!: bindr_InrE split: Step.splits if_splits dest!: Suc.IH step_feedback)
qed simp

lemma put_all_accepts:
  assumes "sums_ok (\<lambda>d. md5 (butlast (stored d))) ds" and "8 \<le> length (concat (map stored ds))"
  shows "\<exists>t. put_all md5 z [sum_archive (\<lambda>d. md5 (butlast (stored d))) ds] Transform_new = Inr (t, None) \<and> tf_output t = ds \<and>
    tf_feedback t = [length (sum_archive (\<lambda>d. md5 (butlast (stored d))) ds)]"
proof -
  let ?check = "\<lambda>d. md5 (butlast (stored d))"
  let ?X = "sum_archive ?check ds"
  have ok: "\<forall>x. length (?check x) = 16" "ds \<noteq> []" "length ?X < size_mod" using assms(1) by (simp_all add: sums_ok_def)
  have len: "12 + 24 * length ds + length (concat (map stored ds)) = length ?X"
    unfolding sum_archive_def by (simp add: length_sum_header [OF ok(1)])
  obtain d ds' where "ds = d # ds'" using ok(2) by (cases ds) auto
  then have n: "1 \<le> length ds" by simp
  obtain f where f: "length ?X + 3 = Suc (Suc f)" "length ds < f" using len n by (cases "length ?X + 1") auto
  let ?t = "Transform_new\<lparr>tf_ms := gms ?X 0, tf_feedback := [length ?X]\<rparr>"
  have P: "Parse md5 z ?X Transform_new None = parse_loop (Suc (Suc f)) md5 z (length ?X) ?t None"
    unfolding f(1) [symmetric] using ok(3) Parse_gms [of Transform_new "[]" 0 ?X md5 z None]
    by (simp add: Transform_new_def GrowableMemoryStream_new_def gms_def del: parse_loop.simps)
  have "in_header ?X ?t" "tf_output ?t = []" by (simp_all add: in_header_def Transform_new_def)
  then obtain t1 where t1: "parse_header ?t None = Inr (True, t1, None)" "in_chunkHeaders ds ?X t1" "tf_output t1 = []"
    using header_more [OF assms(1) prefix_order.refl, of ?t None] len by auto
  have "20 + 24 * length ds \<le> length ?X" using len assms(2) by simp
  then obtain t2 where t2: "parse_chunkHeaders md5 t1 None = Inr (True, t2, None)" "in_block ?check ds 0 ?X t2" "tf_output t2 = []"
    using chunkHeaders_more [OF assms(1) prefix_order.refl t1(2), of md5 None] t1(3) by auto
  obtain t3 where t3: "parse_loop f md5 z (length ?X) t2 None = Inr (t3, None)" "tf_output t3 = ds"
    using loop_accept [OF assms(1) _ t2(2), of md5 f z "length ?X" None] f(2) t2(3) by auto
  have "tf_step ?t = Header" "tf_step t1 = ChunkHeaders"
    using t1(2) by (simp_all add: in_chunkHeaders_def Transform_new_def)
  then have loop: "parse_loop (Suc (Suc f)) md5 z (length ?X) ?t None = Inr (t3, None)" using t1(1) t2(1) t3(1) by simp
  then have "tf_feedback t3 = [length ?X]" using loop_feedback by fastforce
  then show ?thesis using P loop t3(2) by (simp del: parse_loop.simps)
qed

section \<open>The loop ends\<close>

lemma reverse_elements_outcome:
  "0 < k \<Longrightarrow> reverse_elements k f l buf = Inl OutOfBounds \<or> (\<exists>buf'. reverse_elements k f l buf = Inr buf')"
proof (induction k f l buf rule: reverse_elements.induct)
  case (1 k f l buf)
  then show ?case by (subst (1 2) reverse_elements.simps) auto
qed

lemma gms_inject [simp]: "gms X c = gms X d \<longleftrightarrow> c = d"
  by (simp add: gms_def)

lemma gms_seek: "(gms X c)\<lparr>gs_readCursor := d\<rparr> = gms X d"
  by (simp add: gms_def)

lemma gms_ReadImpl:
  assumes "c \<le> length X" and "length X < size_mod"
  shows "GrowableMemoryStream_ReadImpl buf (gms X c) = (let n = min (length buf) (length X - c) in
    Inr (take n (drop c X) @ drop n buf, n, gms X (c + n)))"
proof -
  have "sub_sz (length X) c = length X - c" using assms by (simp add: sub_sz_small)
  moreover have "add_sz c (min (length buf) (length X - c)) = c + min (length buf) (length X - c)"
    using assms by (simp add: add_sz_def)
  ultimately show ?thesis
    using assms(1) by (simp add: GrowableMemoryStream_ReadImpl_def gms_Data Let_def slice_def gms_seek)
qed

text \<open>A read at any place: nothing is consumed only if nothing is left, and then the value is zero.\<close>

abbreviation read_post :: "byte list \<Rightarrow> nat \<Rightarrow> ('a::len) word \<times> GrowableMemoryStream \<Rightarrow> bool" where
  "read_post X c \<equiv> \<lambda>(v, s). \<exists>c'. s = gms X c' \<and> c \<le> c' \<and> c' \<le> length X \<and> (c' = c \<longrightarrow> v = 0)"

lemma ReadValue_outcome:
  assumes "c \<le> length X" and "length X < size_mod" and "8 \<le> LENGTH('a)" and "8 dvd LENGTH('a)"
  shows "outcome (read_post X c) (ReadValue GrowableMemoryStream_vt e (gms X c) :: ('a::len word \<times> _) result)"
proof -
  let ?b = "bytes_of (0 :: 'a word)" and ?k = "LENGTH('a) div 8"
  let ?n = "min (length ?b) (length X - c)"
  let ?buf = "take ?n (drop c X) @ drop ?n ?b"
  have k: "0 < ?k" using assms(3) by (simp add: div_greater_zero_iff)
  have n: "c + ?n \<le> length X" using assms(1) by simp
  have zero: "?n = 0 \<Longrightarrow> ?buf = ?b" by (simp add: min_def split: if_splits)
  have R: "(ReadValue GrowableMemoryStream_vt e (gms X c) :: ('a word \<times> _) result) =
      bindr (if e \<noteq> native then reverse_elements ?k 0 ?n ?buf else Inr ?buf) (\<lambda>buf. Inr (word_of buf, gms X (c + ?n)))"
    using assms(1,2)
    by (cases "reverse_elements ?k 0 ?n ?buf") (simp_all add: ReadValue_def Read_def ReadSpan_def gms_ReadImpl Let_def)
  have "outcome (\<lambda>buf. ?n = 0 \<longrightarrow> buf = ?b) (if e \<noteq> native then reverse_elements ?k 0 ?n ?buf else Inr ?buf)"
    using reverse_elements_outcome [OF k, of 0 ?n ?buf] zero
    by (cases "?n = 0") (auto simp: reverse_elements.simps [of ?k 0 0])
  then show ?thesis unfolding R
  proof (rule outcome_bind)
    fix buf
    assume "?n = 0 \<longrightarrow> buf = ?b"
    then have "?n = 0 \<Longrightarrow> (word_of buf :: 'a word) = 0" using word_of_bytes_of [OF assms(4), of 0] by metis
    with n show "outcome (read_post X c) (Inr (word_of buf :: 'a word, gms X (c + ?n)))"
      by auto
  qed
qed

lemma ReadSpan_outcome:
  assumes "c \<le> length X" and "length X < size_mod"
  shows "outcome (\<lambda>(x, n, s). \<exists>c'. s = gms X c' \<and> c \<le> c' \<and> c' \<le> length X) (ReadSpan GrowableMemoryStream_vt buf Little k (gms X c))"
  using assms by (auto simp: ReadSpan_def native_def gms_ReadImpl Let_def)

lemma outcome_Read:
  assumes "c \<le> length X" and "length X < size_mod"
    and "\<And>v c'. c \<le> c' \<Longrightarrow> c' \<le> length X \<Longrightarrow> (c' = c \<longrightarrow> v = 0) \<Longrightarrow> outcome Q (f (v, gms X c'))"
  shows "8 \<le> LENGTH('a) \<Longrightarrow> 8 dvd LENGTH('a) \<Longrightarrow>
    outcome Q (bindr (ReadValue GrowableMemoryStream_vt e (gms X c)) (f :: 'a::len word \<times> _ \<Rightarrow> _))"
  by (rule outcome_bind [OF ReadValue_outcome [OF assms(1,2)]]) (auto intro: assms(3))

lemma outcome_ReadSpan:
  assumes "c \<le> length X" and "length X < size_mod"
    and "\<And>x n c'. c \<le> c' \<Longrightarrow> c' \<le> length X \<Longrightarrow> outcome Q (f (x, n, gms X c'))"
  shows "outcome Q (bindr (ReadSpan GrowableMemoryStream_vt buf Little k (gms X c)) f)"
  by (rule outcome_bind [OF ReadSpan_outcome [OF assms(1,2)]]) (auto intro: assms(3))

lemma outcome_Read32:
  assumes "c \<le> length X" and "length X < size_mod"
    and "\<And>v c'. c \<le> c' \<Longrightarrow> c' \<le> length X \<Longrightarrow> (c' = c \<longrightarrow> v = 0) \<Longrightarrow> outcome Q (f (v, gms X c'))"
  shows "outcome Q (bindr (ReadValue GrowableMemoryStream_vt e (gms X c)) (f :: u32 \<times> _ \<Rightarrow> _))"
  by (rule outcome_Read [OF assms(1,2)]) (simp_all add: assms(3))

text \<open>What an iteration that starts at \<open>c\<close> may do: one after which the loop goes on has consumed something.\<close>

abbreviation step_post :: "byte list \<Rightarrow> nat \<Rightarrow> bool \<times> Transform \<times> http_error option \<Rightarrow> bool" where
  "step_post X c \<equiv> \<lambda>(continue, t, ec). \<exists>c'. tf_ms t = gms X c' \<and> c \<le> c' \<and> c' \<le> length X \<and> (continue \<longrightarrow> c < c')"

lemma step_postI:
  "tf_ms t = gms X c' \<Longrightarrow> c \<le> c' \<Longrightarrow> c' \<le> length X \<Longrightarrow> (b \<Longrightarrow> c < c') \<Longrightarrow> outcome (step_post X c) (Inr (b, t, ec))"
  by auto

lemma read_chunkInfos_outcome:
  "c \<le> length X \<Longrightarrow> length X < size_mod \<Longrightarrow>
    outcome (\<lambda>(chunks, engine, ms). \<exists>c'. ms = gms X c' \<and> c \<le> c' \<and> c' \<le> length X)
      (read_chunkInfos n chunks engine (gms X c))"
proof (induction n arbitrary: chunks engine c)
  case (Suc n)
  note X = Suc.prems(2)
  have "outcome (\<lambda>(chunks, engine, ms). \<exists>c'. ms = gms X c' \<and> c \<le> c' \<and> c' \<le> length X)
      (read_chunkInfos n chunks engine (gms X d))" if "c \<le> d" "d \<le> length X" for chunks engine d
    using Suc.IH [OF that(2) X] by (rule outcome_mono) (use that in auto)
  then show ?case
    unfolding read_chunkInfos.simps Let_def
    using Suc.prems(1) by (auto intro!: outcome_Read32 [OF _ X] outcome_ReadSpan [OF _ X])
qed auto

lemma parse_header_outcome:
  assumes "tf_ms t = gms X c" and "c \<le> length X" and X: "length X < size_mod"
  shows "outcome (step_post X c) (parse_header t ec)"
  unfolding parse_header_def assms(1) Let_def
  using assms(2) by (auto intro!: outcome_Read32 [OF _ X] simp: assms(1))

lemma parse_chunkHeaders_outcome:
  assumes "tf_ms t = gms X c" and "c \<le> length X" and X: "length X < size_mod"
  shows "outcome (step_post X c) (parse_chunkHeaders md5 t ec)"
proof -
  have chunks: "outcome (step_post X c) (bindr (read_chunkInfos n [] engine (gms X a)) (\<lambda>(chunks, engine, ms).
      Inr (True, t\<lparr>tf_chunks := chunks, tf_ms := ms, tf_engine := Finalize md5 engine, tf_step := DataBlocks 0\<rparr>, ec)))"
    if "c < a" "a \<le> length X" for a n engine
    using that by (intro outcome_bind [OF read_chunkInfos_outcome [OF _ X]]) auto
  show ?thesis
    unfolding parse_chunkHeaders_def assms(1) Let_def
    using assms(2) by (auto intro!: outcome_Read32 [OF _ X] chunks simp: assms(1))
qed

text \<open>Every call of \<^verbatim>\<open>inflate\<close> that succeeds consumes some of its input: a byte expands to at most 1032, so that
  it cannot fill the 8192 bytes of room from what it holds back.\<close>

definition zlib_progress :: "'z zlib \<Rightarrow> bool" where
  "zlib_progress z \<longleftrightarrow> (\<forall>strm inp ret strm' k out. inflate z strm inp 8192 = (ret, strm', k, out) \<longrightarrow> inp \<noteq> [] \<longrightarrow>
     0 \<le> ret \<longrightarrow> 0 < k)"

lemma inflate_feed_outcome:
  assumes "zlib_progress z"
  shows "length next_in \<le> fuel \<Longrightarrow> outcome (\<lambda>_. True) (inflate_feed fuel z ret strm next_in out)"
proof (induction fuel arbitrary: ret strm next_in out)
  case (Suc fuel)
  obtain ret' strm' k piece where i: "inflate z strm next_in 8192 = (ret', strm', k, piece)" by (metis prod_cases4)
  show ?case
  proof (cases "next_in = [] \<or> ret' < 0")
    case False
    then have "0 < k" using assms i unfolding zlib_progress_def by (meson not_le)
    then have "length (drop k next_in) \<le> fuel" using Suc.prems False by auto
    then show ?thesis using Suc.IH i by simp
  qed (use i in auto)
qed simp

lemma parse_block_outcome:
  assumes z: "zlib_progress z" and "tf_ms t = gms X c" and c: "c \<le> length X" and X: "length X + 2 ^ 32 < size_mod"
    and zfuel: "length X \<le> zfuel"
    and nested: "\<And>block out ec. length block < length X - c \<Longrightarrow> outcome (\<lambda>_. True) (nested block out ec)"
  shows "outcome (step_post X c) (parse_block nested md5 z zfuel k t ec)"
proof (cases "length (tf_chunks t) \<le> k")
  case True
  then show ?thesis using assms by (simp add: parse_block_def)
next
  case k: False
  let ?n = "unat (ci_compressedSize (tf_chunks t ! k))"
  have n: "?n < 2 ^ 32" using unsigned_less [of "ci_compressedSize (tf_chunks t ! k)", where 'a = nat] by simp
  have X': "length X < size_mod" using X by simp
  have can: "GrowableMemoryStream_CanRead ?n (gms X c) \<longleftrightarrow> c + ?n \<le> length X"
    by (rule gms_CanRead) (use n X c in linarith)
  show ?thesis
  proof (cases "c + ?n \<le> length X")
    case False
    then show ?thesis using k assms(2) c can by (simp add: parse_block_def Let_def)
  next
    case True
    have skip: "GrowableMemoryStream_SkipRead ?n (gms X a) = gms X (a + ?n)" if "a \<le> length X" for a
      by (rule gms_SkipRead) (use that n X in linarith)
    have view: "outcome (step_post X c) (bindr (subspan 0 ?n (drop a X)) f)"
      if "c < a" "a \<le> length X" and "a + ?n \<le> length X \<Longrightarrow> outcome (step_post X c) (f (take ?n (drop a X)))" for a f
    proof (cases "a + ?n \<le> length X")
      case True
      then have "?n \<le> length X - a" by simp
      then show ?thesis using that(3) [OF True] by (simp add: slice_def)
    next
      case False
      then have "\<not> ?n \<le> length X - a" using that(2) by simp
      then show ?thesis by (simp add: subspan_def)
    qed
    have feed: "outcome (step_post X c) (bindr (inflate_feed zfuel z ret strm (take ?n (drop a X)) out) f)"
      if "\<And>ok out. outcome (step_post X c) (f (ok, out))" for a ret strm out f
      using that zfuel by (intro outcome_bind [OF inflate_feed_outcome [OF z]]) auto
    have sub: "outcome (step_post X c) (bindr (nested (take ?n (drop a X)) out ec) f)"
      if "c < a" "a + ?n \<le> length X" "\<And>out ec. outcome (step_post X c) (f (out, ec))" for a out ec f
      using that by (intro outcome_bind [OF nested]) auto
    have read: "outcome (step_post X c) (bindr (ReadValue GrowableMemoryStream_vt Big (gms X c)) f)"
      if "\<And>v a. c \<le> a \<Longrightarrow> a \<le> length X \<Longrightarrow> (a = c \<longrightarrow> v = 0) \<Longrightarrow> outcome (step_post X c) (f (v, gms X a))" for f :: "byte \<times> _ \<Rightarrow> _"
      by (rule outcome_Read [OF c X']) (simp_all add: that)
    show ?thesis
      unfolding parse_block_def Let_def assms(2) GrowableMemoryStream_vt_simps
      using k True can c assms(2)
      by (auto simp: gms_Data skip slice_def split: prod.split intro!: read view feed sub)
  qed
qed

lemma loop_outcome:
  assumes z: "zlib_progress z"
  shows "tf_ms t = gms X c \<Longrightarrow> c \<le> length X \<Longrightarrow> length X + 2 ^ 32 < size_mod \<Longrightarrow> length X \<le> zfuel \<Longrightarrow> length X - c < fuel \<Longrightarrow>
    outcome (\<lambda>(t', ec). \<exists>c'. tf_ms t' = gms X c' \<and> c' \<le> length X) (parse_loop fuel md5 z zfuel t ec)"
proof (induction fuel arbitrary: X c t ec)
  case (Suc fuel)
  note t = Suc.prems(1-2)
  have X: "length X < size_mod" using Suc.prems(3) by simp
  let ?nested = "\<lambda>block out ec. bindr (Parse_with (parse_loop fuel md5 z zfuel) block (Transform_new\<lparr>tf_output := out\<rparr>) ec)
    (\<lambda>(nestedReader, ec). Inr (tf_output nestedReader, ec))"
  have nested: "outcome (\<lambda>_. True) (?nested block out ec)" if "length block < length X - c" for block out ec
  proof -
    have "outcome (\<lambda>(t', ec). \<exists>c'. tf_ms t' = gms block c' \<and> c' \<le> length block)
        (parse_loop fuel md5 z zfuel (Transform_new\<lparr>tf_ms := gms block 0, tf_feedback := [length block], tf_output := out\<rparr>) ec)"
      using that Suc.prems by (intro Suc.IH [of _ _ 0]) auto
    moreover have "Write_span block native (GrowableMemoryStream_new []) = Inr (length block, gms block 0)"
      using gms_Write [of "[]" block 0] that X by (simp add: gms_def GrowableMemoryStream_new_def)
    ultimately show ?thesis
      by (auto simp: Parse_with_def Transform_new_def intro!: outcome_bind)
  qed
  have "outcome (step_post X c) (case tf_step t of Header \<Rightarrow> parse_header t ec | ChunkHeaders \<Rightarrow> parse_chunkHeaders md5 t ec
      | DataBlocks k \<Rightarrow> parse_block ?nested md5 z zfuel k t ec)"
    using parse_header_outcome [OF t X] parse_chunkHeaders_outcome [OF t X] parse_block_outcome [OF z t Suc.prems(3,4) nested]
    by (auto split: Step.split)
  then show ?case
    unfolding parse_loop.simps
  proof (rule outcome_bind, clarify)
    fix continue and t' :: Transform and ec' c'
    assume t': "tf_ms t' = gms X c'" "c' \<le> length X" "continue \<longrightarrow> c < c'"
    show "outcome (\<lambda>(t', ec). \<exists>c'. tf_ms t' = gms X c' \<and> c' \<le> length X)
        (if continue then parse_loop fuel md5 z zfuel t' ec' else Inr (t', ec'))"
    proof (cases continue)
      case True
      have "length X - c' < fuel" using Suc.prems(5) t' True by simp
      then show ?thesis using Suc.IH [OF t'(1,2) Suc.prems(3,4)] True by simp
    qed (use t' in simp)
  qed
qed simp

text \<open>The state between two calls: everything that has come so far, and how much of it is decoded.\<close>

definition Transform_ok :: "Transform \<Rightarrow> bool" where
  "Transform_ok t \<longleftrightarrow> gs_writeCursor (tf_ms t) = length (gs_data (tf_ms t)) \<and> gs_readCursor (tf_ms t) \<le> length (gs_data (tf_ms t))"

lemma Transform_ok_gms: "Transform_ok t \<longleftrightarrow> (\<exists>X c. tf_ms t = gms X c \<and> c \<le> length X)"
  by (cases "tf_ms t") (auto simp: Transform_ok_def gms_def)

lemma Parse_outcome:
  assumes "zlib_progress z" and "Transform_ok t" and "length (gs_data (tf_ms t)) + length data + 2 ^ 32 < size_mod"
  shows "outcome (\<lambda>(t', ec). Transform_ok t' \<and> gs_data (tf_ms t') = gs_data (tf_ms t) @ data) (Parse md5 z data t ec)"
proof -
  obtain X c where X: "tf_ms t = gms X c" "c \<le> length X" using assms(2) by (auto simp: Transform_ok_gms)
  have "length X + length data < size_mod" using assms(3) X(1) by simp
  note Parse_gms [OF X(1) this, of md5 z ec]
  moreover have "outcome (\<lambda>(t', ec). \<exists>c'. tf_ms t' = gms (X @ data) c' \<and> c' \<le> length (X @ data))
      (parse_loop (length X + length data + 3) md5 z (length X + length data)
        (t\<lparr>tf_ms := gms (X @ data) c, tf_feedback := tf_feedback t @ [length data]\<rparr>) ec)"
    using X assms(3) by (intro loop_outcome [OF assms(1)]) auto
  ultimately show ?thesis using X(1) by (auto simp: Transform_ok_def elim!: outcome_mono)
qed

section \<open>Properties\<close>


definition copy_zlib :: "unit zlib" where
  "copy_zlib = \<lparr>inflateInit = (Z_OK, ()), inflate = (\<lambda>s inp n. (Z_OK, (), min n (length inp), take n inp))\<rparr>"



definition length_md5 :: digest where
  "length_md5 x = replicate 16 (word_of_nat (length x))"


text \<open>An archive whose checksums leave out the last byte of each chunk is decoded: all that is stored is delivered, a
  call of the handler per chunk. (At least eight bytes have to follow the header, of which the decoder waits for eight too many.)\<close>

theorem Transform_accepts:
  assumes "sums_ok (\<lambda>d. md5 (butlast (stored d))) ds" and "8 \<le> length (concat (map stored ds))"
  shows "\<exists>t. put_all md5 z [sum_archive (\<lambda>d. md5 (butlast (stored d))) ds] Transform_new = Inr (t, None) \<and> tf_output t = ds"
  using put_all_accepts [OF assms, of z] by blast

lemma Transform_accepts_witness:
  "\<exists>t. put_all length_md5 copy_zlib [sum_archive (\<lambda>d. length_md5 (butlast (stored d))) [[1, 2, 3, 4, 5, 6, 7], [8]]] Transform_new =
    Inr (t, None) \<and> tf_output t = [[1, 2, 3, 4, 5, 6, 7], [8]]"
  by (rule Transform_accepts)
    (simp_all add: sums_ok_def length_md5_def stored_def size_mod_def sum_archive_def sum_header_def sum_entry_def be32_def)

end
