(* ===== verification/Session.thy ===== *)
theory Session
  imports Transform Ribbit Download FileLocation
begin

text \<open>
  \<^verbatim>\<open>tactmon/net\<close>: the HTTP server that hands out single files. \<^verbatim>\<open>Server.cpp\<close> makes the addresses of files,
  \<^verbatim>\<open>Session.cpp\<close> reads them back and streams the file from a content server to the client, through the decoder of
  \<open>Transform\<close>. The connections to the content servers are a parameter; writing the pieces to the client succeeds.
\<close>

section \<open>Addresses\<close>

definition GenerateAdress_key :: "string \<Rightarrow> string \<Rightarrow> byte list \<Rightarrow> string \<Rightarrow> nat \<Rightarrow> string" where
  "GenerateAdress_key documentRoot product location fileName decompressedSize =
     documentRoot @ ''/'' @ product @ ''/'' @ hex location @ ''/'' @ print_nat 0 @ ''/'' @ print_nat 0 @ ''/''
       @ print_nat decompressedSize @ ''/'' @ fileName"

definition GenerateAdress :: "string \<Rightarrow> string \<Rightarrow> ArchiveFileLocation \<Rightarrow> string \<Rightarrow> nat \<Rightarrow> string" where
  "GenerateAdress documentRoot product location fileName decompressedSize =
     documentRoot @ ''/'' @ product @ ''/'' @ al_archiveName location @ ''/'' @ print_nat (al_offset location) @ ''/''
       @ print_nat (al_fileSize location) @ ''/'' @ print_nat decompressedSize @ ''/'' @ fileName"

record FileQueryParams =
  fq_Product :: string
  fq_ArchiveName :: string
  fq_Offset :: nat
  fq_Length :: nat
  fq_DecompressedSize :: nat
  fq_FileName :: string

text \<open>What \<^verbatim>\<open>writeError\<close> sends; every answer closes the connection.\<close>

record reply =
  rp_status :: nat
  rp_body :: string
  rp_keep_alive :: bool

definition writeError :: "nat \<Rightarrow> string \<Rightarrow> reply" where
  "writeError responseCode body = \<lparr>rp_status = responseCode, rp_body = body, rp_keep_alive = False\<rparr>"

definition parse_target :: "string \<Rightarrow> reply + FileQueryParams" where
  "parse_target target =
     (if CHR 0x5C \<in> set target then Inl (writeError 400 ''Don't try to exploit me'')
      else let tokens = Tokenize_char target (CHR ''/'') False; tokens = drop 1 tokens in
        if length tokens \<noteq> 6 then Inl (writeError 400 ''Malformed request'')
        else case from_chars size_mod (tokens ! 2) of None \<Rightarrow> Inl (writeError 400 ''Invalid range start value'')
        | Some off \<Rightarrow> (case from_chars size_mod (tokens ! 3) of None \<Rightarrow> Inl (writeError 400 ''Invalid range length value'')
          | Some len \<Rightarrow> (case from_chars size_mod (tokens ! 4) of None \<Rightarrow> Inl (writeError 400 ''Invalid length'')
            | Some dsize \<Rightarrow> if dsize = 0 then Inl (writeError 400 ''Invalid length'')
                else Inr \<lparr>fq_Product = tokens ! 0, fq_ArchiveName = tokens ! 1, fq_Offset = off, fq_Length = len,
                  fq_DecompressedSize = dsize, fq_FileName = tokens ! 5\<rparr>)))"

section \<open>Content servers\<close>

record method_request = request +
  rq_method :: string

record 'c remote =
  rm_resolve :: "string \<Rightarrow> bool"                    \<comment> \<open>whether the name resolves; \<^verbatim>\<open>resolve\<close> throws otherwise\<close>
  rm_connect :: "string \<Rightarrow> 'c option"
  rm_write :: "'c \<Rightarrow> method_request \<Rightarrow> 'c option"
  rm_read_header :: "'c \<Rightarrow> (nat \<times> 'c) option"        \<comment> \<open>the status\<close>
  rm_read :: "'c \<Rightarrow> byte list list \<times> bool"          \<comment> \<open>the pieces of the body, and whether reading fails behind them\<close>

definition remote_request :: "string \<Rightarrow> string \<Rightarrow> string \<Rightarrow> nat \<Rightarrow> nat \<Rightarrow> method_request" where
  "remote_request verb host path off len = \<lparr>rq_target = path, rq_host = host,
     rq_range = (if len \<noteq> 0 then Some (print_nat off @ ''-'' @ print_nat (sub_sz (add_sz off len) 1)) else None),
     rq_method = verb\<rparr>"

text \<open>\<^verbatim>\<open>checkExistence\<close>, with the connection that it leaves.\<close>

definition checkExistence :: "'c remote \<Rightarrow> string \<Rightarrow> string \<Rightarrow> nat \<Rightarrow> nat \<Rightarrow> string \<Rightarrow> 'c \<Rightarrow> bool \<times> 'c" where
  "checkExistence rm host path off len verb c =
     (case rm_write rm c (remote_request verb host path off len) of None \<Rightarrow> (False, c)
      | Some c \<Rightarrow> (case rm_read_header rm c of None \<Rightarrow> (False, c)
        | Some (status, c) \<Rightarrow> (status \<notin> {404, 416, 405}, c)))"

definition validationTask :: "'c remote \<Rightarrow> string \<Rightarrow> nat \<Rightarrow> nat \<Rightarrow> string \<Rightarrow> (string \<times> string) option result" where
  "validationTask rm path off len host =
     (if \<not> rm_resolve rm host then Inl Thrown
      else case rm_connect rm host of None \<Rightarrow> Inr None
      | Some c \<Rightarrow>
          let (found, c) = checkExistence rm host path off len ''HEAD'' c in
          if found \<or> fst (checkExistence rm host path off len ''GET'' c) then Inr (Some (host, path)) else Inr None)"

text \<open>\<^verbatim>\<open>std::string_view::substr\<close>, which throws behind the end.\<close>

definition substr :: "nat \<Rightarrow> nat \<Rightarrow> string \<Rightarrow> string result" where
  "substr pos n s = (if length s < pos then Inl Thrown else Inr (slice pos n s))"

definition remotePath :: "string \<Rightarrow> CDNsRecord \<Rightarrow> string result" where
  "remotePath archiveName cdn =
     bindr (substr 0 2 archiveName) (\<lambda>a. bindr (substr 2 2 archiveName) (\<lambda>b.
       Inr (''/'' @ cr_Path cdn @ ''/data/'' @ a @ ''/'' @ b @ ''/'' @ archiveName)))"

text \<open>The tasks, in the order in which they are posted.\<close>

primrec collect_tasks :: "string \<Rightarrow> CDNsRecord list \<Rightarrow> (string \<times> string) list result" where
  "collect_tasks archiveName [] = Inr []"
| "collect_tasks archiveName (cdn # cdns) =
     bindr (remotePath archiveName cdn) (\<lambda>path. bindr (collect_tasks archiveName cdns) (\<lambda>tasks.
       Inr (map (\<lambda>host. (host, path)) (cr_Hosts cdn) @ tasks)))"

text \<open>\<^verbatim>\<open>std::unordered_map::emplace\<close>: an element that is there stays.\<close>

definition emplace_host :: "'k \<Rightarrow> 'v \<Rightarrow> ('k \<times> 'v) list \<Rightarrow> ('k \<times> 'v) list" where
  "emplace_host k v m = (if map_of m k = None then m @ [(k, v)] else m)"

primrec collect_results :: "'c remote \<Rightarrow> nat \<Rightarrow> nat \<Rightarrow> (string \<times> string) list \<Rightarrow> (string \<times> string) list \<Rightarrow> (string \<times> string) list result" where
  "collect_results rm off len [] resultSet = Inr resultSet"
| "collect_results rm off len (task # tasks) resultSet =
     bindr (validationTask rm (snd task) off len (fst task)) (\<lambda>v.
       collect_results rm off len tasks (case v of None \<Rightarrow> resultSet | Some (host, path) \<Rightarrow> emplace_host host path resultSet))"

definition CollectAvailableCDNs :: "'c remote \<Rightarrow> CDNsRecord list \<Rightarrow> string \<Rightarrow> nat \<Rightarrow> nat \<Rightarrow> (string \<times> string) list result" where
  "CollectAvailableCDNs rm cdns archiveName off len =
     bindr (collect_tasks archiveName cdns) (\<lambda>tasks. collect_results rm off len tasks [])"

section \<open>Requests\<close>

text \<open>The feedback of the decoder: \<^verbatim>\<open>params.Offset += bytesRead; params.Length -= bytesRead\<close>.\<close>

definition feedback :: "nat \<Rightarrow> FileQueryParams \<Rightarrow> FileQueryParams" where
  "feedback bytesRead params = params\<lparr>fq_Offset := add_sz (fq_Offset params) bytesRead, fq_Length := sub_sz (fq_Length params) bytesRead\<rparr>"

primrec fetch_cdns ::
  "'c remote \<Rightarrow> digest \<Rightarrow> 'z zlib \<Rightarrow> (string \<times> string) list \<Rightarrow> FileQueryParams \<Rightarrow> Transform \<Rightarrow> (FileQueryParams \<times> Transform) result" where
  "fetch_cdns rm md5 z [] params t = Inr (params, t)"
| "fetch_cdns rm md5 z (archive # archives) params t =
     (let (cdn, path) = archive in
      if \<not> rm_resolve rm cdn then Inl Thrown
      else case rm_connect rm cdn of None \<Rightarrow> fetch_cdns rm md5 z archives params t
      | Some c \<Rightarrow> (case rm_write rm c (remote_request ''GET'' cdn path (fq_Offset params) (fq_Length params)) of
          None \<Rightarrow> fetch_cdns rm md5 z archives params t
        | Some c \<Rightarrow> (case rm_read_header rm c of None \<Rightarrow> fetch_cdns rm md5 z archives params t
          | Some (status, c) \<Rightarrow>
              if status = 404 then fetch_cdns rm md5 z archives params t
              else let (buffers, failed) = rm_read rm c in
                bindr (put_all md5 z buffers t) (\<lambda>(t', ec).
                  let params = fold feedback (drop (length (tf_feedback t)) (tf_feedback t')) params in
                  if ec \<noteq> None \<or> failed then fetch_cdns rm md5 z archives params t'
                  else if fq_Length params = 0 then Inr (params, t')
                  else fetch_cdns rm md5 z archives params t'))))"

text \<open>What a request causes: whether the header of the answer was sent, what was written behind it, the answer that is
  queued with \<^verbatim>\<open>BeginWrite\<close>, and the returned value.\<close>

record response_to =
  rt_header :: "FileQueryParams option"
  rt_written :: "byte list list"
  rt_reply :: "reply option"
  rt_return :: bool

record ('n, 'c, 'z) session_env =
  se_net :: "'n network"
  se_mime_boundary :: "string \<Rightarrow> string option"
  se_split :: "string \<Rightarrow> string list"
  se_remote :: "'c remote"
  se_order :: "(string \<times> string) list \<Rightarrow> (string \<times> string) list"   \<comment> \<open>the order of an \<^verbatim>\<open>unordered_map\<close>\<close>
  se_write_header :: "FileQueryParams \<Rightarrow> bool"
  se_md5 :: digest
  se_zlib :: "'z zlib"

definition unresolved_text :: string where
  "unresolved_text = ''Unable to resolve CDN configuration.'' @ crlf
     @ ''This could be due to Ribbit being unavailable or this build not being cached.'' @ crlf
     @ ''Try again in a bit; if this error persists, you're out of luck.''"

definition ProcessRequest :: "('n, 'c, 'z) session_env \<Rightarrow> string \<Rightarrow> response_to result" where
  "ProcessRequest env target =
     (case parse_target target of
       Inl reply \<Rightarrow> Inr \<lparr>rt_header = None, rt_written = [], rt_reply = Some reply, rt_return = True\<rparr>
     | Inr params \<Rightarrow>
         bindr (Execute_CDNs (se_net env) (se_mime_boundary env) (se_split env) V1 US (fq_Product params)) (\<lambda>cdns.
         case cdns of
           None \<Rightarrow> Inr \<lparr>rt_header = None, rt_written = [], rt_reply = Some (writeError 404 unresolved_text), rt_return = True\<rparr>
         | Some cdns \<Rightarrow>
             if \<not> se_write_header env params then Inr \<lparr>rt_header = None, rt_written = [], rt_reply = None, rt_return = True\<rparr>
             else bindr (CollectAvailableCDNs (se_remote env) cdns (fq_ArchiveName params) (fq_Offset params) (fq_Length params)) (\<lambda>available.
               if available = [] then Inr \<lparr>rt_header = Some params, rt_written = [],
                 rt_reply = Some (writeError 404 ''No CDN could fulfill this request.''), rt_return = True\<rparr>
               else bindr (fetch_cdns (se_remote env) (se_md5 env) (se_zlib env) (se_order env available) params Transform_new) (\<lambda>(_, t).
                 Inr \<lparr>rt_header = Some params, rt_written = tf_output t, rt_reply = None, rt_return = False\<rparr>))))"

section \<open>The session\<close>

text \<open>The queue of answers and the operations that have been started and have not ended. Their handlers run one at a time.\<close>

record Session =
  sn_outgoingQueue :: "reply list"
  sn_reads :: nat
  sn_writes :: "reply list"
  sn_shutdown :: bool

definition Session_new :: Session where
  "Session_new = \<lparr>sn_outgoingQueue = [], sn_reads = 0, sn_writes = [], sn_shutdown = False\<rparr>"

definition QueueLimit :: nat where "QueueLimit = 8"

definition BeginRead :: "Session \<Rightarrow> Session" where
  "BeginRead s = s\<lparr>sn_reads := sn_reads s + 1\<rparr>"

definition UpdateOutgoing :: "Session \<Rightarrow> bool \<times> Session" where
  "UpdateOutgoing s =
     (let wasFull = length (sn_outgoingQueue s) = QueueLimit in
      case sn_outgoingQueue s of [] \<Rightarrow> (wasFull, s)
      | msg # msgs \<Rightarrow> (wasFull, s\<lparr>sn_outgoingQueue := msgs, sn_writes := sn_writes s @ [msg]\<rparr>))"

definition BeginWrite :: "reply \<Rightarrow> Session \<Rightarrow> Session" where
  "BeginWrite response s =
     (let s = s\<lparr>sn_outgoingQueue := sn_outgoingQueue s @ [response]\<rparr> in
      if length (sn_outgoingQueue s) = 1 then snd (UpdateOutgoing s) else s)"

text \<open>The handlers; the operation that has ended is taken off before. The request is processed whatever the error is, if it
  is not the end of the stream.\<close>

definition HandleRead :: "bool \<Rightarrow> response_to \<Rightarrow> Session \<Rightarrow> Session" where
  "HandleRead end_of_stream r s =
     (if end_of_stream then s\<lparr>sn_shutdown := True\<rparr>
      else let s = (case rt_reply r of None \<Rightarrow> s | Some response \<Rightarrow> BeginWrite response s) in
        if rt_return r \<and> length (sn_outgoingQueue s) < QueueLimit then BeginRead s else s)"

definition HandleWrite :: "bool \<Rightarrow> bool \<Rightarrow> Session \<Rightarrow> Session" where
  "HandleWrite keepAlive failed s =
     (if failed then s
      else if \<not> keepAlive then s\<lparr>sn_shutdown := True\<rparr>
      else let (wasFull, s) = UpdateOutgoing s in if wasFull then BeginRead s else s)"

inductive session_step :: "('n, 'c, 'z) session_env \<Rightarrow> Session \<Rightarrow> Session \<Rightarrow> bool" for env where
  session_read: "0 < sn_reads s \<Longrightarrow> ProcessRequest env target = Inr r \<Longrightarrow>
    session_step env s (HandleRead end_of_stream r (s\<lparr>sn_reads := sn_reads s - 1\<rparr>))"
| session_thrown: "0 < sn_reads s \<Longrightarrow> ProcessRequest env target = Inl e \<Longrightarrow> session_step env s (s\<lparr>sn_reads := sn_reads s - 1\<rparr>)"
| session_write: "i < length (sn_writes s) \<Longrightarrow>
    session_step env s (HandleWrite (rp_keep_alive (sn_writes s ! i)) failed
      (s\<lparr>sn_writes := take i (sn_writes s) @ drop (Suc i) (sn_writes s)\<rparr>))"

definition session_reachable :: "('n, 'c, 'z) session_env \<Rightarrow> Session \<Rightarrow> bool" where
  "session_reachable env s \<longleftrightarrow> (session_step env)\<^sup>*\<^sup>* (BeginRead Session_new) s"

section \<open>Addresses are read back\<close>

lemma print_nat_slash [simp]: "CHR ''/'' \<notin> set (print_nat n)"
  using print_nat_digits [of n] by (auto simp: is_digit_def)

lemma print_nat_backslash [simp]: "CHR 0x5C \<notin> set (print_nat n)"
  using print_nat_digits [of n] by (auto simp: is_digit_def)

text \<open>Parts of an address: no separator in them. The last one is not empty.\<close>

definition part_ok :: "string \<Rightarrow> bool" where
  "part_ok s \<longleftrightarrow> CHR ''/'' \<notin> set s \<and> CHR 0x5C \<notin> set s"

lemma Tokenize_address:
  assumes "CHR ''/'' \<notin> set a" and "CHR ''/'' \<notin> set b" and "CHR ''/'' \<notin> set c" and "CHR ''/'' \<notin> set d"
    and "CHR ''/'' \<notin> set e" and "CHR ''/'' \<notin> set f"
  shows "Tokenize_char (CHR ''/'' # a @ CHR ''/'' # b @ CHR ''/'' # c @ CHR ''/'' # d @ CHR ''/'' # e @ CHR ''/'' # f) (CHR ''/'') False =
    [[], a, b, c, d, e] @ (if f = [] then [] else [f])"
  using assms Tokenize_char_step [of "CHR ''/''" "[]" _ False] by (simp add: Tokenize_char_step Tokenize_char_none)

lemma parse_address:
  assumes "part_ok product" and "part_ok (al_archiveName location)" and "part_ok name"
    and "al_offset location < size_mod" and "al_fileSize location < size_mod" and "0 < n" and "n < size_mod"
  shows "parse_target (drop (length root) (GenerateAdress root product location name n)) =
    (if name = [] then Inl (writeError 400 ''Malformed request'')
     else Inr \<lparr>fq_Product = product, fq_ArchiveName = al_archiveName location, fq_Offset = al_offset location,
       fq_Length = al_fileSize location, fq_DecompressedSize = n, fq_FileName = name\<rparr>)"
proof -
  let ?target = "CHR ''/'' # product @ CHR ''/'' # al_archiveName location @ CHR ''/'' # print_nat (al_offset location)
    @ CHR ''/'' # print_nat (al_fileSize location) @ CHR ''/'' # print_nat n @ CHR ''/'' # name"
  have "drop (length root) (GenerateAdress root product location name n) = ?target" by (simp add: GenerateAdress_def)
  moreover have "CHR 0x5C \<notin> set ?target" using assms(1-3) by (simp add: part_ok_def)
  moreover have "Tokenize_char ?target (CHR ''/'') False = [[], product, al_archiveName location, print_nat (al_offset location),
      print_nat (al_fileSize location), print_nat n] @ (if name = [] then [] else [name])"
    using assms(1-3) by (intro Tokenize_address) (simp_all add: part_ok_def)
  ultimately show ?thesis using assms(4-7) by (simp add: parse_target_def)
qed

text \<open>The address of a file is understood: cut off behind the document root, it is read as the request for that part of the
  archive. Without a file name it is refused as malformed.\<close>

theorem GenerateAdress_parse_target:
  assumes "part_ok product" and "part_ok (al_archiveName location)" and "part_ok name"
    and "al_offset location < size_mod" and "al_fileSize location < size_mod" and "0 < n" and "n < size_mod"
  shows "parse_target (drop (length root) (GenerateAdress root product location name n)) =
    (if name = [] then Inl (writeError 400 ''Malformed request'')
     else Inr \<lparr>fq_Product = product, fq_ArchiveName = al_archiveName location, fq_Offset = al_offset location,
       fq_Length = al_fileSize location, fq_DecompressedSize = n, fq_FileName = name\<rparr>)"
  using assms by (rule parse_address)

lemma GenerateAdress_parse_target_witness:
  "parse_target (drop (length ''http://a.b:8'') (GenerateAdress ''http://a.b:8'' ''wow'' (ArchiveFileLocation_new ''0017'' 5 20) ''x.db2'' 99)) =
    Inr \<lparr>fq_Product = ''wow'', fq_ArchiveName = ''0017'', fq_Offset = 5, fq_Length = 20, fq_DecompressedSize = 99, fq_FileName = ''x.db2''\<rparr>"
  by (subst GenerateAdress_parse_target) (simp_all add: part_ok_def ArchiveFileLocation_new_def size_mod_def)

section \<open>The queue of answers\<close>

lemma parse_target_reply: "parse_target target = Inl reply \<Longrightarrow> \<not> rp_keep_alive reply"
  by (auto simp: parse_target_def writeError_def Let_def split: if_splits option.splits)

lemma ProcessRequest_reply:
  assumes "ProcessRequest env target = Inr r" and "rt_reply r = Some response"
  shows "rt_return r \<and> \<not> rp_keep_alive response"
proof (cases "parse_target target")
  case (Inl reply)
  then show ?thesis using assms by (auto simp: ProcessRequest_def dest: parse_target_reply)
next
  case (Inr params)
  then show ?thesis
    using assms by (auto simp: ProcessRequest_def writeError_def elim!: bindr_InrE split: option.splits if_splits)
qed

definition session_inv :: "Session \<Rightarrow> bool" where
  "session_inv s \<longleftrightarrow> sn_outgoingQueue s = [] \<and> sn_reads s \<le> 1 \<and> (\<forall>r \<in> set (sn_writes s). \<not> rp_keep_alive r)"

lemma session_step_inv: "session_step env s s' \<Longrightarrow> session_inv s \<Longrightarrow> session_inv s'"
proof (induction rule: session_step.induct)
  case (session_read s target r end_of_stream)
  then show ?case
    using ProcessRequest_reply [OF session_read(2)]
    by (auto simp: session_inv_def HandleRead_def BeginRead_def BeginWrite_def UpdateOutgoing_def Let_def split: option.splits)
next
  case (session_write i s failed)
  then show ?case
    by (auto simp: session_inv_def HandleWrite_def dest: in_set_takeD in_set_dropD nth_mem)
qed (auto simp: session_inv_def)

lemma session_reachable_inv: "session_reachable env s \<Longrightarrow> session_inv s"
  unfolding session_reachable_def
  by (induction rule: rtranclp_induct)
    (auto simp: session_inv_def BeginRead_def Session_new_def intro: session_step_inv [unfolded session_inv_def] dest: session_step_inv)

text \<open>C21: whatever requests arrive and in whatever order reading and writing end, the queue of answers is empty between two
  handlers, at most one read is started, and every answer that is being written closes the connection. So the queue never is
  full, and reading is never resumed by a write that ends.\<close>

theorem Session_queue_empty:
  assumes "session_reachable env s"
  shows "sn_outgoingQueue s = [] \<and> sn_reads s \<le> 1 \<and> (\<forall>r \<in> set (sn_writes s). \<not> rp_keep_alive r) \<and> \<not> fst (UpdateOutgoing s)"
  using session_reachable_inv [OF assms] by (simp add: session_inv_def UpdateOutgoing_def QueueLimit_def)

text \<open>C22: the queue does not keep answers apart: a client that sends requests without waiting makes any number of writes run at the
  same time on one connection, which the stream does not allow.\<close>

lemma ProcessRequest_malformed:
  "ProcessRequest env [] = Inr \<lparr>rt_header = None, rt_written = [], rt_reply = Some (writeError 400 ''Malformed request''), rt_return = True\<rparr>"
  by (simp add: ProcessRequest_def parse_target_def)

theorem Session_writes_overlap: "\<exists>s. session_reachable env s \<and> length (sn_writes s) = n"
proof -
  have "\<exists>s. session_reachable env s \<and> length (sn_writes s) = n \<and> sn_reads s = 1 \<and> sn_outgoingQueue s = []"
  proof (induction n)
    case 0
    show ?case
      by (rule exI [of _ "BeginRead Session_new"]) (simp add: session_reachable_def BeginRead_def Session_new_def)
  next
    case (Suc n)
    then obtain s where s: "session_reachable env s" "length (sn_writes s) = n" "sn_reads s = 1" "sn_outgoingQueue s = []" by blast
    let ?r = "\<lparr>rt_header = None, rt_written = [], rt_reply = Some (writeError 400 ''Malformed request''), rt_return = True\<rparr>"
    let ?s = "HandleRead False ?r (s\<lparr>sn_reads := sn_reads s - 1\<rparr>)"
    have "session_step env s ?s" using s(3) by (intro session_step.session_read [OF _ ProcessRequest_malformed]) simp
    then have "session_reachable env ?s" using s(1) unfolding session_reachable_def by (rule rtranclp.rtrancl_into_rtrancl [rotated])
    moreover have "length (sn_writes ?s) = Suc n" "sn_reads ?s = 1" "sn_outgoingQueue ?s = []"
      using s by (simp_all add: HandleRead_def BeginRead_def BeginWrite_def UpdateOutgoing_def QueueLimit_def)
    ultimately show ?case by blast
  qed
  then show ?thesis by blast
qed

section \<open>Streaming\<close>

text \<open>Content servers that all have the same file, under names that resolve; connecting may fail.\<close>

definition serves :: "'c remote \<Rightarrow> byte list \<Rightarrow> bool" where
  "serves rm A \<longleftrightarrow> (\<forall>host. rm_resolve rm host) \<and> (\<forall>c. concat (fst (rm_read rm c)) = A)"

lemma put_all_rejected:
  assumes "rejected md5 t" and "length (gs_data (tf_ms t)) + length (concat buffers) + 2 ^ 32 < size_mod" and "buffers \<noteq> []"
  shows "\<exists>t'. put_all md5 z buffers t = Inr (t', Some body_limit) \<and> rejected md5 t' \<and> tf_output t' = tf_output t \<and>
    length (gs_data (tf_ms t')) \<le> length (gs_data (tf_ms t)) + length (concat buffers)"
proof -
  obtain b bs where b: "buffers = b # bs" using assms(3) by (cases buffers) auto
  have "length (gs_data (tf_ms t)) + length b + 2 ^ 32 < size_mod" using assms(2) b by simp
  from Parse_rejected [OF assms(1) this, of z None] show ?thesis using b by auto
qed

lemma fetch_cdns_rejects:
  assumes "serves rm (BLTE_encode md5 ds)" and "sums_ok (\<lambda>d. md5 (stored d)) ds" and "8 \<le> length (concat (map stored ds))"
    and "md5 (stored (hd ds)) \<noteq> md5 (butlast (stored (hd ds)))"
  shows "t = Transform_new \<or> rejected md5 t \<Longrightarrow> tf_output t = [] \<Longrightarrow>
    length (gs_data (tf_ms t)) + length archives * length (BLTE_encode md5 ds) + 2 ^ 32 < size_mod \<Longrightarrow>
    \<exists>params' t'. fetch_cdns rm md5 z archives params t = Inr (params', t') \<and> tf_output t' = []"
proof (induction archives arbitrary: params t)
  case (Cons archive archives)
  let ?A = "BLTE_encode md5 ds"
  have keep: "\<exists>params' t'. fetch_cdns rm md5 z archives params t = Inr (params', t') \<and> tf_output t' = []" for params
    using Cons.prems by (intro Cons.IH) simp_all
  have put: "\<exists>t'. put_all md5 z (fst (rm_read rm c)) t = Inr (t', Some body_limit) \<and> rejected md5 t' \<and> tf_output t' = [] \<and>
      length (gs_data (tf_ms t')) \<le> length (gs_data (tf_ms t)) + length ?A" for c
  proof -
    have A: "concat (fst (rm_read rm c)) = ?A" using assms(1) by (simp add: serves_def)
    show ?thesis
    proof (cases "rejected md5 t")
      case True
      have "8 \<le> length ?A" using assms(3) by (simp add: BLTE_encode_sum sum_archive_def)
      then have "fst (rm_read rm c) \<noteq> []" using A by auto
      then show ?thesis using put_all_rejected [OF True, of "fst (rm_read rm c)" z] A Cons.prems(2,3) by auto
    next
      case False
      then have t: "t = Transform_new" using Cons.prems(1) by simp
      have "mismatch md5 (\<lambda>d. md5 (stored d)) (hd ds)" using assms(4) by (simp add: mismatch_def)
      moreover have "waits (\<lambda>d. md5 (stored d)) ds [] t"
        by (simp add: t waits_def in_header_def Transform_new_def GrowableMemoryStream_new_def gms_def)
      ultimately show ?thesis
        using put_all_waits [OF assms(2) _ assms(3), of md5 "[]" "fst (rm_read rm c)" t z] A
        by (auto simp: BLTE_encode_sum dest!: prefix_length_le)
    qed
  qed
  have "\<exists>params' t'. (case rm_read rm c of (buffers, failed) \<Rightarrow>
      bindr (put_all md5 z buffers t) (\<lambda>(t', ec).
        let params = fold feedback (drop (length (tf_feedback t)) (tf_feedback t')) params in
        if ec \<noteq> None \<or> failed then fetch_cdns rm md5 z archives params t'
        else if fq_Length params = 0 then Inr (params, t')
        else fetch_cdns rm md5 z archives params t')) = Inr (params', t') \<and> tf_output t' = []" for c
  proof -
    obtain t' where t': "put_all md5 z (fst (rm_read rm c)) t = Inr (t', Some body_limit)" "rejected md5 t'" "tf_output t' = []"
        "length (gs_data (tf_ms t')) \<le> length (gs_data (tf_ms t)) + length ?A"
      using put by blast
    have "\<exists>params' t''. fetch_cdns rm md5 z archives params t' = Inr (params', t'') \<and> tf_output t'' = []" for params
      using t' Cons.prems(3) by (intro Cons.IH) simp_all
    then show ?thesis using t'(1) by (cases "rm_read rm c") (simp add: Let_def)
  qed
  then show ?case using keep assms(1)
    by (cases archive) (simp add: serves_def split: option.split)
qed simp

lemma ProcessRequest_fetch:
  assumes "parse_target target = Inr params"
    and "Execute_CDNs (se_net env) (se_mime_boundary env) (se_split env) V1 US (fq_Product params) = Inr (Some cdns)"
    and "se_write_header env params"
    and "CollectAvailableCDNs (se_remote env) cdns (fq_ArchiveName params) (fq_Offset params) (fq_Length params) = Inr available"
    and "available \<noteq> []"
    and "fetch_cdns (se_remote env) (se_md5 env) (se_zlib env) (se_order env available) params Transform_new = Inr (params', t)"
  shows "ProcessRequest env target = Inr \<lparr>rt_header = Some params, rt_written = tf_output t, rt_reply = None, rt_return = False\<rparr>"
  using assms by (simp add: ProcessRequest_def)



definition example_servers :: "string network" where
  "example_servers = \<lparr>net_resolve = \<lambda>_ _. True, net_connect = \<lambda>_ _. Some [], net_write = \<lambda>_ command. Some command,
     net_read = \<lambda>_. Some (rejoin (''--b'' @ crlf) [rejoin crlf (map print_cdns [example_server, example_server])])\<rparr>"

definition example_session :: "byte list \<Rightarrow> (string, unit, unit) session_env" where
  "example_session A = \<lparr>se_net = example_servers, se_mime_boundary = \<lambda>_. Some ''b'', se_split = \<lambda>s. [s],
     se_remote = \<lparr>rm_resolve = \<lambda>_. True, rm_connect = \<lambda>_. Some (), rm_write = \<lambda>_ _. Some (), rm_read_header = \<lambda>_. Some (206, ()),
       rm_read = \<lambda>_. ([A], False)\<rparr>,
     se_order = \<lambda>archives. archives, se_write_header = \<lambda>_. True, se_md5 = length_md5, se_zlib = copy_zlib\<rparr>"

definition example_address :: "nat \<Rightarrow> string" where
  "example_address n = drop (length ''http://a'') (GenerateAdress ''http://a'' ''wow'' (ArchiveFileLocation_new ''0017'' 0 n) ''x'' 7)"

definition example_params :: "nat \<Rightarrow> FileQueryParams" where
  "example_params n = \<lparr>fq_Product = ''wow'', fq_ArchiveName = ''0017'', fq_Offset = 0, fq_Length = n, fq_DecompressedSize = 7, fq_FileName = ''x''\<rparr>"

lemma example_address: "n < size_mod \<Longrightarrow> parse_target (example_address n) = Inr (example_params n)"
  unfolding example_address_def
  by (subst parse_address) (simp_all add: part_ok_def ArchiveFileLocation_new_def example_params_def size_mod_def)

lemma example_session_cdns: "Execute_CDNs example_servers (\<lambda>_. Some ''b'') (\<lambda>s. [s]) V1 US ''wow'' = Inr (Some [example_server])"
proof -
  let ?t = "rejoin crlf (map print_cdns [example_server, example_server])"
  have "CDNs_Parse (\<lambda>s. [s]) ?t = Inr (Some [example_server])"
    using cdns_format.table_rows [of "[]" "\<lambda>s. [s]" "[example_server, example_server]"] example_ok(2)
    by (simp add: CDNs_Parse_def)
  moreover have "CHR ''-'' \<notin> set ?t" by (simp add: crlf_def print_cdns_def example_server_def blanks_def)
  moreover have "?t \<noteq> []" by (simp add: crlf_def)
  ultimately show ?thesis
    using example_answer [of ?t "CDNs_Parse (\<lambda>s. [s])" "[example_server]"]
    by (simp add: Execute_CDNs_def Execute_def example_servers_def)
qed

lemma example_available:
  "CollectAvailableCDNs (se_remote (example_session A)) [example_server] ''0017'' 0 n = Inr [(''a'', ''/tpr/wow/data/00/17/0017'')]"
  by (simp add: CollectAvailableCDNs_def remotePath_def substr_def slice_def example_server_def validationTask_def example_session_def
      checkExistence_def emplace_host_def Let_def)

lemma example_session_simps [simp]:
  "se_net (example_session A) = example_servers" "se_mime_boundary (example_session A) = (\<lambda>_. Some ''b'')"
  "se_split (example_session A) = (\<lambda>s. [s])" "se_order (example_session A) = (\<lambda>archives. archives)"
  "se_write_header (example_session A) = (\<lambda>_. True)" "se_md5 (example_session A) = length_md5"
  "rm_resolve (se_remote (example_session A)) = (\<lambda>_. True)" "rm_connect (se_remote (example_session A)) = (\<lambda>_. Some ())"
  "rm_write (se_remote (example_session A)) = (\<lambda>_ _. Some ())" "rm_read_header (se_remote (example_session A)) = (\<lambda>_. Some (206, ()))"
  "rm_read (se_remote (example_session A)) = (\<lambda>_. ([A], False))"
  by (simp_all add: example_session_def)

lemma example_params_simps [simp]:
  "fq_Product (example_params n) = ''wow''" "fq_ArchiveName (example_params n) = ''0017''" "fq_Offset (example_params n) = 0"
  "fq_Length (example_params n) = n"
  by (simp_all add: example_params_def)

lemmas example_sizes = sums_ok_def length_md5_def stored_def size_mod_def sum_archive_def sum_header_def sum_entry_def be32_def
  BLTE_encode_sum



lemma Session_queue_empty_witness:
  "sn_outgoingQueue (BeginRead Session_new) = [] \<and> sn_reads (BeginRead Session_new) \<le> 1"
  using Session_queue_empty [of "example_session []" "BeginRead Session_new"] by (simp add: session_reachable_def)

end
