(* ===== verification/Orm.thy ===== *)
theory Orm
  imports Numbers
begin

text \<open>
  \<^verbatim>\<open>tactmon/backend/db/orm\<close>: SQL statements as C++ types. A type of the library is a term of \<open>component\<close>; its
  static function \<^verbatim>\<open>render_to\<close>, which appends the text of the component to what there is and counts the placeholders,
  is \<open>render\<close>, and its member type \<^verbatim>\<open>parameter_types\<close> is \<open>parameter_types\<close>. Types that do not compile have no value.
\<close>

datatype sql_type = uint32 | uint64 | text_type

datatype component =
    Column string sql_type
  | Of component string sql_type                            \<comment> \<open>\<^verbatim>\<open>Column<NAME, TYPE>::Of<PROJECTION>\<close>\<close>
  | Entity string string "component list"
  | Projection "component list"
  | Parameter                                      \<comment> \<open>before it is bound\<close>
  | BindParameter sql_type
  | BoundParameter nat
  | Constant nat
  | RawLiteral string
  | Where component
  | Conjunction "component list"
  | Disjunction "component list"
  | Offset component
  | Limit component
  | OrderClause component bool
  | OrderBy "component list"
  | GroupBy "component list"
  | BinaryCriteria string component component      \<comment> \<open>the parameter bound already\<close>
  | UnaryCriteria string string component
  | Function sql_type string "component list"
  | Selector string component
  | DistinctOn component component
  | Alias string component
  | AliasReference string
  | Over component component
  | PartitionBy component
  | SelectQuery component component "component list"
  | WithQuery component "component list"
  | CTE string bool component
  | InsertQuery component "component list" "component list"   \<comment> \<open>the columns and their values\<close>
  | OnConflict component component component
  | Returning component component
  | UpdateFromExcluded component "component list"  \<comment> \<open>the assignments\<close>
  | DoNothing
  | OnConstraint string
  | Set "component list"
  | UpdateQuery component component
  | UpdateWhere component component
  | DeleteQuery component component

section \<open>Digits\<close>

text \<open>\<^verbatim>\<open>Explode<V>::Value\<close>: the digits are collected until nothing is left, so that zero has none.\<close>

fun Explode :: "nat \<Rightarrow> string \<Rightarrow> string" where
  "Explode remainder digits = (if remainder = 0 then digits
     else Explode (remainder div 10) (char_of (48 + remainder mod 10) # digits))"

declare Explode.simps [simp del]

section \<open>Binding and building\<close>

text \<open>\<^verbatim>\<open>PARAMETER::BindToProjection<COMPONENT>\<close>, for a component with the given \<^verbatim>\<open>value_type\<close>.\<close>

fun value_type :: "component \<Rightarrow> sql_type option" where
  "value_type (Column name t) = Some t"
| "value_type (Of projection name t) = Some t"
| "value_type (Function t name components) = Some t"
| "value_type (Selector token component) = value_type component"
| "value_type (DistinctOn component criteria) = value_type component"
| "value_type (Alias token component) = value_type component"
| "value_type (Over component window) = value_type component"
| "value_type _ = None"

fun BindToProjection :: "component \<Rightarrow> component \<Rightarrow> component option" where
  "BindToProjection Parameter component = map_option BindParameter (value_type component)"
| "BindToProjection (BoundParameter i) component = Some (BoundParameter i)"
| "BindToProjection (Column name t) component = Some (Of component name t)"
| "BindToProjection (Of projection name t) component = Some (Of projection name t)"
| "BindToProjection _ _ = None"

definition Equals :: "component \<Rightarrow> component \<Rightarrow> component option" where
  "Equals component parameter = map_option (BinaryCriteria '' = '' component) (BindToProjection parameter component)"

definition GreaterThan :: "component \<Rightarrow> component \<Rightarrow> component option" where
  "GreaterThan component parameter = map_option (BinaryCriteria '' > '' component) (BindToProjection parameter component)"

definition LessThan :: "component \<Rightarrow> component \<Rightarrow> component option" where
  "LessThan component parameter = map_option (BinaryCriteria '' < '' component) (BindToProjection parameter component)"

definition Not :: "component \<Rightarrow> component" where
  "Not criteria = UnaryCriteria ''!('' '')'' criteria"

definition IsNull :: "component \<Rightarrow> component" where
  "IsNull component = UnaryCriteria ''('' '' IS NULL)'' component"

definition Count :: "component \<Rightarrow> component" where
  "Count component = Function uint64 ''COUNT'' [component]"

definition Distinct :: "component \<Rightarrow> component" where
  "Distinct component = Selector ''DISTINCT'' component"

definition Excluded :: component where "Excluded = RawLiteral ''EXCLUDED''"

text \<open>\<^verbatim>\<open>Entity::projection_type\<close>, the columns of the table.\<close>

fun projection_type :: "component \<Rightarrow> component option" where
  "projection_type (Entity name schema columns) =
     (if list_all (\<lambda>c. case c of Column _ _ \<Rightarrow> True | _ \<Rightarrow> False) columns
      then Some (Projection (map (\<lambda>c. case c of Column n t \<Rightarrow> Of (Entity name schema columns) n t | _ \<Rightarrow> c) columns))
      else None)"
| "projection_type _ = None"

text \<open>\<^verbatim>\<open>select::Query\<close>: with the entity as its projection, the columns of the entity are selected.\<close>

definition select_Query :: "component \<Rightarrow> component \<Rightarrow> component list \<Rightarrow> component option" where
  "select_Query projection entity components =
     (if projection = entity then map_option (\<lambda>p. SelectQuery p entity components) (projection_type entity)
      else Some (SelectQuery projection entity components))"

text \<open>A list of components that have to compile.\<close>

fun all_of :: "'a option list \<Rightarrow> 'a list option" where
  "all_of [] = Some []"
| "all_of (None # xs) = None"
| "all_of (Some x # xs) = map_option ((#) x) (all_of xs)"

text \<open>\<^verbatim>\<open>insert::Query<ENTITY, Value<COLUMN>...>\<close>.\<close>

definition insert_Query :: "component \<Rightarrow> component list \<Rightarrow> component option" where
  "insert_Query entity columns = map_option (InsertQuery entity columns) (all_of (map (BindToProjection Parameter) columns))"

definition UpdateFromExcluded_of :: "component \<Rightarrow> component list \<Rightarrow> component option" where
  "UpdateFromExcluded_of entity columns = map_option (UpdateFromExcluded entity)
     (all_of (map (\<lambda>c. case BindToProjection c Excluded of None \<Rightarrow> None | Some v \<Rightarrow> Equals c v) columns))"

section \<open>Rendering\<close>

type_synonym rendering = "(string \<times> nat) option"

definition rbind :: "rendering \<Rightarrow> (string \<Rightarrow> nat \<Rightarrow> rendering) \<Rightarrow> rendering" where
  "rbind r f = (case r of None \<Rightarrow> None | Some (s, u) \<Rightarrow> f s u)"

lemma rbind_cong [fundef_cong]:
  "r = r' \<Longrightarrow> (\<And>s u. r' = Some (s, u) \<Longrightarrow> f s u = g s u) \<Longrightarrow> rbind r f = rbind r' g"
  by (auto simp: rbind_def split: option.split)

lemma rbind_eq_Some: "rbind r f = Some x \<longleftrightarrow> (\<exists>s u. r = Some (s, u) \<and> f s u = Some x)"
  by (auto simp: rbind_def split: option.split)

lemma rbind_Some [simp]: "rbind (Some (s, u)) f = f s u"
  by (simp add: rbind_def)

text \<open>\<open>render_all\<close> is \<^verbatim>\<open>VariadicRenderable<TOKEN, COMPONENTS...>\<close>; the flag tells whether a component has been rendered.\<close>

fun render :: "component \<Rightarrow> string \<Rightarrow> nat \<Rightarrow> rendering"
and render_all :: "string \<Rightarrow> bool \<Rightarrow> component list \<Rightarrow> string \<Rightarrow> nat \<Rightarrow> rendering" where
  "render (Column name t) prev p = Some (prev @ '' '' @ name, p)"
| "render (Of projection name t) prev p = rbind (render projection prev p) (\<lambda>s u. Some (s @ ''.'' @ name, u))"
| "render (Entity name schema columns) prev p = Some (prev @ schema @ ''.'' @ name, p)"
| "render (Projection columns) prev p = render_all '', '' False columns prev p"
| "render Parameter prev p = None"
| "render (BindParameter t) prev p = Some (prev @ ''$'' @ Explode p [], p + 1)"
| "render (BoundParameter i) prev p = (if i < p then Some (prev @ ''$'' @ Explode i [], p) else None)"
| "render (Constant v) prev p = Some (prev @ Explode v [], p)"
| "render (RawLiteral keyword) prev p = Some (prev @ keyword, p)"
| "render (Where component) prev p = render component (prev @ ''WHERE '') p"
| "render (Conjunction components) prev p = rbind (render_all '' AND '' False components (prev @ ''('') p) (\<lambda>s u. Some (s @ '')'', u))"
| "render (Disjunction components) prev p = rbind (render_all '' OR '' False components (prev @ ''('') p) (\<lambda>s u. Some (s @ '')'', u))"
| "render (Offset component) prev p = render component (prev @ ''OFFSET '') p"
| "render (Limit component) prev p = render component (prev @ ''LIMIT '') p"
| "render (OrderClause component ascending) prev p = rbind (render component prev p) (\<lambda>s u. Some (if ascending then s @ '' ASC'' else s @ '' DESC'', u))"
| "render (OrderBy components) prev p = render_all '', '' False components (prev @ ''ORDER BY '') p"
| "render (GroupBy components) prev p = render_all '', '' False components (prev @ ''GROUP BY '') p"
| "render (BinaryCriteria token component parameter) prev p = rbind (render component prev p) (\<lambda>s u. render parameter (s @ token) u)"
| "render (UnaryCriteria first last' criteria) prev p = rbind (render criteria (prev @ first) p) (\<lambda>s u. Some (s @ last', u))"
| "render (Function t name components) prev p = rbind (render_all '', '' False components (prev @ name @ ''('') p) (\<lambda>s u. Some (s @ '')'', u))"
| "render (Selector token component) prev p = render component (prev @ token @ '' '') p"
| "render (DistinctOn component criteria) prev p = rbind (render criteria (prev @ ''DISTINCT ON ('') p) (\<lambda>s u. render component (s @ '') '') u)"
| "render (Alias token component) prev p = rbind (render component prev p) (\<lambda>s u. Some (s @ '' AS '' @ token, u))"
| "render (AliasReference token) prev p = Some (prev @ token, p)"
| "render (Over component window) prev p = rbind (render component prev p) (\<lambda>s u. rbind (render window (s @ '' OVER ('') u) (\<lambda>s u. Some (s @ '')'', u)))"
| "render (PartitionBy component) prev p = render component (prev @ ''PARTITION BY '') p"
| "render (SelectQuery projection entity components) prev p = rbind (render projection (prev @ ''SELECT '') p) (\<lambda>s u. rbind (render entity (s @ '' FROM '') u) (\<lambda>s u. render_all '' '' False components (if components \<noteq> [] then s @ '' '' else s) u))"
| "render (WithQuery query ctes) prev p = rbind (render_all '', '' False ctes (prev @ ''WITH '') p) (\<lambda>s u. render query (s @ '' '') u)"
| "render (CTE name recursive query) prev p = rbind (render query (prev @ (if recursive then ''RECURSIVE '' else []) @ name @ '' AS ('') p) (\<lambda>s u. Some (s @ '')'', u))"
| "render (InsertQuery entity columns values) prev p = rbind (render entity (prev @ ''INSERT INTO '') p) (\<lambda>s u. rbind (render_all '', '' False columns (s @ '' ('') u) (\<lambda>s u. rbind (render_all '', '' False values (s @ '') VALUES ('') u) (\<lambda>s u. Some (s @ '')'', u))))"
| "render (OnConflict query conflicting component) prev p = rbind (render query prev p) (\<lambda>s u. rbind (render conflicting (s @ '' ON CONFLICT ('') u) (\<lambda>s u. render component (s @ '') DO '') u))"
| "render (Returning query component) prev p = rbind (render query prev p) (\<lambda>s u. render component (s @ '' RETURNING '') u)"
| "render (UpdateFromExcluded entity assignments) prev p = render_all '', '' False assignments (prev @ ''UPDATE SET '') p"
| "render DoNothing prev p = Some (prev @ ''NOTHING'', p)"
| "render (OnConstraint name) prev p = Some (prev @ ''ON CONSTRAINT '' @ name, p)"
| "render (Set assignments) prev p = render_all '', '' False assignments (prev @ '' SET '') p"
| "render (UpdateQuery entity assignments) prev p = rbind (render entity (prev @ ''UPDATE '') p) (\<lambda>s u. render assignments (s @ '' '') u)"
| "render (UpdateWhere query criteria) prev p = rbind (render query prev p) (\<lambda>s u. render criteria (s @ '' WHERE '') u)"
| "render (DeleteQuery entity criteria) prev p = rbind (render entity (prev @ ''DELETE FROM'') p) (\<lambda>s u. render criteria (s @ '' '') u)"
| "render_all token seen [] prev p = Some (prev, p)"
| "render_all token seen (c # cs) prev p = rbind (render c (if seen then prev @ token else prev) p) (\<lambda>s u. render_all token True cs s u)"

text \<open>\<^verbatim>\<open>IQuery::AsString\<close>, without the zero behind it.\<close>

definition AsString :: "component \<Rightarrow> string option" where
  "AsString query = map_option fst (render query [] 1)"

text \<open>\<^verbatim>\<open>parameter_types\<close>, the types of the arguments that a statement takes. Raw text and \<^verbatim>\<open>DISTINCT ON\<close> do not declare any.\<close>

definition append_types :: "sql_type list option \<Rightarrow> sql_type list option \<Rightarrow> sql_type list option" where
  "append_types a b = (case a of None \<Rightarrow> None | Some xs \<Rightarrow> map_option ((@) xs) b)"

fun parameter_types :: "component \<Rightarrow> sql_type list option"
and all_types :: "component list \<Rightarrow> sql_type list option" where
  "parameter_types (Column name t) = Some []"
| "parameter_types (Of projection name t) = Some []"
| "parameter_types (Entity name schema columns) = all_types columns"
| "parameter_types (Projection columns) = all_types columns"
| "parameter_types Parameter = None"
| "parameter_types (BindParameter t) = Some [t]"
| "parameter_types (BoundParameter i) = Some []"
| "parameter_types (Constant v) = Some []"
| "parameter_types (RawLiteral keyword) = None"
| "parameter_types (Where component) = parameter_types component"
| "parameter_types (Conjunction components) = all_types components"
| "parameter_types (Disjunction components) = all_types components"
| "parameter_types (Offset component) = parameter_types component"
| "parameter_types (Limit component) = parameter_types component"
| "parameter_types (OrderClause component ascending) = parameter_types component"
| "parameter_types (OrderBy components) = all_types components"
| "parameter_types (GroupBy components) = all_types components"
| "parameter_types (BinaryCriteria token component parameter) = append_types (parameter_types component) (parameter_types parameter)"
| "parameter_types (UnaryCriteria first last' criteria) = parameter_types criteria"
| "parameter_types (Function t name components) = all_types components"
| "parameter_types (Selector token component) = parameter_types component"
| "parameter_types (DistinctOn component criteria) = None"
| "parameter_types (Alias token component) = parameter_types component"
| "parameter_types (AliasReference token) = Some []"
| "parameter_types (Over component window) = append_types (parameter_types component) (parameter_types window)"
| "parameter_types (PartitionBy component) = parameter_types component"
| "parameter_types (SelectQuery projection entity components) =
     append_types (parameter_types projection) (append_types (parameter_types entity) (all_types components))"
| "parameter_types (WithQuery query ctes) = append_types (all_types ctes) (parameter_types query)"
| "parameter_types (CTE name recursive query) = parameter_types query"
| "parameter_types (InsertQuery entity columns values) = append_types (parameter_types entity) (all_types values)"
| "parameter_types (OnConflict query conflicting component) = append_types (parameter_types query) (parameter_types component)"
| "parameter_types (Returning query component) = append_types (parameter_types query) (parameter_types component)"
| "parameter_types (UpdateFromExcluded entity assignments) = parameter_types entity"
| "parameter_types DoNothing = Some []"
| "parameter_types (OnConstraint name) = Some []"
| "parameter_types (Set assignments) = all_types assignments"
| "parameter_types (UpdateQuery entity assignments) = append_types (parameter_types entity) (parameter_types assignments)"
| "parameter_types (UpdateWhere query criteria) = append_types (parameter_types query) (parameter_types criteria)"
| "parameter_types (DeleteQuery entity criteria) = parameter_types criteria"
| "all_types [] = Some []"
| "all_types (c # cs) = append_types (parameter_types c) (all_types cs)"

lemma append_types_eq_Some: "append_types a b = Some ts \<longleftrightarrow> (\<exists>xs ys. a = Some xs \<and> b = Some ys \<and> ts = xs @ ys)"
  by (auto simp: append_types_def split: option.split)

section \<open>Texts with placeholders\<close>

text \<open>The text of a statement as pieces between placeholders.\<close>

datatype token = Text string | Placeholder nat

fun token_text :: "token \<Rightarrow> string" where
  "token_text (Text s) = s"
| "token_text (Placeholder n) = ''$'' @ print_nat n"

fun placeholders :: "token list \<Rightarrow> nat list" where
  "placeholders [] = []"
| "placeholders (Text s # ts) = placeholders ts"
| "placeholders (Placeholder n # ts) = n # placeholders ts"

definition clean :: "string \<Rightarrow> bool" where
  "clean s \<longleftrightarrow> CHR ''$'' \<notin> set s"

fun clean_token :: "token \<Rightarrow> bool" where
  "clean_token (Text s) = clean s"
| "clean_token (Placeholder n) = True"

text \<open>The text grows by pieces whose placeholders are \<open>k\<close>, ..., \<open>k' - 1\<close>, in that order.\<close>

definition extends :: "string \<Rightarrow> nat \<Rightarrow> string \<Rightarrow> nat \<Rightarrow> bool" where
  "extends prev k out k' \<longleftrightarrow> k \<le> k' \<and>
     (\<exists>ts. out = prev @ concat (map token_text ts) \<and> placeholders ts = [k..<k'] \<and> list_all clean_token ts)"

lemma clean_simps [simp]:
  "clean []" "clean (c # s) \<longleftrightarrow> c \<noteq> CHR ''$'' \<and> clean s" "clean (s @ t) \<longleftrightarrow> clean s \<and> clean t"
  by (auto simp: clean_def)

lemma placeholders_append [simp]: "placeholders (ts @ us) = placeholders ts @ placeholders us"
  by (induction ts rule: placeholders.induct) auto

lemma extends_trans: "extends a k b l \<Longrightarrow> extends b l c m \<Longrightarrow> extends a k c m"
proof -
  assume "extends a k b l" "extends b l c m"
  then obtain ts us where "k \<le> l" "b = a @ concat (map token_text ts)" "placeholders ts = [k..<l]" "list_all clean_token ts"
      "l \<le> m" "c = b @ concat (map token_text us)" "placeholders us = [l..<m]" "list_all clean_token us"
    by (auto simp: extends_def)
  then show "extends a k c m" unfolding extends_def
    by (intro conjI exI [of _ "ts @ us"]) (auto simp: upt_add_eq_append [symmetric] le_Suc_ex dest!: le_Suc_ex)
qed

lemma extends_text: "clean s \<Longrightarrow> extends a k (a @ s) k"
  unfolding extends_def by (intro conjI exI [of _ "[Text s]"]) auto

lemma extends_refl: "extends a k a k"
  using extends_text [of "[]" a k] by simp

lemma extends_before: "extends (a @ s) k b l \<Longrightarrow> clean s \<Longrightarrow> extends a k b l"
  by (rule extends_trans [OF extends_text])

lemma extends_behind: "extends a k b l \<Longrightarrow> clean s \<Longrightarrow> extends a k (b @ s) l"
  by (rule extends_trans [OF _ extends_text])

lemma Explode_print: "Explode n digits = (if n = 0 then digits else print_nat n @ digits)"
proof (induction n arbitrary: digits rule: less_induct)
  case (less n)
  show ?case
  proof (cases "n < 10")
    case True
    then show ?thesis by (simp add: Explode.simps [of n] Explode.simps [of 0] print_nat.simps [of n])
  next
    case False
    then show ?thesis using less [of "n div 10"] by (simp add: Explode.simps [of n] print_nat.simps [of n])
  qed
qed

lemma extends_placeholder: "0 < k \<Longrightarrow> extends a k (a @ ''$'' @ Explode k []) (Suc k)"
  unfolding extends_def by (intro conjI exI [of _ "[Placeholder k]"]) (auto simp: Explode_print)

lemma Explode_clean [simp]: "clean (Explode n [])"
  using print_nat_digits [of n] by (auto simp: Explode_print clean_def is_digit_def)

text \<open>Components without placeholders of their own: names of tables and columns.\<close>

fun is_name :: "component \<Rightarrow> bool" where
  "is_name (Column name t) \<longleftrightarrow> clean name"
| "is_name (Of (Entity name schema columns) c t) \<longleftrightarrow> clean name \<and> clean schema \<and> clean c"
| "is_name (Of (RawLiteral keyword) c t) \<longleftrightarrow> clean keyword \<and> clean c"
| "is_name (Entity name schema columns) \<longleftrightarrow> clean name \<and> clean schema \<and> list_all (\<lambda>c. case c of Column _ _ \<Rightarrow> True | _ \<Rightarrow> False) columns"
| "is_name _ \<longleftrightarrow> False"

text \<open>Statements in whose names there is no dollar, in which no placeholder is used twice, and which have placeholders only
  where the types of their arguments are looked for.\<close>

fun regular :: "component \<Rightarrow> bool"
and all_regular :: "component list \<Rightarrow> bool" where
  "regular (Column name t) \<longleftrightarrow> clean name"
| "regular (Of projection name t) \<longleftrightarrow> is_name (Of projection name t)"
| "regular (Entity name schema columns) \<longleftrightarrow> is_name (Entity name schema columns)"
| "regular (Projection columns) \<longleftrightarrow> all_regular columns"
| "regular Parameter \<longleftrightarrow> True"
| "regular (BindParameter t) \<longleftrightarrow> True"
| "regular (BoundParameter i) \<longleftrightarrow> False"
| "regular (Constant v) \<longleftrightarrow> True"
| "regular (RawLiteral keyword) \<longleftrightarrow> clean keyword"
| "regular (Where component) \<longleftrightarrow> regular component"
| "regular (Conjunction components) \<longleftrightarrow> all_regular components"
| "regular (Disjunction components) \<longleftrightarrow> all_regular components"
| "regular (Offset component) \<longleftrightarrow> regular component"
| "regular (Limit component) \<longleftrightarrow> regular component"
| "regular (OrderClause component ascending) \<longleftrightarrow> regular component"
| "regular (OrderBy components) \<longleftrightarrow> all_regular components"
| "regular (GroupBy components) \<longleftrightarrow> all_regular components"
| "regular (BinaryCriteria token component parameter) \<longleftrightarrow> clean token \<and> regular component \<and> regular parameter"
| "regular (UnaryCriteria first last' criteria) \<longleftrightarrow> clean first \<and> clean last' \<and> regular criteria"
| "regular (Function t name components) \<longleftrightarrow> clean name \<and> all_regular components"
| "regular (Selector token component) \<longleftrightarrow> clean token \<and> regular component"
| "regular (DistinctOn component criteria) \<longleftrightarrow> regular component \<and> regular criteria"
| "regular (Alias token component) \<longleftrightarrow> clean token \<and> regular component"
| "regular (AliasReference token) \<longleftrightarrow> clean token"
| "regular (Over component window) \<longleftrightarrow> regular component \<and> regular window"
| "regular (PartitionBy component) \<longleftrightarrow> regular component"
| "regular (SelectQuery projection entity components) \<longleftrightarrow> regular projection \<and> regular entity \<and> all_regular components"
| "regular (WithQuery query ctes) \<longleftrightarrow> regular query \<and> all_regular ctes"
| "regular (CTE name recursive query) \<longleftrightarrow> clean name \<and> regular query"
| "regular (InsertQuery entity columns values) \<longleftrightarrow> regular entity \<and> list_all is_name columns \<and> all_regular columns \<and> all_regular values"
| "regular (OnConflict query conflicting component) \<longleftrightarrow> regular query \<and> is_name conflicting \<and> regular conflicting \<and> regular component"
| "regular (Returning query component) \<longleftrightarrow> regular query \<and> regular component"
| "regular (UpdateFromExcluded entity assignments) \<longleftrightarrow> is_name entity \<and> all_regular assignments \<and>
     list_all (\<lambda>a. case a of BinaryCriteria token column value \<Rightarrow> is_name column \<and> is_name value | _ \<Rightarrow> False) assignments"
| "regular DoNothing \<longleftrightarrow> True"
| "regular (OnConstraint name) \<longleftrightarrow> clean name"
| "regular (Set assignments) \<longleftrightarrow> all_regular assignments"
| "regular (UpdateQuery entity assignments) \<longleftrightarrow> regular entity \<and> regular assignments"
| "regular (UpdateWhere query criteria) \<longleftrightarrow> regular query \<and> regular criteria"
| "regular (DeleteQuery entity criteria) \<longleftrightarrow> is_name entity \<and> regular entity \<and> regular criteria"
| "all_regular [] \<longleftrightarrow> True"
| "all_regular (c # cs) \<longleftrightarrow> regular c \<and> all_regular cs"

definition appends :: "string \<Rightarrow> nat \<Rightarrow> rendering \<Rightarrow> bool" where
  "appends a k r \<longleftrightarrow> (0 < k \<longrightarrow> (case r of None \<Rightarrow> True | Some (s, u) \<Rightarrow> extends a k s u))"

lemma appends_bind:
  assumes "appends a k r" and "\<And>s u. r = Some (s, u) \<Longrightarrow> appends s u (f s u)"
  shows "appends a k (rbind r f)"
proof (cases r)
  case (Some x)
  obtain s u where su: "r = Some (s, u)" using Some by (cases x) auto
  show ?thesis
  proof (cases "0 < k")
    case True
    have e: "extends a k s u" using assms(1) su True by (simp add: appends_def)
    then have "0 < u" using True by (simp add: extends_def)
    then show ?thesis
      using assms(2) [OF su] su True extends_trans [OF e] by (auto simp: appends_def split: option.splits)
  qed (simp add: appends_def)
qed (simp add: appends_def rbind_def)

lemma appends_Some: "clean t \<Longrightarrow> appends a k (Some (a @ t, k))" "appends a k (Some (a, k))"
  "appends a k (Some (a @ CHR ''$'' # Explode k [], Suc k))" "appends a k None"
  using extends_placeholder [of k a] by (simp_all add: appends_def extends_text extends_refl)

lemma appends_behind:
  "appends (a @ t) k (render c (a @ t) k) \<Longrightarrow> clean t \<Longrightarrow> appends a k (render c (a @ t) k)"
  "appends (a @ t) k (render_all token b cs (a @ t) k) \<Longrightarrow> clean t \<Longrightarrow> appends a k (render_all token b cs (a @ t) k)"
  by (auto simp: appends_def split: option.splits intro: extends_before)

lemma render_appends:
  "regular q \<Longrightarrow> appends prev p (render q prev p)"
  "all_regular cs \<Longrightarrow> clean token \<Longrightarrow> appends prev p (render_all token seen cs prev p)"
proof (induction q prev p and token seen cs prev p rule: render_render_all.induct)
  case (2 projection name t prev p)
  then show ?case by (cases projection) (auto simp: appends_def intro: extends_text)
next
  case (27 projection entity components prev p)
  then show ?case
    by (cases "components = []") (auto intro!: appends_bind appends_Some appends_behind)
next
  case (41 token seen c cs prev p)
  then show ?case
    by (cases seen) (auto intro!: appends_bind appends_Some appends_behind)
qed (auto intro!: appends_bind appends_Some appends_behind)

lemma render_extends: "regular q \<Longrightarrow> 0 < p \<Longrightarrow> render q prev p = Some (out, u) \<Longrightarrow> extends prev p out u"
  using render_appends(1) [of q prev p] by (simp add: appends_def)

lemma render_name: "is_name c \<Longrightarrow> render c prev p = Some (out, u) \<Longrightarrow> u = p"
  by (cases c rule: is_name.cases) (auto simp: rbind_eq_Some)

lemma render_names: "list_all is_name cs \<Longrightarrow> render_all token seen cs prev p = Some (out, u) \<Longrightarrow> u = p"
  by (induction cs arbitrary: seen prev) (auto simp: rbind_eq_Some dest: render_name)

lemma render_assignments:
  "list_all (\<lambda>a. case a of BinaryCriteria token column value \<Rightarrow> is_name column \<and> is_name value | _ \<Rightarrow> False) cs \<Longrightarrow>
    render_all token seen cs prev p = Some (out, u) \<Longrightarrow> u = p"
  by (induction cs arbitrary: seen prev) (auto simp: rbind_eq_Some split: component.splits dest!: render_name)

lemma column_types: "list_all (\<lambda>c. case c of Column _ _ \<Rightarrow> True | _ \<Rightarrow> False) cs \<Longrightarrow> all_types cs = Some []"
  by (induction cs) (auto simp: append_types_def split: component.splits)

lemma name_types: "is_name c \<Longrightarrow> parameter_types c = Some ts \<Longrightarrow> ts = []"
  by (cases c rule: is_name.cases) (auto simp: column_types)

definition counts :: "nat \<Rightarrow> nat \<Rightarrow> rendering \<Rightarrow> bool" where
  "counts n k r \<longleftrightarrow> (case r of None \<Rightarrow> True | Some (s, u) \<Rightarrow> u = k + n)"

lemma counts_simps: "counts n k (Some (s, u)) \<longleftrightarrow> u = k + n" "counts n k None"
  by (simp_all add: counts_def)

lemma counts_bind: "counts m k r \<Longrightarrow> (\<And>s u. r = Some (s, u) \<Longrightarrow> counts n u (f s u)) \<Longrightarrow> counts (m + n) k (rbind r f)"
  by (auto simp: counts_def rbind_def split: option.splits)

lemma counts_text: "counts n k r \<Longrightarrow> counts n k (rbind r (\<lambda>s u. Some (g s, u)))"
  by (auto simp: counts_def rbind_def split: option.splits)

lemma counts_name: "is_name c \<Longrightarrow> counts 0 p (render c prev p)" "list_all is_name cs \<Longrightarrow> counts 0 p (render_all token seen cs prev p)"
  by (auto simp: counts_def dest: render_name render_names split: option.split)

lemma render_counts:
  "regular q \<Longrightarrow> parameter_types q = Some ts \<Longrightarrow> counts (length ts) p (render q prev p)"
  "all_regular cs \<Longrightarrow> all_types cs = Some us \<Longrightarrow> counts (length us) p (render_all token seen cs prev p)"
proof (induction q prev p and token seen cs prev p arbitrary: ts and us rule: render_render_all.induct)
  case (2 projection name t prev p)
  then show ?case by (cases projection) (auto simp: counts_def)
next
  case (3 name schema columns prev p)
  then show ?case by (auto simp: column_types counts_def)
next
  case (30 entity columns vs prev p)
  then obtain te tv where ts: "ts = te @ tv" "parameter_types entity = Some te" "all_types vs = Some tv"
    by (auto simp: append_types_eq_Some)
  have "counts (length te + (0 + length tv)) p (render (InsertQuery entity columns vs) prev p)"
    unfolding render.simps using 30 ts by (intro counts_bind counts_name counts_text) auto
  then show ?case using ts(1) by simp
next
  case (31 query conflicting component prev p)
  then obtain tq tc where ts: "ts = tq @ tc" "parameter_types query = Some tq" "parameter_types component = Some tc"
    by (auto simp: append_types_eq_Some)
  have "counts (length tq + (0 + length tc)) p (render (OnConflict query conflicting component) prev p)"
    unfolding render.simps using 31 ts by (intro counts_bind counts_name) auto
  then show ?case using ts(1) by simp
next
  case (33 entity assignments prev p)
  then have "counts 0 p (render (UpdateFromExcluded entity assignments) prev p)"
    by (auto simp: counts_def dest: render_assignments split: option.split)
  moreover have "ts = []" using 33(2,3) name_types [of entity ts] by auto
  ultimately show ?case by simp
next
  case (6 t prev p)
  then show ?case by (auto simp: counts_def)
next
  case (39 entity criteria prev p)
  then have "counts (0 + length ts) p (render (DeleteQuery entity criteria) prev p)"
    unfolding render.simps by (intro counts_bind counts_name) auto
  then show ?case by simp
qed (auto simp: append_types_eq_Some counts_simps intro!: counts_bind counts_text)

text \<open>C25: the arguments of a statement and its placeholders fit. The text of a statement holds the placeholders \<open>$k\<close>, \<open>$(k + 1)\<close>, ...,
  each once and in this order, and no other dollar; there are as many as \<^verbatim>\<open>parameter_types\<close> has types, so that each argument
  that a prepared statement takes is bound.\<close>

theorem render_numbered:
  assumes "regular q" and "0 < k" and "render q prev k = Some (out, k')" and "parameter_types q = Some ts"
  shows "k' = k + length ts \<and> (\<exists>tokens. out = prev @ concat (map token_text tokens) \<and> placeholders tokens = [k..<k'] \<and>
    list_all clean_token tokens)"
  using render_extends [OF assms(1-3)] render_counts(1) [OF assms(1,4), where prev = prev and p = k] assms(3)
  by (simp add: extends_def counts_def)

definition example_conjunction :: component where
  "example_conjunction = Conjunction [BinaryCriteria '' = '' (Column ''a'' uint32) (BindParameter uint32),
     BinaryCriteria '' = '' (Column ''b'' text_type) (BindParameter text_type)]"

lemma render_numbered_witness:
  "\<exists>tokens. ''( a = $2 AND  b = $3)'' = concat (map token_text tokens) \<and> placeholders tokens = [2..<4] \<and> list_all clean_token tokens"
proof -
  have "regular example_conjunction" "render example_conjunction [] 2 = Some (''( a = $2 AND  b = $3)'', 4)"
    "parameter_types example_conjunction = Some [uint32, text_type]"
    by code_simp+
  then show ?thesis using render_numbered [of example_conjunction 2 "[]"] by fastforce
qed

end
