(* ===== verification/Statements.thy ===== *)
theory Statements
  imports Orm
begin

text \<open>
  \<^verbatim>\<open>tactmon/backend/db/entity\<close>: the tables of the service and the statements it prepares.
\<close>

section \<open>Products\<close>

definition product_id :: component where "product_id = Column ''id'' uint32"
definition product_name :: component where "product_name = Column ''name'' text_type"
definition product_sequence_id :: component where "product_sequence_id = Column ''sequence_id'' uint64"

definition product_Entity :: component where
  "product_Entity = Entity ''products'' ''public'' [product_id, product_name, product_sequence_id]"

definition product_Select :: "component option" where
  "product_Select = select_Query product_Entity product_Entity []"

definition product_SelByName :: "component option" where
  "product_SelByName = Option.bind (Equals product_name Parameter) (\<lambda>e. select_Query product_Entity product_Entity [Where e])"

definition product_SelById :: "component option" where
  "product_SelById = Option.bind (Equals product_id Parameter) (\<lambda>e. select_Query product_Entity product_Entity [Where e])"

definition product_Insert :: "component option" where
  "product_Insert = insert_Query product_Entity [product_name, product_sequence_id]"

definition product_Update :: "component option" where
  "product_Update = Option.bind (Equals product_sequence_id Parameter) (\<lambda>s. Option.bind (Equals product_name Parameter) (\<lambda>n.
     Some (UpdateWhere (UpdateQuery product_Entity (Set [s])) n)))"

section \<open>Builds\<close>

definition build_id :: component where "build_id = Column ''id'' uint32"
definition build_product_name :: component where "build_product_name = Column ''product_name'' text_type"
definition build_build_name :: component where "build_build_name = Column ''build_name'' text_type"
definition build_build_config :: component where "build_build_config = Column ''build_config'' text_type"
definition build_cdn_config :: component where "build_cdn_config = Column ''cdn_config'' text_type"
definition build_detected_at :: component where "build_detected_at = Column ''detected_at'' uint64"
definition build_region :: component where "build_region = Column ''region'' text_type"

definition build_Entity :: component where
  "build_Entity = Entity ''builds'' ''public'' [build_id, build_product_name, build_build_name, build_build_config,
     build_cdn_config, build_detected_at, build_region]"

definition id_count :: component where
  "id_count = Alias ''id_count'' (Over (Count build_id) (PartitionBy build_product_name))"

definition BuildName :: component where "BuildName = Projection [build_id, build_build_name]"

definition BuildStatistics :: component where
  "BuildStatistics = Projection [id_count, build_build_name, build_detected_at, build_build_config, build_cdn_config]"

definition build_Select :: "component option" where
  "build_Select = select_Query build_Entity build_Entity []"

definition build_SelByName :: "component option" where
  "build_SelByName = Option.bind (Equals build_build_name Parameter) (\<lambda>b. Option.bind (Equals build_region Parameter) (\<lambda>r.
     select_Query build_Entity build_Entity [Where (Conjunction [b, r])]))"

definition build_SelById :: "component option" where
  "build_SelById = Option.bind (Equals build_id Parameter) (\<lambda>e. select_Query build_Entity build_Entity [Where e])"

definition build_SelByProduct :: "component option" where
  "build_SelByProduct = Option.bind (Equals build_product_name Parameter) (\<lambda>e. select_Query BuildName build_Entity [Where e])"

definition build_SelStatistics :: "component option" where
  "build_SelStatistics = Option.bind (Equals build_product_name Parameter) (\<lambda>e. select_Query BuildStatistics build_Entity
     [Where e, OrderBy [OrderClause build_id False], Limit (Constant 1), Offset (Constant 0)])"

definition build_Insert :: "component option" where
  "build_Insert = Option.bind (insert_Query build_Entity [build_region, build_product_name, build_build_name, build_build_config,
     build_cdn_config, build_detected_at]) (\<lambda>q. map_option (Returning q) (projection_type build_Entity))"

section \<open>Channels, files and commands\<close>

definition channel_guild_id :: component where "channel_guild_id = Column ''guild_id'' uint64"
definition channel_channel_id :: component where "channel_channel_id = Column ''channel_id'' uint64"
definition channel_product_name :: component where "channel_product_name = Column ''product_name'' text_type"

definition channel_Entity :: component where
  "channel_Entity = Entity ''bound_channels'' ''public'' [Column ''id'' uint32, channel_guild_id, channel_channel_id, channel_product_name]"

definition channel_Select :: "component option" where
  "channel_Select = select_Query channel_Entity channel_Entity []"

definition channel_Insert :: "component option" where
  "channel_Insert = insert_Query channel_Entity [channel_guild_id, channel_channel_id, channel_product_name]"

definition channel_Delete :: "component option" where
  "channel_Delete = Option.bind (Equals channel_channel_id Parameter) (\<lambda>c. Option.bind (Equals channel_product_name Parameter) (\<lambda>p.
     Some (DeleteQuery channel_Entity (Where (Conjunction [c, p])))))"

definition file_product_name :: component where "file_product_name = Column ''product_name'' text_type"
definition file_file_path :: component where "file_file_path = Column ''file_path'' text_type"
definition file_display_name :: component where "file_display_name = Column ''display_name'' text_type"

definition file_Entity :: component where
  "file_Entity = Entity ''tracked_files'' ''public'' [Column ''id'' uint32, file_product_name, file_file_path, file_display_name]"

definition file_Select :: "component option" where
  "file_Select = select_Query file_Entity file_Entity []"

definition file_Insert :: "component option" where
  "file_Insert = insert_Query file_Entity [file_product_name, file_file_path, file_display_name]"

definition file_Delete :: "component option" where
  "file_Delete = Option.bind (Equals file_product_name Parameter) (\<lambda>p. Option.bind (Equals file_file_path Parameter) (\<lambda>f.
     Some (DeleteQuery file_Entity (Where (Conjunction [p, f])))))"

definition command_id :: component where "command_id = Column ''id'' uint32"
definition command_name :: component where "command_name = Column ''name'' text_type"
definition command_hash :: component where "command_hash = Column ''hash'' uint64"
definition command_version :: component where "command_version = Column ''version'' uint32"

definition command_Entity :: component where
  "command_Entity = Entity ''command_states'' ''public'' [command_id, command_name, command_hash, command_version]"

definition command_Select :: "component option" where
  "command_Select = select_Query command_Entity command_Entity []"

definition command_SelectByName :: "component option" where
  "command_SelectByName = Option.bind (Equals command_name Parameter) (\<lambda>e. select_Query command_Entity command_Entity [Where e])"

definition command_InsertOrUpdate :: "component option" where
  "command_InsertOrUpdate = Option.bind (insert_Query command_Entity [command_name, command_hash, command_version]) (\<lambda>q.
     map_option (OnConflict q command_id) (UpdateFromExcluded_of command_Entity [command_name, command_hash, command_version]))"

section \<open>Their texts\<close>

lemmas statement_defs = product_id_def product_name_def product_sequence_id_def product_Entity_def product_Select_def product_SelByName_def
  product_SelById_def product_Insert_def product_Update_def build_id_def build_product_name_def build_build_name_def
  build_build_config_def build_cdn_config_def build_detected_at_def build_region_def build_Entity_def id_count_def BuildName_def
  BuildStatistics_def build_Select_def build_SelByName_def build_SelById_def build_SelByProduct_def build_SelStatistics_def build_Insert_def
  channel_guild_id_def channel_channel_id_def channel_product_name_def channel_Entity_def channel_Select_def channel_Insert_def
  channel_Delete_def file_product_name_def file_file_path_def file_display_name_def file_Entity_def file_Select_def file_Insert_def
  file_Delete_def command_id_def command_name_def command_hash_def command_version_def command_Entity_def command_Select_def command_SelectByName_def
  command_InsertOrUpdate_def

lemmas building_defs = Equals_def select_Query_def insert_Query_def UpdateFromExcluded_of_def Excluded_def Count_def

definition statement_text :: "component option \<Rightarrow> string option" where
  "statement_text q = Option.bind q AsString"

definition statement_types :: "component option \<Rightarrow> sql_type list option" where
  "statement_types q = Option.bind q parameter_types"

definition statements :: "component option list" where
  "statements = [product_Select, product_SelByName, product_SelById, product_Insert, product_Update,
     build_Select, build_SelByName, build_SelById, build_SelByProduct, build_SelStatistics, build_Insert,
     channel_Select, channel_Insert, channel_Delete, file_Select, file_Insert, file_Delete,
     command_Select, command_SelectByName, command_InsertOrUpdate]"

text \<open>Every statement of the service compiles, has placeholders as \<open>render_numbered\<close> demands, and takes the arguments with which the
  repositories call it, in the order of the columns: names and numbers of products, the parts of a build, and so on.\<close>

theorem Statements_typed:
  "list_all (\<lambda>q. case q of None \<Rightarrow> False | Some c \<Rightarrow> regular c \<and> render c [] 1 \<noteq> None) statements \<and>
   map statement_types statements = map Some [[], [text_type], [uint32], [text_type, uint64], [uint64, text_type],
     [], [text_type, text_type], [uint32], [text_type], [text_type], [text_type, text_type, text_type, text_type, text_type, uint64],
     [], [uint64, uint64, text_type], [uint64, text_type], [], [text_type, text_type, text_type], [text_type, text_type],
     [], [text_type], [text_type, uint64, uint32]]"
  by code_simp


end
