(* ===== verification/Tuple.thy ===== *)
theory Tuple
  imports Prelude "HOL-Library.Multiset"
begin

text \<open>
  \<^verbatim>\<open>tactmon/utility/Tuple.hpp\<close>: a tuple whose elements are laid out by alignment. The leaves of a tuple are a list in the order of
  the base classes; each knows its place in that order and the index by which the element is accessed. Types are values
  of \<open>'t\<close> with an alignment. The sort of Boost.Mp11 is a parameter, of which it is used only that it permutes a list.
\<close>

section \<open>Layout\<close>

record ('t, 'v) tuple_leaf =
  class_layout_index :: nat
  interface_index :: nat
  leaf_type :: 't
  stored :: 'v

text \<open>\<^verbatim>\<open>indexed<I, T>\<close> is the pair of both.\<close>

type_synonym 't indexed = "nat \<times> 't"

definition indexed_types :: "'t list \<Rightarrow> 't indexed list" where
  "indexed_types ts = zip [0..<length ts] ts"

definition sort_pred :: "('t \<Rightarrow> nat) \<Rightarrow> 't indexed \<Rightarrow> 't indexed \<Rightarrow> bool" where
  "sort_pred alignment_of l r \<longleftrightarrow> alignment_of (snd l) \<ge> alignment_of (snd r)"

type_synonym 't mp_sort = "('t indexed \<Rightarrow> 't indexed \<Rightarrow> bool) \<Rightarrow> 't indexed list \<Rightarrow> 't indexed list"

definition indexed_sort :: "('t \<Rightarrow> nat) \<Rightarrow> 't mp_sort \<Rightarrow> 't indexed list \<Rightarrow> 't indexed indexed list" where
  "indexed_sort alignment_of mp_sort ins = zip [0..<length ins] (mp_sort (sort_pred alignment_of) ins)"

definition tuple_storage :: "('t \<Rightarrow> nat) \<Rightarrow> 't mp_sort \<Rightarrow> 't list \<Rightarrow> 't indexed indexed list" where
  "tuple_storage alignment_of mp_sort ts = indexed_sort alignment_of mp_sort (indexed_types ts)"

section \<open>Construction and access\<close>

text \<open>
  The leaf of a front-facing index is initialised by the argument with this index, a leaf without an argument by the default.
  An argument without a leaf does not compile.
\<close>

definition tuple_new :: "('t \<Rightarrow> nat) \<Rightarrow> 't mp_sort \<Rightarrow> ('t \<Rightarrow> 'v) \<Rightarrow> 't list \<Rightarrow> 'v list \<Rightarrow> ('t, 'v) tuple_leaf list option" where
  "tuple_new alignment_of mp_sort default_of ts arguments = (if length ts < length arguments then None
     else Some (map (\<lambda>(out, index, t). \<lparr>class_layout_index = out, interface_index = index, leaf_type = t,
            stored = (if index < length arguments then arguments ! index else default_of t)\<rparr>)
          (tuple_storage alignment_of mp_sort ts)))"

text \<open>Overload resolution: the one base class that fits.\<close>

definition the_leaf :: "(('t, 'v) tuple_leaf \<Rightarrow> bool) \<Rightarrow> ('t, 'v) tuple_leaf list \<Rightarrow> ('t, 'v) tuple_leaf option" where
  "the_leaf P leaves = (case filter P leaves of [l] \<Rightarrow> Some l | _ \<Rightarrow> None)"

definition get_index :: "nat \<Rightarrow> ('t, 'v) tuple_leaf list \<Rightarrow> 'v option" where
  "get_index i leaves = map_option stored (the_leaf (\<lambda>l. interface_index l = i) leaves)"

definition get_type :: "'t \<Rightarrow> ('t, 'v) tuple_leaf list \<Rightarrow> 'v option" where
  "get_type t leaves = map_option stored (the_leaf (\<lambda>l. leaf_type l = t) leaves)"

definition tuple_element :: "nat \<Rightarrow> ('t, 'v) tuple_leaf list \<Rightarrow> 't option" where
  "tuple_element i leaves = map_option leaf_type (the_leaf (\<lambda>l. interface_index l = i) leaves)"

definition tuple_swap :: "('t, 'v) tuple_leaf list \<Rightarrow> ('t, 'v) tuple_leaf list \<Rightarrow> ('t, 'v) tuple_leaf list \<times> ('t, 'v) tuple_leaf list" where
  "tuple_swap leaves others =
     (map2 (\<lambda>l r. l\<lparr>stored := stored r\<rparr>) leaves others, map2 (\<lambda>l r. r\<lparr>stored := stored l\<rparr>) leaves others)"

section \<open>Concatenation\<close>

text \<open>\<^verbatim>\<open>tuple_cat_index_gen\<close>: for each element of the result the tuple that it is taken from, and its index there. The arrays are not
  initialised.\<close>

type_synonym cat_arrays = "nat option list \<times> nat option list \<times> nat"

definition cat_put :: "nat \<Rightarrow> cat_arrays \<times> nat \<Rightarrow> (cat_arrays \<times> nat) result" where
  "cat_put i = (\<lambda>((inner, outer, globalIndex), j).
     bindr (set_at inner globalIndex (Some i)) (\<lambda>inner.
     bindr (set_at outer globalIndex (Some j)) (\<lambda>outer.
     Inr ((inner, outer, globalIndex + 1), j + 1))))"

definition cat_tuple :: "nat \<Rightarrow> cat_arrays \<times> nat \<Rightarrow> (cat_arrays \<times> nat) result" where
  "cat_tuple tuple_size = (\<lambda>(arrays, i). bindr (loopr tuple_size (cat_put i) (arrays, 0)) (\<lambda>(arrays, j). Inr (arrays, i + 1)))"

definition initialised :: "'a option list \<Rightarrow> 'a list result" where
  "initialised xs = (if None \<in> set xs then Inl Uninitialized else Inr (map the xs))"

definition tuple_cat_index_gen :: "nat list \<Rightarrow> (nat list \<times> nat list) result" where
  "tuple_cat_index_gen tuple_sizes = (let elem_count = sum_list tuple_sizes in
     bindr (foldr_res cat_tuple tuple_sizes ((replicate elem_count None, replicate elem_count None, 0), 0)) (\<lambda>((inner, outer, _), _).
     bindr (initialised inner) (\<lambda>inner. bindr (initialised outer) (\<lambda>outer. Inr (inner, outer)))))"

text \<open>The alignment of a tuple is that of its leaf with the strictest.\<close>

definition tuple_alignment :: "('t \<Rightarrow> nat) \<Rightarrow> 't list \<Rightarrow> nat" where
  "tuple_alignment alignment_of ts = fold max (map alignment_of ts) 1"

fun all_some :: "'a option list \<Rightarrow> 'a list option" where
  "all_some [] = Some []"
| "all_some (None # xs) = None"
| "all_some (Some x # xs) = map_option ((#) x) (all_some xs)"

text \<open>A tuple with its type. The tuple of the tuples is laid out by alignment, too.\<close>

type_synonym ('t, 'v) tuple = "'t list \<times> ('t, 'v) tuple_leaf list"

definition tuple_cat_impl :: "('t \<Rightarrow> nat) \<Rightarrow> 't mp_sort \<Rightarrow> ('t \<Rightarrow> 'v) \<Rightarrow> nat list \<Rightarrow> nat list \<Rightarrow>
    ('t list, ('t, 'v) tuple_leaf list) tuple_leaf list \<Rightarrow> ('t, 'v) tuple option" where
  "tuple_cat_impl alignment_of mp_sort default_of inner outer ts = (let indices = zip inner outer;
     types = all_some (map (\<lambda>(i, j). Option.bind (get_index i ts) (tuple_element j)) indices);
     elements = all_some (map (\<lambda>(i, j). Option.bind (get_index i ts) (get_index j)) indices)
   in case (types, elements) of
     (Some types, Some elements) \<Rightarrow> map_option (Pair types) (tuple_new alignment_of mp_sort default_of types elements)
   | _ \<Rightarrow> None)"

definition tuple_cat :: "('t \<Rightarrow> nat) \<Rightarrow> 't mp_sort \<Rightarrow> 't list mp_sort \<Rightarrow> ('t \<Rightarrow> 'v) \<Rightarrow> ('t, 'v) tuple list \<Rightarrow> ('t, 'v) tuple option" where
  "tuple_cat alignment_of mp_sort mp_sort_tuples default_of tuples = (let elem_count = sum_list (map (length \<circ> fst) tuples) in
     if elem_count = 0 then map_option (Pair []) (tuple_new alignment_of mp_sort default_of [] [])
     else case tuple_cat_index_gen (map (length \<circ> fst) tuples) of
       Inl e \<Rightarrow> None
     | Inr (inner, outer) \<Rightarrow> Option.bind (tuple_new (tuple_alignment alignment_of) mp_sort_tuples (\<lambda>_. []) (map fst tuples) (map snd tuples))
         (tuple_cat_impl alignment_of mp_sort default_of inner outer))"

section \<open>Tuples as lists\<close>

text \<open>What a tuple promises: it is the list of its elements, by index.\<close>

definition holds :: "'t list \<Rightarrow> 'v list \<Rightarrow> ('t, 'v) tuple_leaf list \<Rightarrow> bool" where
  "holds ts vs leaves \<longleftrightarrow> length vs = length ts \<and>
     mset (map (\<lambda>l. (interface_index l, leaf_type l, stored l)) leaves) = mset (zip [0..<length ts] (zip ts vs))"

definition permutes :: "'t mp_sort \<Rightarrow> bool" where
  "permutes mp_sort \<longleftrightarrow> (\<forall>P xs. mset (mp_sort P xs) = mset xs)"

lemma permutes_length: "permutes mp_sort \<Longrightarrow> length (mp_sort P xs) = length xs"
  unfolding permutes_def by (blast intro: mset_eq_length)

lemma storage_mset:
  assumes "permutes mp_sort"
  shows "mset (map snd (tuple_storage alignment_of mp_sort ts)) = mset (zip [0..<length ts] ts)"
proof -
  have "map snd (tuple_storage alignment_of mp_sort ts) = mp_sort (sort_pred alignment_of) (indexed_types ts)"
    unfolding tuple_storage_def indexed_sort_def by (rule map_snd_zip) (simp add: permutes_length [OF assms])
  then show ?thesis using assms by (simp only: permutes_def indexed_types_def)
qed

lemma tuple_new_holds:
  assumes "permutes mp_sort" and "length vs = length ts"
  obtains leaves where "tuple_new alignment_of mp_sort default_of ts vs = Some leaves" and "holds ts vs leaves"
proof
  define key where "key = (\<lambda>(i, t). (i, t, if i < length vs then vs ! i else default_of t))"
  let ?leaves = "the (tuple_new alignment_of mp_sort default_of ts vs)"
  have "map (\<lambda>l. (interface_index l, leaf_type l, stored l)) ?leaves = map key (map snd (tuple_storage alignment_of mp_sort ts))"
    using assms by (auto simp: tuple_new_def key_def)
  then have "mset (map (\<lambda>l. (interface_index l, leaf_type l, stored l)) ?leaves) =
      mset (map key (map snd (tuple_storage alignment_of mp_sort ts)))"
    by (rule arg_cong)
  also have "\<dots> = image_mset key (mset (map snd (tuple_storage alignment_of mp_sort ts)))" by (rule mset_map)
  also have "\<dots> = image_mset key (mset (zip [0..<length ts] ts))" by (simp only: storage_mset [OF assms(1)])
  also have "\<dots> = mset (map key (zip [0..<length ts] ts))" by (rule mset_map [symmetric])
  also have "map key (zip [0..<length ts] ts) = zip [0..<length ts] (zip ts vs)"
    using assms(2) by (intro nth_equalityI) (auto simp: key_def)
  finally show "holds ts vs ?leaves" using assms(2) by (simp add: holds_def)
  show "tuple_new alignment_of mp_sort default_of ts vs = Some ?leaves"
    using assms(2) by (simp add: tuple_new_def)
qed

lemma holds_filter:
  assumes "holds ts vs leaves"
  shows "mset (map (\<lambda>l. (interface_index l, leaf_type l, stored l)) (filter (\<lambda>l. P (interface_index l) (leaf_type l)) leaves)) =
    mset (filter (\<lambda>(i, t, v). P i t) (zip [0..<length ts] (zip ts vs)))"
proof -
  let ?key = "\<lambda>l :: ('a, 'b) tuple_leaf. (interface_index l, leaf_type l, stored l)"
  have "map ?key (filter (\<lambda>l. P (interface_index l) (leaf_type l)) leaves) = filter (\<lambda>(i, t, v). P i t) (map ?key leaves)"
    by (simp add: filter_map comp_def)
  then show ?thesis using assms by (simp add: holds_def mset_filter)
qed

lemma filter_index: "filter (\<lambda>x. fst x = i) (zip [0..<length xs] xs) = (if i < length xs then [(i, xs ! i)] else [])"
proof (induction xs rule: rev_induct)
  case (snoc x xs)
  then show ?case by (auto simp: nth_append)
qed simp

lemma the_leaf_single:
  assumes "holds ts vs leaves" and "filter (\<lambda>(i, t, v). P i t) (zip [0..<length ts] (zip ts vs)) = [(i, t, v)]"
  obtains l where "the_leaf (\<lambda>l. P (interface_index l) (leaf_type l)) leaves = Some l" and "leaf_type l = t" and "stored l = v"
proof -
  have "map (\<lambda>l. (interface_index l, leaf_type l, stored l)) (filter (\<lambda>l. P (interface_index l) (leaf_type l)) leaves) = [(i, t, v)]"
    using holds_filter [OF assms(1), of P] unfolding assms(2) by (simp only: mset.simps mset_single_iff add_mset_commute)
  then obtain l where "filter (\<lambda>l. P (interface_index l) (leaf_type l)) leaves = [l]" "(interface_index l, leaf_type l, stored l) = (i, t, v)"
    by auto
  then show ?thesis using that [of l] by (simp add: the_leaf_def)
qed

lemma the_leaf_none:
  assumes "holds ts vs leaves" and "length (filter (\<lambda>(i, t, v). P i t) (zip [0..<length ts] (zip ts vs))) \<noteq> 1"
  shows "the_leaf (\<lambda>l. P (interface_index l) (leaf_type l)) leaves = None"
proof -
  have "length (filter (\<lambda>l. P (interface_index l) (leaf_type l)) leaves) \<noteq> 1"
    using mset_eq_length [OF holds_filter [OF assms(1), of P]] assms(2) by simp
  then show ?thesis by (auto simp: the_leaf_def split: list.split)
qed

lemma get_index_holds:
  assumes "holds ts vs leaves"
  shows "get_index i leaves = (if i < length ts then Some (vs ! i) else None)"
    and "tuple_element i leaves = (if i < length ts then Some (ts ! i) else None)"
proof -
  have eq: "filter (\<lambda>(j, t, v). j = i) (zip [0..<length ts] (zip ts vs)) = (if i < length ts then [(i, ts ! i, vs ! i)] else [])"
    using filter_index [of i "zip ts vs"] assms by (simp add: holds_def case_prod_unfold)
  show "get_index i leaves = (if i < length ts then Some (vs ! i) else None)"
    "tuple_element i leaves = (if i < length ts then Some (ts ! i) else None)"
    using the_leaf_single [OF assms, of "\<lambda>j t. j = i"] the_leaf_none [OF assms, of "\<lambda>j t. j = i"] eq
    by (auto simp: get_index_def tuple_element_def split: if_splits)
qed

lemma get_type_holds:
  assumes "holds ts vs leaves"
  shows "get_type t leaves = (case filter (\<lambda>i. ts ! i = t) [0..<length ts] of [i] \<Rightarrow> Some (vs ! i) | _ \<Rightarrow> None)"
proof -
  have "zip [0..<length ts] (zip ts vs) = map (\<lambda>i. (i, ts ! i, vs ! i)) [0..<length ts]"
    using assms by (intro nth_equalityI) (auto simp: holds_def)
  then have eq: "filter (\<lambda>(i, u, v). u = t) (zip [0..<length ts] (zip ts vs)) =
      map (\<lambda>i. (i, ts ! i, vs ! i)) (filter (\<lambda>i. ts ! i = t) [0..<length ts])"
    by (simp add: filter_map comp_def)
  show ?thesis
  proof (cases "\<exists>i. filter (\<lambda>i. ts ! i = t) [0..<length ts] = [i]")
    case True
    then obtain i where i: "filter (\<lambda>i. ts ! i = t) [0..<length ts] = [i]" by blast
    obtain l where "the_leaf (\<lambda>l. leaf_type l = t) leaves = Some l" "stored l = vs ! i"
      using the_leaf_single [OF assms, of "\<lambda>j u. u = t"] eq i by auto
    then show ?thesis using i by (simp add: get_type_def)
  next
    case False
    then have "length (filter (\<lambda>i. ts ! i = t) [0..<length ts]) \<noteq> 1" by (auto simp: length_Suc_conv)
    then have "the_leaf (\<lambda>l. leaf_type l = t) leaves = None"
      using the_leaf_none [OF assms, of "\<lambda>j u. u = t"] eq by simp
    then show ?thesis using False by (auto simp: get_type_def split: list.split)
  qed
qed

section \<open>The indices of a concatenation\<close>

fun tuple_indices :: "nat \<Rightarrow> nat list \<Rightarrow> nat list" where
  "tuple_indices i [] = []"
| "tuple_indices i (n # ns) = replicate n i @ tuple_indices (i + 1) ns"

definition element_indices :: "nat list \<Rightarrow> nat list" where
  "element_indices ns = concat (map (\<lambda>n. [0..<n]) ns)"

lemma length_tuple_indices [simp]: "length (tuple_indices i ns) = sum_list ns"
  by (induction i ns rule: tuple_indices.induct) auto

lemma length_element_indices [simp]: "length (element_indices ns) = sum_list ns"
  by (induction ns) (auto simp: element_indices_def)

definition overwrite :: "nat \<Rightarrow> 'a list \<Rightarrow> 'a list \<Rightarrow> 'a list" where
  "overwrite g ys xs = take g xs @ ys @ drop (g + length ys) xs"

lemma overwrite_simps:
  "g \<le> length xs \<Longrightarrow> overwrite g [] xs = xs"
  "g + length ys + length zs \<le> length xs \<Longrightarrow> overwrite (g + length ys) zs (overwrite g ys xs) = overwrite g (ys @ zs) xs"
  "g + length ys \<le> length xs \<Longrightarrow> length (overwrite g ys xs) = length xs"
  "g < length xs \<Longrightarrow> xs[g := x] = overwrite g [x] xs"
  by (auto simp: overwrite_def upd_conv_take_nth_drop ac_simps)

lemma cat_put_loop:
  "g + n \<le> length inner \<Longrightarrow> length outer = length inner \<Longrightarrow>
    loopr n (cat_put i) ((inner, outer, g), j) =
    Inr ((overwrite g (replicate n (Some i)) inner, overwrite g (map Some [j..<j + n]) outer, g + n), j + n)"
proof (induction n arbitrary: inner outer g j)
  case 0
  then show ?case by (simp add: overwrite_simps)
next
  case (Suc n)
  have e: "overwrite (Suc g) ys (overwrite g [x] xs) = overwrite g (x # ys) xs" if "Suc (g + length ys) \<le> length xs"
    for x :: "nat option" and xs ys
    using overwrite_simps(2) [of g "[x]" ys xs] that by simp
  have u: "map Some [j..<Suc (j + n)] = Some j # map Some [Suc j..<Suc (j + n)]"
    by (simp add: upt_rec del: upt_Suc)
  show ?case using Suc.prems Suc.IH [of "g + 1" "inner[g := Some i]" "outer[g := Some j]" "j + 1"]
    by (simp add: cat_put_def u overwrite_simps(4) overwrite_simps(3) e del: upt_Suc)
qed

lemma cat_tuples:
  "g + sum_list ns \<le> length inner \<Longrightarrow> length outer = length inner \<Longrightarrow>
    foldr_res cat_tuple ns ((inner, outer, g), i) =
    Inr ((overwrite g (map Some (tuple_indices i ns)) inner, overwrite g (map Some (element_indices ns)) outer, g + sum_list ns), i + length ns)"
proof (induction ns arbitrary: inner outer g i)
  case Nil
  then show ?case by (simp add: overwrite_simps element_indices_def)
next
  case (Cons n ns)
  let ?inner = "overwrite g (replicate n (Some i)) inner" and ?outer = "overwrite g (map Some [0..<n]) outer"
  have l: "length ?inner = length inner" "length ?outer = length inner" using Cons.prems by (simp_all add: overwrite_simps(3))
  have "foldr_res cat_tuple (n # ns) ((inner, outer, g), i) = foldr_res cat_tuple ns ((?inner, ?outer, g + n), i + 1)"
    using Cons.prems by (simp add: cat_tuple_def cat_put_loop)
  also have "\<dots> = Inr ((overwrite (g + n) (map Some (tuple_indices (i + 1) ns)) ?inner,
      overwrite (g + n) (map Some (element_indices ns)) ?outer, g + n + sum_list ns), i + 1 + length ns)"
    using Cons.prems by (intro Cons.IH) (simp_all add: l)
  also have "overwrite (g + n) (map Some (tuple_indices (i + 1) ns)) ?inner = overwrite g (map Some (tuple_indices i (n # ns))) inner"
    using Cons.prems overwrite_simps(2) [of g "replicate n (Some i)" "map Some (tuple_indices (i + 1) ns)" inner] by (simp add: map_replicate_const)
  also have "overwrite (g + n) (map Some (element_indices ns)) ?outer = overwrite g (map Some (element_indices (n # ns))) outer"
    using Cons.prems overwrite_simps(2) [of g "map Some [0..<n]" "map Some (element_indices ns)" outer] by simp (simp add: element_indices_def)
  finally show ?case by (simp add: add.assoc)
qed

lemma tuple_cat_index_gen_indices: "tuple_cat_index_gen ns = Inr (tuple_indices 0 ns, element_indices ns)"
proof -
  have "overwrite 0 (map Some xs) (replicate (length xs) None) = map Some xs" for xs :: "nat list"
    by (simp add: overwrite_def)
  from this [of "tuple_indices 0 ns"] this [of "element_indices ns"] show ?thesis
    by (simp add: tuple_cat_index_gen_def cat_tuples initialised_def comp_def)
qed

lemma all_some_append: "all_some (xs @ ys) = Option.bind (all_some xs) (\<lambda>us. map_option ((@) us) (all_some ys))"
  by (cases "all_some ys"; induction xs rule: all_some.induct) (auto split: bind_splits)

lemma all_some_map_Some [simp]: "all_some (map (\<lambda>x. Some (f x)) xs) = Some (map f xs)"
  by (induction xs) auto

lemma all_some_indices:
  assumes "\<And>i j. i < length xss \<Longrightarrow> j < length (xss ! i) \<Longrightarrow> f (k + i, j) = Some (xss ! i ! j)"
  shows "all_some (map f (zip (tuple_indices k (map length xss)) (element_indices (map length xss)))) = Some (concat xss)"
  using assms
proof (induction xss arbitrary: k)
  case (Cons xs xss)
  have "zip (replicate (length xs) k) [0..<length xs] = map (Pair k) [0..<length xs]"
    by (rule nth_equalityI) auto
  then have "map f (zip (replicate (length xs) k) [0..<length xs]) = map (\<lambda>j. Some (xs ! j)) [0..<length xs]"
    using Cons.prems [of 0] by (auto simp: comp_def)
  then have "all_some (map f (zip (replicate (length xs) k) [0..<length xs])) = Some xs"
    by (simp add: map_nth)
  moreover have "all_some (map f (zip (tuple_indices (k + 1) (map length xss)) (element_indices (map length xss)))) = Some (concat xss)"
    by (rule Cons.IH) (use Cons.prems [of "Suc i" for i] in auto)
  ultimately show ?case by (simp add: element_indices_def all_some_append)
qed (simp add: element_indices_def)

lemma tuple_cat_holds:
  assumes "permutes mp_sort" and "permutes mp_sort_tuples" and "list_all2 (\<lambda>(ts, leaves) vs. holds ts vs leaves) tuples vss"
  shows "tuple_cat alignment_of mp_sort mp_sort_tuples default_of tuples =
    map_option (Pair (concat (map fst tuples))) (tuple_new alignment_of mp_sort default_of (concat (map fst tuples)) (concat vss))"
proof -
  let ?tss = "map fst tuples"
  have at: "i < length tuples \<Longrightarrow> holds (?tss ! i) (vss ! i) (snd (tuples ! i))" for i
    using list_all2_nthD [OF assms(3), of i] by (auto simp: case_prod_unfold)
  have sizes: "map length ?tss = map (length \<circ> fst) tuples" "map length vss = map (length \<circ> fst) tuples"
    using at list_all2_lengthD [OF assms(3)] by (auto intro!: nth_equalityI simp: holds_def)
  have len: "length (concat vss) = length (concat ?tss)" by (simp only: length_concat sizes)
  obtain leaves where leaves: "tuple_new alignment_of mp_sort default_of (concat ?tss) (concat vss) = Some leaves" "holds (concat ?tss) (concat vss) leaves"
    using tuple_new_holds [OF assms(1) len] by blast
  show ?thesis
  proof (cases "sum_list (map (length \<circ> fst) tuples) = 0")
    case True
    then have "length (concat ?tss) = 0" by (simp only: length_concat sizes)
    then have "concat ?tss = []" "length (concat vss) = 0" using len by (simp_all only: length_0_conv)
    then have "concat ?tss = []" "concat vss = []" by (simp_all only: length_0_conv)
    then show ?thesis using True unfolding tuple_cat_def by (simp only: Let_def refl if_True)
  next
    case False
    obtain ts where ts: "tuple_new (tuple_alignment alignment_of) mp_sort_tuples (\<lambda>_. []) ?tss (map snd tuples) = Some ts"
      "holds ?tss (map snd tuples) ts"
      using tuple_new_holds [OF assms(2), of "map snd tuples" ?tss] by auto
    define f where "f = (\<lambda>(i, j). Option.bind (get_index i ts) (tuple_element j :: _ \<Rightarrow> 'a option))"
    define g where "g = (\<lambda>(i, j). Option.bind (get_index i ts) (get_index j :: _ \<Rightarrow> 'b option))"
    have "f (0 + i, j) = Some (?tss ! i ! j)" if "i < length ?tss" "j < length (?tss ! i)" for i j
      using that at [of i] get_index_holds(1) [OF ts(2), of i] by (auto simp: f_def get_index_holds)
    from all_some_indices [of ?tss, OF this]
    have types: "all_some (map f (zip (tuple_indices 0 (map (length \<circ> fst) tuples)) (element_indices (map (length \<circ> fst) tuples)))) = Some (concat ?tss)"
      by (simp only: sizes)
    have "g (0 + i, j) = Some (vss ! i ! j)" if "i < length vss" "j < length (vss ! i)" for i j
      using that at [of i] list_all2_lengthD [OF assms(3)] get_index_holds(1) [OF ts(2), of i]
      by (auto simp: g_def get_index_holds) (auto simp: holds_def)
    from all_some_indices [of vss, OF this]
    have elements: "all_some (map g (zip (tuple_indices 0 (map (length \<circ> fst) tuples)) (element_indices (map (length \<circ> fst) tuples)))) = Some (concat vss)"
      by (simp only: sizes)
    have "tuple_cat_impl alignment_of mp_sort default_of (tuple_indices 0 (map (length \<circ> fst) tuples))
        (element_indices (map (length \<circ> fst) tuples)) ts = Some (concat ?tss, leaves)"
      unfolding tuple_cat_impl_def Let_def types [unfolded f_def] elements [unfolded g_def] using leaves(1) by simp
    then show ?thesis using False leaves(1) ts(1)
      by (auto simp: tuple_cat_def tuple_cat_index_gen_indices Let_def)
  qed
qed

section \<open>What a tuple is\<close>

text \<open>C27: a tuple refines the list of its elements, whatever the order in which its leaves are laid out. The element and the type of each index are
  those with which the tuple was declared and constructed; no other index compiles. An element is found by its type when
  the type occurs once, and otherwise this does not compile. Swapping exchanges the elements.\<close>

theorem tuple_elements:
  assumes "permutes mp_sort" and "length vs = length ts" and "length us = length ts"
  shows "\<exists>a b. tuple_new alignment_of mp_sort default_of ts vs = Some a \<and> tuple_new alignment_of mp_sort default_of ts us = Some b \<and>
    (\<forall>i. get_index i a = (if i < length ts then Some (vs ! i) else None) \<and>
         tuple_element i a = (if i < length ts then Some (ts ! i) else None)) \<and>
    (\<forall>t. get_type t a = (case filter (\<lambda>i. ts ! i = t) [0..<length ts] of [i] \<Rightarrow> Some (vs ! i) | _ \<Rightarrow> None)) \<and>
    tuple_swap a b = (b, a)"
proof -
  obtain a where a: "tuple_new alignment_of mp_sort default_of ts vs = Some a" "holds ts vs a"
    by (rule tuple_new_holds [OF assms(1,2)])
  obtain b where b: "tuple_new alignment_of mp_sort default_of ts us = Some b" "holds ts us b"
    by (rule tuple_new_holds [OF assms(1,3)])
  have "tuple_swap a b = (b, a)"
    using a(1) b(1) assms(2,3) by (auto simp: tuple_swap_def tuple_new_def intro!: nth_equalityI split: prod.split)
  then show ?thesis using a b get_index_holds [OF a(2)] get_type_holds [OF a(2)] by blast
qed

text \<open>The sort of Boost.Mp11, of which the documentation promises a list with the same elements.\<close>

fun partition_sort :: "('a \<Rightarrow> 'a \<Rightarrow> bool) \<Rightarrow> 'a list \<Rightarrow> 'a list" where
  "partition_sort P [] = []"
| "partition_sort P (x # xs) = partition_sort P (filter (\<lambda>u. P u x) xs) @ [x] @ partition_sort P (filter (\<lambda>u. \<not> P u x) xs)"

lemma partition_sort_permutes: "permutes partition_sort"
proof -
  have "mset (partition_sort P xs) = mset xs" for P and xs :: "'a indexed list"
    by (induction P xs rule: partition_sort.induct) (simp_all add: multiset_partition [symmetric])
  then show ?thesis by (simp add: permutes_def)
qed

lemma tuple_elements_witness:
  "\<exists>a b. tuple_new id partition_sort (\<lambda>_. '''') [4, 1, 8] [''x'', ''y'', ''z''] = Some a \<and>
    tuple_new id partition_sort (\<lambda>_. '''') [4, 1, 8] [''u'', ''v'', ''w''] = Some b \<and> get_index 1 a = Some ''y'' \<and> get_type 8 a = Some ''z'' \<and>
    tuple_swap a b = (b, a)"
proof -
  have "filter (\<lambda>i. [4, 1, 8 :: nat] ! i = 8) [0..<3] = [2]" by code_simp
  then show ?thesis
    using tuple_elements [OF partition_sort_permutes, of "[''x'', ''y'', ''z'']" "[4, 1, 8]" "[''u'', ''v'', ''w'']" id "\<lambda>_. ''''"] by fastforce
qed

text \<open>\<^verbatim>\<open>tuple_cat\<close> of tuples is the tuple of the concatenated types, constructed from the concatenated elements. So the indices
  which it computes are right, and the sorted layouts of the tuples, of the tuple of the tuples and of the result do not matter.\<close>

theorem tuple_cat_appends:
  assumes "permutes mp_sort" and "permutes mp_sort_tuples"
    and "list_all2 (\<lambda>(ts, leaves) vs. length vs = length ts \<and> tuple_new alignment_of mp_sort default_of ts vs = Some leaves) tuples vss"
  shows "tuple_cat alignment_of mp_sort mp_sort_tuples default_of tuples =
    map_option (Pair (concat (map fst tuples))) (tuple_new alignment_of mp_sort default_of (concat (map fst tuples)) (concat vss))"
proof (rule tuple_cat_holds [OF assms(1,2)])
  have "holds ts vs leaves" if "length vs = length ts" "tuple_new alignment_of mp_sort default_of ts vs = Some leaves" for ts vs leaves
    using tuple_new_holds [OF assms(1) that(1), of alignment_of default_of] that(2) by auto
  then show "list_all2 (\<lambda>(ts, leaves) vs. holds ts vs leaves) tuples vss"
    using assms(3) by (auto elim!: list_all2_mono)
qed

lemma tuple_cat_appends_witness:
  "\<exists>a b. tuple_new id partition_sort (\<lambda>_. '''') [4, 8] [''x'', ''y''] = Some a \<and> tuple_new id partition_sort (\<lambda>_. '''') [8 :: nat] [''z''] = Some b \<and>
    tuple_cat id partition_sort partition_sort (\<lambda>_. '''') [([4, 8], a), ([8], b)] =
      map_option (Pair [4, 8, 8]) (tuple_new id partition_sort (\<lambda>_. '''') [4, 8, 8] [''x'', ''y'', ''z''])"
proof -
  obtain a where a: "tuple_new id partition_sort (\<lambda>_. '''') [4, 8 :: nat] [''x'', ''y''] = Some a" by (simp add: tuple_new_def)
  obtain b where b: "tuple_new id partition_sort (\<lambda>_. '''') [8 :: nat] [''z''] = Some b" by (simp add: tuple_new_def)
  show ?thesis
    using tuple_cat_appends [OF partition_sort_permutes partition_sort_permutes, where tuples = "[([4, 8], a), ([8], b)]"
      and vss = "[[''x'', ''y''], [''z'']]" and alignment_of = id and default_of = "\<lambda>_. ''''"] a b by simp
qed

end
