(* ===== verification/Rows.thy ===== *)
theory Rows
  imports Statements Tuple
begin

text \<open>
  \<^verbatim>\<open>tactmon/backend/db/orm/Projection.hpp\<close> and the accessors of \<^verbatim>\<open>Entity.hpp\<close>: a row of a result is read into the tuple of a projection.
  A field is what libpqxx holds; its conversion to a type of C++ is a parameter, and \<open>None\<close> is the exception that it throws.
\<close>

section \<open>Reading\<close>

text \<open>\<^verbatim>\<open>column_tuple(std::index_sequence<Is...>, pqxx::row const&)\<close>. Field \<open>i\<close> is converted to the type of column \<open>i\<close>.\<close>

type_synonym ('f, 'v) conversion = "sql_type \<Rightarrow> 'f \<Rightarrow> 'v option"

fun read_fields :: "('f, 'v) conversion \<Rightarrow> nat \<Rightarrow> sql_type list \<Rightarrow> 'f list \<Rightarrow> 'v list result" where
  "read_fields as_type i [] row = Inr []"
| "read_fields as_type i (t # ts) row =
     bindr (at row i) (\<lambda>f. case as_type t f of None \<Rightarrow> Inl Thrown | Some v \<Rightarrow>
     bindr (read_fields as_type (i + 1) ts row) (\<lambda>vs. Inr (v # vs)))"

text \<open>\<^verbatim>\<open>Projection(pqxx::row const&)\<close>, where the columns are the types of the leaves. The outer \<open>None\<close> does not compile.\<close>

type_synonym 'v projection = "(component, 'v) tuple_leaf list"

definition column_tuple :: "(component \<Rightarrow> nat) \<Rightarrow> component mp_sort \<Rightarrow> (component \<Rightarrow> 'v) \<Rightarrow> ('f, 'v) conversion \<Rightarrow>
    component list \<Rightarrow> 'f list \<Rightarrow> 'v projection result option" where
  "column_tuple alignment_of mp_sort default_of as_type columns row = map_option
     (\<lambda>ts. bindr (read_fields as_type 0 ts row) (\<lambda>vs. Inr (the (tuple_new alignment_of mp_sort default_of columns vs))))
     (all_of (map value_type columns))"

definition Projection_row :: "(component \<Rightarrow> nat) \<Rightarrow> component mp_sort \<Rightarrow> (component \<Rightarrow> 'v) \<Rightarrow> ('f, 'v) conversion \<Rightarrow>
    component \<Rightarrow> 'f list \<Rightarrow> 'v projection result option" where
  "Projection_row alignment_of mp_sort default_of as_type p row = (case p of
     Projection columns \<Rightarrow> column_tuple alignment_of mp_sort default_of as_type columns row | _ \<Rightarrow> None)"

definition Entity_row :: "(component \<Rightarrow> nat) \<Rightarrow> component mp_sort \<Rightarrow> (component \<Rightarrow> 'v) \<Rightarrow> ('f, 'v) conversion \<Rightarrow>
    component \<Rightarrow> 'f list \<Rightarrow> 'v projection result option" where
  "Entity_row alignment_of mp_sort default_of as_type entity row =
     Option.bind (projection_type entity) (\<lambda>p. Projection_row alignment_of mp_sort default_of as_type p row)"

definition Projection_get :: "component \<Rightarrow> 'v projection \<Rightarrow> 'v option" where
  "Projection_get column p = get_type column p"

text \<open>A column of an entity is bound to it before it is looked for.\<close>

definition Entity_get :: "component \<Rightarrow> component \<Rightarrow> 'v projection \<Rightarrow> 'v option" where
  "Entity_get entity column p = Option.bind (BindToProjection column entity) (\<lambda>c. Projection_get c p)"

section \<open>What is read\<close>

lemma read_fields_converted:
  "list_all2 (\<lambda>t (f, v). as_type t f = Some v) ts fvs \<Longrightarrow> i = length before \<Longrightarrow>
    read_fields as_type i ts (before @ map fst fvs) = Inr (map snd fvs)"
proof (induction ts fvs arbitrary: i before rule: list_all2_induct)
  case (Cons t ts fv fvs)
  obtain f v where fv: "fv = (f, v)" by (cases fv)
  show ?case using Cons.IH [of "i + 1" "before @ [f]"] Cons.hyps Cons.prems by (auto simp: fv at_def nth_append)
qed simp

lemma all_of_map_Some: "(\<And>x. x \<in> set xs \<Longrightarrow> f x = Some (g x)) \<Longrightarrow> all_of (map f xs) = Some (map g xs)"
  by (induction xs) auto

lemma filter_upt_single: "i < n \<Longrightarrow> filter (\<lambda>j. j = i) [0..<n] = [i]"
  by (induction n) (auto simp: less_Suc_eq filter_empty_conv)

lemma filter_nth_distinct:
  assumes "distinct xs" and "i < length xs"
  shows "filter (\<lambda>j. xs ! j = xs ! i) [0..<length xs] = [i]"
proof -
  have "filter (\<lambda>j. xs ! j = xs ! i) [0..<length xs] = filter (\<lambda>j. j = i) [0..<length xs]"
    using assms by (intro filter_cong) (auto simp: nth_eq_iff_index_eq)
  also have "\<dots> = [i]" using filter_upt_single assms(2) .
  finally show ?thesis .
qed

lemma all_of_length: "all_of xs = Some ys \<Longrightarrow> length ys = length xs"
  by (induction xs arbitrary: ys rule: all_of.induct) auto

lemma Projection_row_get:
  assumes "permutes mp_sort" and "distinct columns" and "all_of (map value_type columns) = Some ts"
    and "list_all2 (\<lambda>t (f, v). as_type t f = Some v) ts fvs"
  obtains p where "Projection_row alignment_of mp_sort default_of as_type (Projection columns) (map fst fvs) = Some (Inr p)"
    and "\<And>i. i < length columns \<Longrightarrow> Projection_get (columns ! i) p = Some (snd (fvs ! i))"
proof -
  have len: "length ts = length columns" using all_of_length [OF assms(3)] by simp
  then have len': "length (map snd fvs) = length columns" using list_all2_lengthD [OF assms(4)] by simp
  obtain p where p: "tuple_new alignment_of mp_sort default_of columns (map snd fvs) = Some p" "holds columns (map snd fvs) p"
    by (rule tuple_new_holds [OF assms(1) len'])
  show ?thesis
  proof (rule that)
    show "Projection_row alignment_of mp_sort default_of as_type (Projection columns) (map fst fvs) = Some (Inr p)"
      using read_fields_converted [OF assms(4), of 0 "[]"] p(1) by (simp add: Projection_row_def column_tuple_def assms(3))
    show "Projection_get (columns ! i) p = Some (snd (fvs ! i))" if "i < length columns" for i
      using get_type_holds [OF p(2), of "columns ! i"] filter_nth_distinct [OF assms(2) that] len' that by (simp add: Projection_get_def)
  qed
qed

text \<open>The columns of the tables, which differ within a table.\<close>

fun is_table :: "component \<Rightarrow> bool" where
  "is_table (Entity name schema columns) \<longleftrightarrow> distinct columns \<and> list_all (\<lambda>c. case c of Column _ _ \<Rightarrow> True | _ \<Rightarrow> False) columns"
| "is_table _ \<longleftrightarrow> False"

definition declared_types :: "component list \<Rightarrow> sql_type list" where
  "declared_types columns = map (\<lambda>c. case value_type c of Some t \<Rightarrow> t | None \<Rightarrow> uint32) columns"

lemma Entity_row_reads:
  assumes "permutes mp_sort" and "is_table (Entity name schema columns)"
    and "list_all2 (\<lambda>t (f, v). as_type t f = Some v) (declared_types columns) fvs"
  shows "\<exists>p. Entity_row alignment_of mp_sort default_of as_type (Entity name schema columns) (map fst fvs) = Some (Inr p) \<and>
    (\<forall>i < length columns. Entity_get (Entity name schema columns) (columns ! i) p = Some (snd (fvs ! i)))"
proof -
  let ?entity = "Entity name schema columns"
  let ?bound = "\<lambda>c. case c of Column n t \<Rightarrow> Of ?entity n t | _ \<Rightarrow> c"
  have columns: "\<exists>n t. c = Column n t" if "c \<in> set columns" for c
  proof -
    have "case c of Column _ _ \<Rightarrow> True | _ \<Rightarrow> False" using assms(2) that by (auto simp: list_all_iff)
    then show ?thesis by (cases c) auto
  qed
  have "inj_on ?bound (set columns)" by (rule inj_onI) (auto dest!: columns)
  then have distinct: "distinct (map ?bound columns)" using assms(2) by (simp add: distinct_map)
  have types: "all_of (map value_type (map ?bound columns)) = Some (declared_types columns)"
    unfolding declared_types_def map_map by (rule all_of_map_Some) (auto dest!: columns)
  obtain p where p: "Projection_row alignment_of mp_sort default_of as_type (Projection (map ?bound columns)) (map fst fvs) = Some (Inr p)"
    "\<And>i. i < length columns \<Longrightarrow> Projection_get (map ?bound columns ! i) p = Some (snd (fvs ! i))"
    using Projection_row_get [OF assms(1) distinct types assms(3)] by auto
  have "Entity_get ?entity (columns ! i) p = Some (snd (fvs ! i))" if "i < length columns" for i
    using p(2) [OF that] columns [of "columns ! i"] that by (auto simp: Entity_get_def)
  then show ?thesis using p(1) assms(2) by (auto simp: Entity_row_def)
qed

text \<open>What is read from a row of a table is what was selected. When the fields of a row are convertible to the types of the columns,
  the entity made of it compiles, and its accessor of the \<open>i\<close>th column of the table, bound to the table by \<open>BindToProjection\<close> and
  found by its type among the leaves of the tuple, yields field \<open>i\<close>.\<close>

theorem Entity_row_get:
  assumes "permutes mp_sort" and "is_table (Entity name schema columns)"
    and "list_all2 (\<lambda>t (f, v). as_type t f = Some v) (declared_types columns) fvs"
  shows "\<exists>p. Entity_row alignment_of mp_sort default_of as_type (Entity name schema columns) (map fst fvs) = Some (Inr p) \<and>
    (\<forall>i < length columns. Entity_get (Entity name schema columns) (columns ! i) p = Some (snd (fvs ! i)))"
  by (rule Entity_row_reads [OF assms])

lemma Entity_row_get_witness:
  "\<exists>p. Entity_row (\<lambda>_. 8) partition_sort (\<lambda>_. '''') (\<lambda>t f. Some (f :: string)) product_Entity [''7'', ''wow'', ''42''] = Some (Inr p) \<and>
    Entity_get product_Entity product_name p = Some ''wow''"
proof -
  have "\<exists>p. Entity_row (\<lambda>_. 8) partition_sort (\<lambda>_. '''') (\<lambda>t f. Some (f :: string)) product_Entity (map fst [(''7'', ''7''), (''wow'', ''wow''), (''42'', ''42'')]) = Some (Inr p) \<and>
      (\<forall>i < length [product_id, product_name, product_sequence_id]. Entity_get product_Entity ([product_id, product_name, product_sequence_id] ! i) p =
        Some (snd ([(''7'', ''7''), (''wow'', ''wow''), (''42'', ''42'')] ! i)))"
    unfolding product_Entity_def
    by (rule Entity_row_get [OF partition_sort_permutes]) (simp_all add: declared_types_def product_id_def product_name_def product_sequence_id_def)
  then show ?thesis by (auto dest!: spec [of _ 1])
qed

end
