(* ===== verification/Database.thy ===== *)
theory Database
  imports Rows
begin

text \<open>
  \<^verbatim>\<open>tactmon/backend/db/orm/PreparedStatement.hpp\<close> and the repositories of products and builds: statements that are run by the
  database. The database is a parameter: its state is any type, and a statement, given as the text that the library renders and the
  arguments that are bound, yields a new state and the rows of the result, or an exception.
\<close>

section \<open>The database\<close>

datatype sql_value = Num nat | Str string

record 'db sql_env =
  alignment_of :: "component \<Rightarrow> nat"
  mp_sort :: "component mp_sort"
  default_of :: "component \<Rightarrow> sql_value"
  as_type :: "(sql_value, sql_value) conversion"
  open_connection :: "'db \<Rightarrow> 'db \<times> bool"   \<comment> \<open>\<^verbatim>\<open>Pool::Open\<close> and the beginning of a transaction; \<open>False\<close> is an exception\<close>
  exec_prepared :: "string \<Rightarrow> sql_value list \<Rightarrow> 'db \<Rightarrow> 'db \<times> sql_value list list option"   \<comment> \<open>with its \<^verbatim>\<open>commit\<close>\<close>

type_synonym entity = "sql_value projection"

section \<open>Statements\<close>

text \<open>
  \<^verbatim>\<open>PreparedStatementBase::ExecuteOne\<close>. A row is read into the type of the result. Exceptions of the statement, of its commit and of the conversion of fields are caught, those
  of the connection are not. The transaction is aborted by the database.
\<close>

definition row_entity :: "'db sql_env \<Rightarrow> component \<Rightarrow> sql_value list \<Rightarrow> entity option" where
  "row_entity env result_type row = (case (case result_type of
       Projection _ \<Rightarrow> Projection_row (alignment_of env) (mp_sort env) (default_of env) (as_type env) result_type row
     | _ \<Rightarrow> Entity_row (alignment_of env) (mp_sort env) (default_of env) (as_type env) result_type row) of
     Some (Inr entity) \<Rightarrow> Some entity | _ \<Rightarrow> None)"

definition ExecuteOne_work :: "'db sql_env \<Rightarrow> component option \<Rightarrow> component \<Rightarrow> sql_value list \<Rightarrow> 'db \<Rightarrow> 'db \<times> entity option" where
  "ExecuteOne_work env query result_type arguments db = (case statement_text query of None \<Rightarrow> (db, None) | Some text \<Rightarrow>
     (case exec_prepared env text arguments db of
        (db, None) \<Rightarrow> (db, None)
      | (db, Some resultSet) \<Rightarrow>
          if length resultSet \<noteq> 1 then (db, None) else (db, row_entity env result_type (resultSet ! 0))))"

definition ExecuteOne :: "'db sql_env \<Rightarrow> component option \<Rightarrow> component \<Rightarrow> sql_value list \<Rightarrow> 'db \<Rightarrow> 'db \<times> entity option result" where
  "ExecuteOne env query result_type arguments db = (case open_connection env db of
     (db, False) \<Rightarrow> (db, Inl Thrown)
   | (db, True) \<Rightarrow> map_prod id Inr (ExecuteOne_work env query result_type arguments db))"

text \<open>For statements without a result type.\<close>

definition ExecuteOne_void :: "'db sql_env \<Rightarrow> component option \<Rightarrow> sql_value list \<Rightarrow> 'db \<Rightarrow> 'db \<times> unit result" where
  "ExecuteOne_void env query arguments db = (case open_connection env db of
     (db, False) \<Rightarrow> (db, Inl Thrown)
   | (db, True) \<Rightarrow> (case statement_text query of None \<Rightarrow> (db, Inr ()) | Some text \<Rightarrow>
       (fst (exec_prepared env text arguments db), Inr ())))"

lemma row_entity_table [simp]:
  "row_entity env (Entity n s cs) row = (case Entity_row (alignment_of env) (mp_sort env) (default_of env) (as_type env) (Entity n s cs) row of
     Some (Inr entity) \<Rightarrow> Some entity | _ \<Rightarrow> None)"
  "row_entity env product_Entity row = (case Entity_row (alignment_of env) (mp_sort env) (default_of env) (as_type env) product_Entity row of
     Some (Inr entity) \<Rightarrow> Some entity | _ \<Rightarrow> None)"
  "row_entity env build_Entity row = (case Entity_row (alignment_of env) (mp_sort env) (default_of env) (as_type env) build_Entity row of
     Some (Inr entity) \<Rightarrow> Some entity | _ \<Rightarrow> None)"
  by (simp_all add: row_entity_def product_Entity_def build_Entity_def)

section \<open>Repositories\<close>

definition products_GetByName :: "'db sql_env \<Rightarrow> string \<Rightarrow> 'db \<Rightarrow> 'db \<times> entity option result" where
  "products_GetByName env name = ExecuteOne env product_SelByName product_Entity [Str name]"

text \<open>An insertion without \<^verbatim>\<open>RETURNING\<close> has the entity as its result type, but no rows.\<close>

definition products_Insert :: "'db sql_env \<Rightarrow> string \<Rightarrow> nat \<Rightarrow> 'db \<Rightarrow> 'db \<times> unit result" where
  "products_Insert env productName sequenceID db =
     map_prod id (map_sum id (\<lambda>_. ())) (ExecuteOne env product_Insert product_Entity [Str productName, Num sequenceID] db)"

definition products_Update :: "'db sql_env \<Rightarrow> string \<Rightarrow> nat \<Rightarrow> 'db \<Rightarrow> 'db \<times> unit result" where
  "products_Update env productName sequenceID = ExecuteOne_void env product_Update [Num sequenceID, Str productName]"

definition builds_GetByBuildName :: "'db sql_env \<Rightarrow> string \<Rightarrow> string \<Rightarrow> 'db \<Rightarrow> 'db \<times> entity option result" where
  "builds_GetByBuildName env buildName region = ExecuteOne env build_SelByName build_Entity [Str buildName, Str region]"

definition builds_Insert :: "'db sql_env \<Rightarrow> nat \<Rightarrow> string \<Rightarrow> string \<Rightarrow> string \<Rightarrow> string \<Rightarrow> string \<Rightarrow> 'db \<Rightarrow> 'db \<times> entity option result" where
  "builds_Insert env now region productName buildName buildConfig cdnConfig = ExecuteOne env build_Insert build_Entity
     [Str region, Str productName, Str buildName, Str buildConfig, Str cdnConfig, Num now]"

section \<open>The table of products\<close>

text \<open>
  What the monitor relies on. \<open>products\<close> reads the table out of the state; names are unique in it (\<^verbatim>\<open>ix_products_name\<close>
  of the schema). A statement that returns has had its effect; one that throws has had it or not, since the
  outcome of a commit can be in doubt.
\<close>

definition product_row :: "nat \<Rightarrow> string \<Rightarrow> nat \<Rightarrow> sql_value list" where
  "product_row i name sequence = [Num i, Str name, Num sequence]"

definition select_law :: "'db sql_env \<Rightarrow> ('db \<Rightarrow> string \<Rightarrow> nat option) \<Rightarrow> bool" where
  "select_law env products \<longleftrightarrow>
     (\<forall>sql name db db' r. statement_text product_SelByName = Some sql \<longrightarrow> exec_prepared env sql [Str name] db = (db', r) \<longrightarrow>
        products db' = products db \<and>
        (case r of None \<Rightarrow> True | Some rows \<Rightarrow>
          (case products db name of None \<Rightarrow> rows = [] | Some s \<Rightarrow> \<exists>i. rows = [product_row i name s])))"

definition insert_law :: "'db sql_env \<Rightarrow> ('db \<Rightarrow> string \<Rightarrow> nat option) \<Rightarrow> bool" where
  "insert_law env products \<longleftrightarrow>
     (\<forall>sql name s db db' r. statement_text product_Insert = Some sql \<longrightarrow> exec_prepared env sql [Str name, Num s] db = (db', r) \<longrightarrow>
        products db' = products db \<and> r = None \<or> products db name = None \<and> products db' = (products db)(name \<mapsto> s))"

definition update_law :: "'db sql_env \<Rightarrow> ('db \<Rightarrow> string \<Rightarrow> nat option) \<Rightarrow> bool" where
  "update_law env products \<longleftrightarrow>
     (\<forall>sql name s db db' r. statement_text product_Update = Some sql \<longrightarrow> exec_prepared env sql [Num s, Str name] db = (db', r) \<longrightarrow>
        products db' = products db \<and> (r = None \<or> products db name = None) \<or>
        products db name \<noteq> None \<and> products db' = (products db)(name \<mapsto> s))"

definition product_laws :: "'db sql_env \<Rightarrow> ('db \<Rightarrow> string \<Rightarrow> nat option) \<Rightarrow> bool" where
  "product_laws env products \<longleftrightarrow>
     permutes (mp_sort env) \<and>
     (\<forall>n. as_type env uint32 (Num n) = Some (Num n) \<and> as_type env uint64 (Num n) = Some (Num n)) \<and>
     (\<forall>s. as_type env text_type (Str s) = Some (Str s)) \<and>
     (\<forall>db. products (fst (open_connection env db)) = products db) \<and>
     select_law env products \<and> insert_law env products \<and> update_law env products"

text \<open>A database that answers: connections are opened, and a statement throws only when it violates the uniqueness of names.\<close>

definition products_reliable :: "'db sql_env \<Rightarrow> ('db \<Rightarrow> string \<Rightarrow> nat option) \<Rightarrow> bool" where
  "products_reliable env products \<longleftrightarrow>
     (\<forall>db. snd (open_connection env db)) \<and>
     (\<forall>sql name db. statement_text product_SelByName = Some sql \<longrightarrow> snd (exec_prepared env sql [Str name] db) \<noteq> None) \<and>
     (\<forall>sql name s db. statement_text product_Insert = Some sql \<longrightarrow> products db name = None \<longrightarrow>
        snd (exec_prepared env sql [Str name, Num s] db) \<noteq> None) \<and>
     (\<forall>sql name s db. statement_text product_Update = Some sql \<longrightarrow> snd (exec_prepared env sql [Num s, Str name] db) \<noteq> None)"

end
