(* ===== verification/Monitor.thy ===== *)
theory Monitor
  imports Database Ribbit
begin

text \<open>
  \<^verbatim>\<open>tactmon/backend/RibbitMonitor.cpp\<close>: the monitor compares the summary of the version service with the table of products, and
  notifies its listeners of products with a new sequence number. Calls of listeners are recorded.
\<close>

section \<open>The monitor\<close>

datatype ProductState = Updated | Deleted

record ('db, 'l) monitor =
  database :: 'db
  listeners :: "'l list"
  notified :: "('l \<times> string \<times> nat \<times> ProductState) list"

definition RegisterListener :: "'l \<Rightarrow> ('db, 'l) monitor \<Rightarrow> ('db, 'l) monitor" where
  "RegisterListener listener m = m\<lparr>listeners := listeners m @ [listener]\<rparr>"

definition NotifyProductUpdate :: "string \<Rightarrow> nat \<Rightarrow> ('db, 'l) monitor \<Rightarrow> ('db, 'l) monitor" where
  "NotifyProductUpdate productName sequenceID m =
     m\<lparr>notified := notified m @ map (\<lambda>listener. (listener, productName, sequenceID, Updated)) (listeners m)\<rparr>"

definition NotifyProductDeleted :: "string \<Rightarrow> nat \<Rightarrow> ('db, 'l) monitor \<Rightarrow> ('db, 'l) monitor" where
  "NotifyProductDeleted productName sequenceID m =
     m\<lparr>notified := notified m @ map (\<lambda>listener. (listener, productName, sequenceID, Deleted)) (listeners m)\<rparr>"

text \<open>The sequence number of an entity, which is a number when the entity was read.\<close>

definition sequence_id :: "entity \<Rightarrow> nat result" where
  "sequence_id entity = (case Entity_get product_Entity product_sequence_id entity of Some (Num n) \<Rightarrow> Inr n | _ \<Rightarrow> Inl Thrown)"

text \<open>The body of the loop of \<^verbatim>\<open>OnUpdate\<close>; an exception of the database leaves it.\<close>

definition OnUpdate_record :: "'db sql_env \<Rightarrow> SummaryRecord \<Rightarrow> ('db, 'l) monitor \<Rightarrow> ('db, 'l) monitor \<times> unit result" where
  "OnUpdate_record env r m = (if sr_Flags r \<noteq> [] then (m, Inr ())
     else case products_GetByName env (sr_Product r) (database m) of
       (db, Inl e) \<Rightarrow> (m\<lparr>database := db\<rparr>, Inl e)
     | (db, Inr None) \<Rightarrow> (case products_Insert env (sr_Product r) (sr_SequenceID r) db of
           (db, Inl e) \<Rightarrow> (m\<lparr>database := db\<rparr>, Inl e)
         | (db, Inr _) \<Rightarrow> (NotifyProductUpdate (sr_Product r) (sr_SequenceID r) (m\<lparr>database := db\<rparr>), Inr ()))
     | (db, Inr (Some productState)) \<Rightarrow> (case sequence_id productState of
           Inl e \<Rightarrow> (m\<lparr>database := db\<rparr>, Inl e)
         | Inr previousSequenceID \<Rightarrow>
             if previousSequenceID < sr_SequenceID r then
               (case products_Update env (sr_Product r) (sr_SequenceID r) db of
                 (db, Inl e) \<Rightarrow> (m\<lparr>database := db\<rparr>, Inl e)
               | (db, Inr _) \<Rightarrow> (NotifyProductUpdate (sr_Product r) (sr_SequenceID r) (m\<lparr>database := db\<rparr>), Inr ()))
             else (m\<lparr>database := db\<rparr>, Inr ())))"

fun OnUpdate_records :: "'db sql_env \<Rightarrow> SummaryRecord list \<Rightarrow> ('db, 'l) monitor \<Rightarrow> ('db, 'l) monitor \<times> unit result" where
  "OnUpdate_records env [] m = (m, Inr ())"
| "OnUpdate_records env (r # rs) m = (case OnUpdate_record env r m of
     (m, Inl e) \<Rightarrow> (m, Inl e) | (m, Inr _) \<Rightarrow> OnUpdate_records env rs m)"

text \<open>\<^verbatim>\<open>OnUpdate\<close>, with what the command for the summary yields. Errors of the timer other than its cancellation do not matter.\<close>

definition OnUpdate :: "'db sql_env \<Rightarrow> bool \<Rightarrow> SummaryRecord list option \<Rightarrow> ('db, 'l) monitor \<Rightarrow> ('db, 'l) monitor \<times> unit result" where
  "OnUpdate env aborted summary m = (if aborted then (m, Inr ()) else case summary of None \<Rightarrow> (m, Inr ()) | Some records \<Rightarrow> OnUpdate_records env records m)"

text \<open>\<^verbatim>\<open>BeginUpdate\<close> sets the timer when the update returns. Its handler updates and begins an update.\<close>

definition BeginUpdate :: "'db sql_env \<Rightarrow> SummaryRecord list option \<Rightarrow> ('db, 'l) monitor \<Rightarrow> ('db, 'l) monitor \<times> unit result" where
  "BeginUpdate env summary m = OnUpdate env False summary m"

definition timer_handler :: "'db sql_env \<Rightarrow> bool \<Rightarrow> SummaryRecord list option \<Rightarrow> SummaryRecord list option \<Rightarrow> ('db, 'l) monitor \<Rightarrow>
    ('db, 'l) monitor \<times> unit result" where
  "timer_handler env aborted summary summary' m = (case OnUpdate env aborted summary m of
     (m, Inl e) \<Rightarrow> (m, Inl e) | (m, Inr _) \<Rightarrow> BeginUpdate env summary' m)"

section \<open>What it promises\<close>

text \<open>The state of the monitor without its database: the sequence numbers of the products that are known.\<close>

type_synonym sequences = "string \<Rightarrow> nat option"

definition newer :: "SummaryRecord \<Rightarrow> sequences \<Rightarrow> bool" where
  "newer r st \<longleftrightarrow> sr_Flags r = [] \<and> (case st (sr_Product r) of None \<Rightarrow> True | Some s \<Rightarrow> s < sr_SequenceID r)"

definition raise :: "SummaryRecord \<Rightarrow> sequences \<Rightarrow> sequences" where
  "raise r st = (if newer r st then st(sr_Product r \<mapsto> sr_SequenceID r) else st)"

fun news :: "SummaryRecord list \<Rightarrow> sequences \<Rightarrow> SummaryRecord list" where
  "news [] st = []"
| "news (r # rs) st = (if newer r st then [r] else []) @ news rs (raise r st)"

definition notifications :: "'l list \<Rightarrow> SummaryRecord list \<Rightarrow> ('l \<times> string \<times> nat \<times> ProductState) list" where
  "notifications ls rs = concat (map (\<lambda>r. map (\<lambda>l. (l, sr_Product r, sr_SequenceID r, Updated)) ls) rs)"

text \<open>Sequence numbers that are not taken back.\<close>

definition not_before :: "sequences \<Rightarrow> sequences \<Rightarrow> bool" where
  "not_before st st' \<longleftrightarrow> (\<forall>p s. st p = Some s \<longrightarrow> (\<exists>s'. st' p = Some s' \<and> s \<le> s'))"

lemma not_before_refl [simp]: "not_before st st"
  by (simp add: not_before_def)

lemma not_before_trans: "not_before st st' \<Longrightarrow> not_before st' st'' \<Longrightarrow> not_before st st''"
  unfolding not_before_def by (meson le_trans)

section \<open>Statements about products\<close>

lemma product_texts: "statement_text product_SelByName \<noteq> None" "statement_text product_Insert \<noteq> None" "statement_text product_Update \<noteq> None"
  by code_simp+

lemma product_Entity_row:
  assumes "product_laws env products"
  shows "\<exists>p. Entity_row (alignment_of env) (mp_sort env) (default_of env) (as_type env) product_Entity (product_row i name s) = Some (Inr p) \<and>
    sequence_id p = Inr s"
proof -
  let ?fvs = "[(Num i, Num i), (Str name, Str name), (Num s, Num s)]"
  have "permutes (mp_sort env)" using assms by (simp add: product_laws_def)
  from Entity_row_reads [OF this, of "''products''" "''public''" "[product_id, product_name, product_sequence_id]" "as_type env" ?fvs
      "alignment_of env" "default_of env", folded product_Entity_def]
  obtain p where p: "Entity_row (alignment_of env) (mp_sort env) (default_of env) (as_type env) product_Entity (map fst ?fvs) = Some (Inr p)"
    "\<forall>i < 3. Entity_get product_Entity ([product_id, product_name, product_sequence_id] ! i) p = Some (snd (?fvs ! i))"
    using assms by (auto simp: declared_types_def product_laws_def product_id_def product_name_def product_sequence_id_def product_Entity_def)
  from spec [OF p(2), of 2] p(1) show ?thesis by (simp add: sequence_id_def product_row_def)
qed

lemma GetByName_reads:
  assumes "product_laws env products" and "products_GetByName env name db = (db', r)"
  shows "products db' = products db" and "r = Inr (Some p) \<Longrightarrow> \<exists>s. products db name = Some s \<and> sequence_id p = Inr s"
    and "products_reliable env products \<Longrightarrow> r = Inr None \<and> products db name = None \<or> (\<exists>p. r = Inr (Some p))"
proof -
  obtain sql where sql: "statement_text product_SelByName = Some sql" using product_texts(1) by auto
  obtain db1 ok where opened: "open_connection env db = (db1, ok)" by (cases "open_connection env db")
  obtain db2 res where ran: "exec_prepared env sql [Str name] db1 = (db2, res)" by (cases "exec_prepared env sql [Str name] db1")
  have 1: "products db1 = products db" using assms(1) opened by (auto simp: product_laws_def) (metis fst_conv)
  have 2: "products db2 = products db1" "res = Some rows \<Longrightarrow> (case products db1 name of None \<Rightarrow> rows = [] | Some s \<Rightarrow> \<exists>i. rows = [product_row i name s])" for rows
    using assms(1) sql ran unfolding product_laws_def select_law_def by (fastforce split: option.splits)+
  have run: "(db', r) = (if ok then map_prod id Inr (ExecuteOne_work env product_SelByName product_Entity [Str name] db1) else (db1, Inl Thrown))"
    using assms(2) opened by (simp add: products_GetByName_def ExecuteOne_def split: bool.splits)
  show "products db' = products db"
    using run 1 2(1) by (auto simp: ExecuteOne_work_def sql ran split: if_splits option.splits)
  show "\<exists>s. products db name = Some s \<and> sequence_id p = Inr s" if "r = Inr (Some p)"
  proof -
    note r = that
    obtain rows where rows: "res = Some rows" "length rows = 1" "ok"
      using run r by (auto simp: ExecuteOne_work_def sql ran split: if_splits option.splits)
    then obtain s i where s: "products db1 name = Some s" "rows = [product_row i name s]"
      using 2(2) [OF rows(1)] by (auto split: option.splits)
    obtain q where "Entity_row (alignment_of env) (mp_sort env) (default_of env) (as_type env) product_Entity (product_row i name s) = Some (Inr q)"
      "sequence_id q = Inr s"
      using product_Entity_row [OF assms(1)] by blast
    then show ?thesis using run r rows s 1 by (auto simp: ExecuteOne_work_def sql ran)
  qed
  show "r = Inr None \<and> products db name = None \<or> (\<exists>p. r = Inr (Some p))" if "products_reliable env products"
  proof -
    have "ok" "res \<noteq> None" using that opened sql ran by (auto simp: products_reliable_def) (metis snd_conv)+
    then obtain rows where rows: "res = Some rows" by blast
    show ?thesis
    proof (cases "products db1 name")
      case None
      then show ?thesis using run \<open>ok\<close> rows 1 2(2) [OF rows] by (auto simp: ExecuteOne_work_def sql ran)
    next
      case (Some s)
      then obtain i where "rows = [product_row i name s]" using 2(2) [OF rows] by auto
      then show ?thesis
        using run \<open>ok\<close> rows product_Entity_row [OF assms(1), of i name s] by (auto simp: ExecuteOne_work_def sql ran)
    qed
  qed
qed

lemma Insert_writes:
  assumes "product_laws env products" and "products_Insert env name s db = (db', r)"
  shows "products db' = products db \<or> products db name = None \<and> products db' = (products db)(name \<mapsto> s) \<and> r = Inr ()"
    and "products_reliable env products \<Longrightarrow> products db name = None \<Longrightarrow> products db' = (products db)(name \<mapsto> s) \<and> r = Inr ()"
proof -
  obtain sql where sql: "statement_text product_Insert = Some sql" using product_texts(2) by auto
  obtain db1 ok where opened: "open_connection env db = (db1, ok)" by (cases "open_connection env db")
  obtain db2 res where ran: "exec_prepared env sql [Str name, Num s] db1 = (db2, res)" by (cases "exec_prepared env sql [Str name, Num s] db1")
  have 1: "products db1 = products db" using assms(1) opened by (auto simp: product_laws_def) (metis fst_conv)
  have "insert_law env products" using assms(1) by (simp add: product_laws_def)
  then have 2: "products db2 = products db1 \<and> res = None \<or> products db1 name = None \<and> products db2 = (products db1)(name \<mapsto> s)"
    using sql ran unfolding insert_law_def by blast
  have run: "db' = (if ok then db2 else db1)" "r = (if ok then Inr () else Inl Thrown)"
    using assms(2) opened by (auto simp: products_Insert_def ExecuteOne_def ExecuteOne_work_def sql ran split: if_splits option.splits bool.splits)
  show "products db' = products db \<or> products db name = None \<and> products db' = (products db)(name \<mapsto> s) \<and> r = Inr ()"
    using run 1 2 by auto
  show "products db' = (products db)(name \<mapsto> s) \<and> r = Inr ()" if "products_reliable env products" "products db name = None"
  proof -
    have "ok" "res \<noteq> None" using that opened sql ran 1 by (auto simp: products_reliable_def) (metis snd_conv)+
    then show ?thesis using run 1 2 by auto
  qed
qed

lemma Update_writes:
  assumes "product_laws env products" and "products_Update env name s db = (db', r)"
  shows "products db' = products db \<or> products db name \<noteq> None \<and> products db' = (products db)(name \<mapsto> s) \<and> r = Inr ()"
    and "products_reliable env products \<Longrightarrow> products db name \<noteq> None \<Longrightarrow> products db' = (products db)(name \<mapsto> s) \<and> r = Inr ()"
proof -
  obtain sql where sql: "statement_text product_Update = Some sql" using product_texts(3) by auto
  obtain db1 ok where opened: "open_connection env db = (db1, ok)" by (cases "open_connection env db")
  obtain db2 res where ran: "exec_prepared env sql [Num s, Str name] db1 = (db2, res)" by (cases "exec_prepared env sql [Num s, Str name] db1")
  have 1: "products db1 = products db" using assms(1) opened by (auto simp: product_laws_def) (metis fst_conv)
  have law: "update_law env products" using assms(1) by (simp add: product_laws_def)
  have 2: "products db2 = products db1 \<and> (res = None \<or> products db1 name = None) \<or> products db1 name \<noteq> None \<and> products db2 = (products db1)(name \<mapsto> s)"
    by (rule law [unfolded update_law_def, rule_format, OF sql ran])
  have run: "db' = (if ok then db2 else db1)" "r = (if ok then Inr () else Inl Thrown)"
    using assms(2) opened by (auto simp: products_Update_def ExecuteOne_void_def sql ran split: if_splits bool.splits)
  show "products db' = products db \<or> products db name \<noteq> None \<and> products db' = (products db)(name \<mapsto> s) \<and> r = Inr ()"
    using run 1 2 by auto
  show "products db' = (products db)(name \<mapsto> s) \<and> r = Inr ()" if "products_reliable env products" "products db name \<noteq> None"
  proof -
    have "ok" "res \<noteq> None" using that opened sql ran by (auto simp: products_reliable_def) (metis snd_conv)+
    then show ?thesis using run 1 2 that(2) by auto
  qed
qed

section \<open>Updates\<close>

lemma notifications_simps [simp]:
  "notifications ls [] = []" "notifications ls (r # rs) = map (\<lambda>l. (l, sr_Product r, sr_SequenceID r, Updated)) ls @ notifications ls rs"
  by (simp_all add: notifications_def)

lemma notifications_append: "notifications ls (rs @ rs') = notifications ls rs @ notifications ls rs'"
  by (simp add: notifications_def)

lemma notify_simps [simp]:
  "database (NotifyProductUpdate p s m) = database m" "listeners (NotifyProductUpdate p s m) = listeners m"
  "notified (NotifyProductUpdate p s m) = notified m @ map (\<lambda>l. (l, p, s, Updated)) (listeners m)"
  by (simp_all add: NotifyProductUpdate_def)

lemma OnUpdate_record_safe:
  assumes "product_laws env products" and "OnUpdate_record env r m = (m', res)"
  shows "listeners m' = listeners m \<and>
    (products (database m') = products (database m) \<and> (notified m' = notified m \<or> notified m' = notified m @ notifications (listeners m) [r]) \<or>
     newer r (products (database m)) \<and> products (database m') = raise r (products (database m)) \<and>
       notified m' = notified m @ notifications (listeners m) [r])"
proof (cases "sr_Flags r = []")
  case True
  obtain db1 g where g: "products_GetByName env (sr_Product r) (database m) = (db1, g)" by (cases "products_GetByName env (sr_Product r) (database m)")
  note read = GetByName_reads [OF assms(1) g]
  obtain db2 i where i: "products_Insert env (sr_Product r) (sr_SequenceID r) db1 = (db2, i)" by (cases "products_Insert env (sr_Product r) (sr_SequenceID r) db1")
  obtain db3 u where u: "products_Update env (sr_Product r) (sr_SequenceID r) db1 = (db3, u)" by (cases "products_Update env (sr_Product r) (sr_SequenceID r) db1")
  show ?thesis
  proof (cases g)
    case (Inl e)
    then show ?thesis using assms(2) True g read(1) by (auto simp: OnUpdate_record_def)
  next
    case (Inr p)
    show ?thesis
    proof (cases p)
      case None
      then show ?thesis
      proof (cases i)
        case (Inl e)
        then show ?thesis using assms(2) True g None \<open>g = Inr p\<close> read(1) i Insert_writes(1) [OF assms(1) i]
          by (auto simp: OnUpdate_record_def)
      next
        case (Inr x)
        then show ?thesis using assms(2) True g None \<open>g = Inr p\<close> read(1) i Insert_writes(1) [OF assms(1) i]
          by (auto simp: OnUpdate_record_def raise_def newer_def)
      qed
    next
      case (Some q)
      obtain s where s: "products (database m) (sr_Product r) = Some s" "sequence_id q = Inr s"
        using read(2) Some Inr by auto
      show ?thesis
      proof (cases "s < sr_SequenceID r")
        case False
        then show ?thesis using assms(2) True g Some Inr read(1) s by (auto simp: OnUpdate_record_def)
      next
        case newer: True
        show ?thesis
        proof (cases u)
          case (Inl e)
          then show ?thesis using assms(2) True g Some \<open>g = Inr p\<close> read(1) u s newer Update_writes(1) [OF assms(1) u]
          by (auto simp: OnUpdate_record_def)
        next
          case (Inr x)
          then show ?thesis using assms(2) True g Some \<open>g = Inr p\<close> read(1) u s newer Update_writes(1) [OF assms(1) u]
          by (auto simp: OnUpdate_record_def raise_def newer_def)
        qed
      qed
    qed
  qed
next
  case False
  then show ?thesis using assms(2) by (auto simp: OnUpdate_record_def)
qed

lemma OnUpdate_record_reliable:
  assumes "product_laws env products" and "products_reliable env products"
  shows "\<exists>m'. OnUpdate_record env r m = (m', Inr ()) \<and> products (database m') = raise r (products (database m)) \<and>
    listeners m' = listeners m \<and> notified m' = notified m @ notifications (listeners m) (news [r] (products (database m)))"
proof (cases "sr_Flags r = []")
  case True
  obtain db1 g where g: "products_GetByName env (sr_Product r) (database m) = (db1, g)" by (cases "products_GetByName env (sr_Product r) (database m)")
  note read = GetByName_reads [OF assms(1) g]
  obtain db2 i where i: "products_Insert env (sr_Product r) (sr_SequenceID r) db1 = (db2, i)" by (cases "products_Insert env (sr_Product r) (sr_SequenceID r) db1")
  obtain db3 u where u: "products_Update env (sr_Product r) (sr_SequenceID r) db1 = (db3, u)" by (cases "products_Update env (sr_Product r) (sr_SequenceID r) db1")
  consider "g = Inr None" "products (database m) (sr_Product r) = None" | p where "g = Inr (Some p)"
    using read(3) [OF assms(2)] by metis
  then show ?thesis
  proof cases
    case 1
    then show ?thesis using True g i read(1) Insert_writes(2) [OF assms(1) i assms(2)]
      by (auto simp: OnUpdate_record_def raise_def newer_def)
  next
    case (2 p)
    obtain s where "products (database m) (sr_Product r) = Some s" "sequence_id p = Inr s" using read(2) 2 by auto
    then show ?thesis using True g u 2 read(1) Update_writes(2) [OF assms(1) u assms(2)]
      by (auto simp: OnUpdate_record_def raise_def newer_def)
  qed
next
  case False
  then show ?thesis by (auto simp: OnUpdate_record_def raise_def newer_def)
qed

lemma raise_not_before: "not_before st (raise r st)"
  by (auto simp: not_before_def raise_def newer_def split: option.splits)

lemma OnUpdate_records_safe:
  assumes "product_laws env products"
  shows "OnUpdate_records env rs m = (m', res) \<Longrightarrow> listeners m' = listeners m \<and> not_before (products (database m)) (products (database m')) \<and>
    (\<exists>new. notified m' = notified m @ new \<and> (\<forall>p. products (database m') p \<noteq> products (database m) p \<longrightarrow>
      (\<forall>l \<in> set (listeners m). (l, p, the (products (database m') p), Updated) \<in> set new)))"
proof (induction rs arbitrary: m)
  case (Cons r rs)
  obtain m1 res1 where m1: "OnUpdate_record env r m = (m1, res1)" by (cases "OnUpdate_record env r m")
  note safe = OnUpdate_record_safe [OF assms m1]
  then have first: "listeners m1 = listeners m" "not_before (products (database m)) (products (database m1))"
    using raise_not_before by auto
  obtain new1 where new1: "notified m1 = notified m @ new1"
    "\<forall>p. products (database m1) p \<noteq> products (database m) p \<longrightarrow> (\<forall>l \<in> set (listeners m). (l, p, the (products (database m1) p), Updated) \<in> set new1)"
    using safe by (auto simp: raise_def split: if_splits)
  show ?case
  proof (cases res1)
    case (Inl e)
    then show ?thesis using Cons.prems m1 first new1 by auto
  next
    case (Inr x)
    then have "OnUpdate_records env rs m1 = (m', res)" using Cons.prems m1 by simp
    from Cons.IH [OF this] first obtain new2 where rest: "listeners m' = listeners m" "not_before (products (database m1)) (products (database m'))"
      "notified m' = notified m1 @ new2"
      "\<forall>p. products (database m') p \<noteq> products (database m1) p \<longrightarrow> (\<forall>l \<in> set (listeners m). (l, p, the (products (database m') p), Updated) \<in> set new2)"
      by auto
    have "\<forall>p. products (database m') p \<noteq> products (database m) p \<longrightarrow>
        (\<forall>l \<in> set (listeners m). (l, p, the (products (database m') p), Updated) \<in> set (new1 @ new2))"
    proof (intro allI impI ballI)
      fix p l
      assume changed: "products (database m') p \<noteq> products (database m) p" and l: "l \<in> set (listeners m)"
      show "(l, p, the (products (database m') p), Updated) \<in> set (new1 @ new2)"
      proof (cases "products (database m') p = products (database m1) p")
        case True
        then show ?thesis using new1(2) changed l by simp
      next
        case False
        then show ?thesis using rest(4) l by simp
      qed
    qed
    then show ?thesis using first rest new1(1) not_before_trans by auto
  qed
qed auto

lemma OnUpdate_records_reliable:
  assumes "product_laws env products" and "products_reliable env products"
  shows "\<exists>m'. OnUpdate_records env rs m = (m', Inr ()) \<and> products (database m') = fold raise rs (products (database m)) \<and>
    listeners m' = listeners m \<and> notified m' = notified m @ notifications (listeners m) (news rs (products (database m)))"
proof (induction rs arbitrary: m)
  case (Cons r rs)
  obtain m1 where m1: "OnUpdate_record env r m = (m1, Inr ())" "products (database m1) = raise r (products (database m))"
    "listeners m1 = listeners m" "notified m1 = notified m @ notifications (listeners m) (news [r] (products (database m)))"
    using OnUpdate_record_reliable [OF assms, of r m] by blast
  show ?case using Cons.IH [of m1] m1 by (auto simp: notifications_append)
qed simp

lemma fold_raise_not_before: "not_before st (fold raise rs st)"
  by (induction rs arbitrary: st) (auto intro: not_before_trans raise_not_before)

lemma fold_raise_reached: "r \<in> set rs \<Longrightarrow> \<not> newer r (fold raise rs st)"
proof (induction rs arbitrary: st)
  case (Cons q rs)
  show ?case
  proof (cases "r \<in> set rs")
    case False
    then have "r = q" using Cons.prems by simp
    have "\<not> newer r (raise r st)" by (auto simp: newer_def raise_def split: option.splits)
    then show ?thesis using fold_raise_not_before [of "raise r st" rs] \<open>r = q\<close>
      by (fastforce simp: newer_def not_before_def split: option.splits)
  qed (simp add: Cons.IH)
qed simp

lemma nothing_newer: "\<forall>r \<in> set rs. \<not> newer r st \<Longrightarrow> news rs st = [] \<and> fold raise rs st = st"
  by (induction rs) (auto simp: raise_def)

section \<open>The properties\<close>

text \<open>C28: with a database that answers, an update of the monitor refines a map of sequence numbers. A product without flags that is unknown or has a
  smaller number gets the number of the summary, no other product changes, and the listeners are called for exactly
  these products, in the order of the summary. When the timer runs out the monitor updates twice; with the same summary
  the second update changes nothing and calls nobody.\<close>

theorem OnUpdate_refines:
  assumes "product_laws env products" and "products_reliable env products"
  shows "(\<exists>m'. OnUpdate env False (Some rs) m = (m', Inr ()) \<and> products (database m') = fold raise rs (products (database m)) \<and>
      listeners m' = listeners m \<and> notified m' = notified m @ notifications (listeners m) (news rs (products (database m)))) \<and>
    (\<exists>m'. timer_handler env False (Some rs) (Some rs) m = (m', Inr ()) \<and> products (database m') = fold raise rs (products (database m)) \<and>
      listeners m' = listeners m \<and> notified m' = notified m @ notifications (listeners m) (news rs (products (database m))))"
proof -
  obtain m1 where m1: "OnUpdate_records env rs m = (m1, Inr ())" "products (database m1) = fold raise rs (products (database m))"
    "listeners m1 = listeners m" "notified m1 = notified m @ notifications (listeners m) (news rs (products (database m)))"
    using OnUpdate_records_reliable [OF assms, of rs m] by blast
  have again: "news rs (products (database m1)) = [] \<and> fold raise rs (products (database m1)) = products (database m1)"
    unfolding m1(2) by (rule nothing_newer) (simp add: fold_raise_reached)
  obtain m2 where "OnUpdate_records env rs m1 = (m2, Inr ())" "products (database m2) = fold raise rs (products (database m1))"
    "listeners m2 = listeners m1" "notified m2 = notified m1 @ notifications (listeners m1) (news rs (products (database m1)))"
    using OnUpdate_records_reliable [OF assms, of rs m1] by blast
  then show ?thesis using m1 again by (auto simp: OnUpdate_def timer_handler_def BeginUpdate_def)
qed

text \<open>C29: whatever fails, the statements, their commits or the connections, the sequence number of a product is not taken back, and no new one goes
  unnoticed: every listener is called for every product whose number has changed, with the number that it has then.\<close>

theorem OnUpdate_at_least_once:
  assumes "product_laws env products" and "OnUpdate env aborted summary m = (m', res)"
  shows "listeners m' = listeners m \<and> not_before (products (database m)) (products (database m')) \<and>
    (\<exists>new. notified m' = notified m @ new \<and> (\<forall>p. products (database m') p \<noteq> products (database m) p \<longrightarrow>
      (\<forall>l \<in> set (listeners m). (l, p, the (products (database m') p), Updated) \<in> set new)))"
  using assms(2) OnUpdate_records_safe [OF assms(1)] by (auto simp: OnUpdate_def split: if_splits option.splits)

text \<open>A database that holds the table of products only.\<close>

definition example_exec :: "string \<Rightarrow> sql_value list \<Rightarrow> sequences \<Rightarrow> sequences \<times> sql_value list list option" where
  "example_exec sql arguments db =
     (if Some sql = statement_text product_SelByName then (case arguments of
        [Str name] \<Rightarrow> (db, Some (case db name of None \<Rightarrow> [] | Some s \<Rightarrow> [product_row 1 name s])) | _ \<Rightarrow> (db, None))
      else if Some sql = statement_text product_Insert then (case arguments of
        [Str name, Num s] \<Rightarrow> if db name = None then (db(name \<mapsto> s), Some []) else (db, None) | _ \<Rightarrow> (db, None))
      else (case arguments of
        [Num s, Str name] \<Rightarrow> if db name = None then (db, Some []) else (db(name \<mapsto> s), Some []) | _ \<Rightarrow> (db, None)))"

definition example_sql_env :: "sequences sql_env" where
  "example_sql_env = \<lparr>alignment_of = (\<lambda>_. 8), mp_sort = partition_sort, default_of = (\<lambda>_. Num 0),
     as_type = (\<lambda>t v. Some v), open_connection = (\<lambda>db. (db, True)), exec_prepared = example_exec\<rparr>"

lemma texts_differ: "statement_text product_Insert \<noteq> statement_text product_SelByName"
  "statement_text product_Update \<noteq> statement_text product_SelByName" "statement_text product_Update \<noteq> statement_text product_Insert"
  by code_simp+

lemma example_laws: "product_laws example_sql_env id" "products_reliable example_sql_env id"
proof -
  have "select_law example_sql_env id"
    by (auto simp: select_law_def example_sql_env_def example_exec_def split: option.splits)
  moreover have "insert_law example_sql_env id"
    by (auto simp: insert_law_def example_sql_env_def example_exec_def texts_differ dest: sym split: if_splits)
  moreover have "update_law example_sql_env id"
    by (auto simp: update_law_def example_sql_env_def example_exec_def texts_differ dest: sym split: if_splits)
  ultimately show "product_laws example_sql_env id"
    by (simp add: product_laws_def example_sql_env_def partition_sort_permutes)
  show "products_reliable example_sql_env id"
    by (auto simp: products_reliable_def example_sql_env_def example_exec_def texts_differ dest: sym split: option.splits)
qed

definition example_summary_records :: "SummaryRecord list" where
  "example_summary_records = [\<lparr>sr_Product = ''wow'', sr_SequenceID = 42, sr_Flags = []\<rparr>, \<lparr>sr_Product = ''wow'', sr_SequenceID = 7, sr_Flags = ''cdn''\<rparr>,
     \<lparr>sr_Product = ''pro'', sr_SequenceID = 3, sr_Flags = []\<rparr>]"

definition example_monitor :: "(sequences, nat) monitor" where
  "example_monitor = \<lparr>database = [''wow'' \<mapsto> 41, ''pro'' \<mapsto> 3], listeners = [1, 2], notified = []\<rparr>"

lemma OnUpdate_refines_witness:
  "\<exists>m'. timer_handler example_sql_env False (Some example_summary_records) (Some example_summary_records) example_monitor = (m', Inr ()) \<and>
    notified m' = [(1, ''wow'', 42, Updated), (2, ''wow'', 42, Updated)]"
proof -
  have "notifications (listeners example_monitor) (news example_summary_records (id (database example_monitor))) =
      [(1, ''wow'', 42, Updated), (2, ''wow'', 42, Updated)]"
    by (simp add: example_monitor_def example_summary_records_def newer_def raise_def)
  then show ?thesis using OnUpdate_refines [OF example_laws, of example_summary_records example_monitor]
    by (auto simp: example_monitor_def)
qed

lemma OnUpdate_at_least_once_witness:
  "\<exists>m'. OnUpdate example_sql_env False (Some example_summary_records) example_monitor = (m', Inr ()) \<and>
    not_before [''wow'' \<mapsto> 41, ''pro'' \<mapsto> 3] (database m') \<and> database m' ''wow'' = Some 42 \<and>
    (1, ''wow'', 42, Updated) \<in> set (notified m')"
proof -
  obtain m' where m': "OnUpdate example_sql_env False (Some example_summary_records) example_monitor = (m', Inr ())"
    "database m' = fold raise example_summary_records (database example_monitor)"
    using OnUpdate_records_reliable [OF example_laws, of example_summary_records example_monitor] by (auto simp: OnUpdate_def)
  have "database m' ''wow'' = Some 42"
    by (simp add: m'(2) example_monitor_def example_summary_records_def newer_def raise_def)
  then have wow: "database m' ''wow'' = Some 42" .
  obtain new where new: "not_before (database example_monitor) (database m')" "notified m' = notified example_monitor @ new"
    "\<forall>p. database m' p \<noteq> database example_monitor p \<longrightarrow> (\<forall>l \<in> set (listeners example_monitor). (l, p, the (database m' p), Updated) \<in> set new)"
    using OnUpdate_at_least_once [OF example_laws(1) m'(1)] by auto
  have "(1, ''wow'', 42, Updated) \<in> set new"
    using spec [OF new(3), of "''wow''"] wow by (simp add: example_monitor_def)
  then show ?thesis using m'(1) new wow by (intro exI [of _ m']) (auto simp: example_monitor_def)
qed

end
