(* ===== verification/ConnectionPool.thy ===== *)
theory ConnectionPool
  imports Prelude "HOL-Library.Multiset"
begin

text \<open>
  \<^verbatim>\<open>tactmon/backend/ConnectionPool.cpp\<close>: a pool of connections that threads share. The steps of \<open>pool_step\<close> are the sections of
  code during which the mutex is held, and the call of \<^verbatim>\<open>notify_one\<close>, which happens without it.
\<close>

section \<open>State\<close>

text \<open>Where a thread is. A thread that has been woken still has to get the mutex and to look at the pool again.\<close>

datatype 'c phase = Idle | Waiting | Woken | Holding 'c | Notifying

record 'c pool =
  free :: "'c list"             \<comment> \<open>\<^verbatim>\<open>_pool\<close>\<close>
  poolCapacity :: nat
  phases :: "'c phase list"     \<comment> \<open>by thread\<close>

definition Pool_new :: "(nat \<Rightarrow> 'c) \<Rightarrow> nat \<Rightarrow> 'c pool" where
  "Pool_new connect threads = \<lparr>free = map connect [0..<10], poolCapacity = 10, phases = replicate threads Idle\<rparr>"

definition set_phase :: "nat \<Rightarrow> 'c phase \<Rightarrow> 'c pool \<Rightarrow> 'c pool" where
  "set_phase t p s = s\<lparr>phases := (phases s)[t := p]\<rparr>"

section \<open>Operations\<close>

text \<open>\<^verbatim>\<open>Prepare\<close> goes through as many connections as the pool was made of.\<close>

fun prepare_from :: "('c \<Rightarrow> 'c) \<Rightarrow> nat \<Rightarrow> nat \<Rightarrow> 'c list \<Rightarrow> 'c list result" where
  "prepare_from prepare i 0 cs = Inr cs"
| "prepare_from prepare i (Suc n) cs =
     bindr (at cs i) (\<lambda>c. bindr (set_at cs i (prepare c)) (prepare_from prepare (i + 1) n))"

definition Prepare :: "('c \<Rightarrow> 'c) \<Rightarrow> 'c pool \<Rightarrow> 'c pool result" where
  "Prepare prepare s = bindr (prepare_from prepare 0 (poolCapacity s) (free s)) (\<lambda>cs. Inr (s\<lparr>free := cs\<rparr>))"

text \<open>The loop of \<^verbatim>\<open>Open\<close>, from a test of its condition until the thread waits or has a connection.\<close>

definition Open :: "nat \<Rightarrow> 'c pool \<Rightarrow> 'c pool" where
  "Open t s = (case free s of
     [] \<Rightarrow> set_phase t Waiting s
   | connection # rest \<Rightarrow> set_phase t (Holding connection) (s\<lparr>free := rest\<rparr>))"

text \<open>\<^verbatim>\<open>Return\<close>, called by the destructor of a \<^verbatim>\<open>Connection\<close>, until the mutex is unlocked.\<close>

definition Return :: "nat \<Rightarrow> 'c \<Rightarrow> 'c pool \<Rightarrow> 'c pool" where
  "Return t connection s = set_phase t Notifying (s\<lparr>free := free s @ [connection]\<rparr>)"

definition at_phase :: "'c pool \<Rightarrow> nat \<Rightarrow> 'c phase \<Rightarrow> bool" where
  "at_phase s t p \<longleftrightarrow> t < length (phases s) \<and> phases s ! t = p"

inductive pool_step :: "'c pool \<Rightarrow> 'c pool \<Rightarrow> bool" where
  opens: "at_phase s t Idle \<Longrightarrow> pool_step s (Open t s)"
| retries: "at_phase s t Woken \<Longrightarrow> pool_step s (Open t s)"
| wakes_up: "at_phase s t Waiting \<Longrightarrow> pool_step s (set_phase t Woken s)"
| returns: "at_phase s t (Holding c) \<Longrightarrow> pool_step s (Return t c s)"
| notifies: "at_phase s t Notifying \<Longrightarrow> at_phase s u Waiting \<Longrightarrow> pool_step s (set_phase u Woken (set_phase t Idle s))"
| notifies_nobody: "at_phase s t Notifying \<Longrightarrow> \<nexists>u. at_phase s u Waiting \<Longrightarrow> pool_step s (set_phase t Idle s)"

inductive pool_reachable :: "(nat \<Rightarrow> 'c) \<Rightarrow> nat \<Rightarrow> 'c pool \<Rightarrow> bool" for connect threads where
  start: "pool_reachable connect threads (Pool_new connect threads)"
| step: "pool_reachable connect threads s \<Longrightarrow> pool_step s s' \<Longrightarrow> pool_reachable connect threads s'"

section \<open>Invariant\<close>

definition held :: "'c pool \<Rightarrow> 'c multiset" where
  "held s = mset (concat (map (\<lambda>p. case p of Holding c \<Rightarrow> [c] | _ \<Rightarrow> []) (phases s)))"

definition threads_at :: "('c phase \<Rightarrow> bool) \<Rightarrow> 'c pool \<Rightarrow> nat" where
  "threads_at P s = length (filter P (phases s))"

definition awake :: "'c phase \<Rightarrow> bool" where
  "awake p \<longleftrightarrow> p = Woken \<or> p = Notifying"

text \<open>No connection is lost or duplicated; and while a thread waits, each free connection has a thread that will look for it, or
  that will wake one up.\<close>

definition pool_inv :: "(nat \<Rightarrow> 'c) \<Rightarrow> 'c pool \<Rightarrow> bool" where
  "pool_inv connect s \<longleftrightarrow> mset (free s) + held s = mset (map connect [0..<10]) \<and> poolCapacity s = 10 \<and>
     (threads_at (\<lambda>p. p = Waiting) s = 0 \<or> length (free s) \<le> threads_at awake s)"

lemma filter_update:
  "t < length ps \<Longrightarrow> length (filter P (ps[t := p])) + (if P (ps ! t) then 1 else 0) = length (filter P ps) + (if P p then 1 else 0)"
proof (induction ps arbitrary: t)
  case (Cons q ps)
  then show ?case by (cases t) (auto simp del: One_nat_def)
qed simp

lemma concat_update:
  "t < length ps \<Longrightarrow> mset (concat (map f (ps[t := p]))) + mset (f (ps ! t)) = mset (concat (map f ps)) + mset (f p)"
proof (induction ps arbitrary: t)
  case (Cons q ps)
  show ?case
  proof (cases t)
    case (Suc u)
    then show ?thesis using Cons.IH [of u] Cons.prems by (simp add: add.assoc)
  qed simp
qed simp

lemma set_phase_simps [simp]: "free (set_phase t p s) = free s" "poolCapacity (set_phase t p s) = poolCapacity s"
  "length (phases (set_phase t p s)) = length (phases s)"
  by (simp_all add: set_phase_def)

lemma threads_at_free [simp]: "threads_at P (s\<lparr>free := cs\<rparr>) = threads_at P s" "held (s\<lparr>free := cs\<rparr>) = held s"
  "at_phase (s\<lparr>free := cs\<rparr>) t p = at_phase s t p"
  by (simp_all add: threads_at_def held_def at_phase_def)

lemma threads_at_phase:
  "at_phase s t q \<Longrightarrow> threads_at P (set_phase t p s) + (if P q then 1 else 0) = threads_at P s + (if P p then 1 else 0)"
  using filter_update [of t "phases s" P p] by (simp add: at_phase_def threads_at_def set_phase_def)

lemma held_phase:
  "at_phase s t q \<Longrightarrow> held (set_phase t p s) + (case q of Holding c \<Rightarrow> {#c#} | _ \<Rightarrow> {#}) = held s + (case p of Holding c \<Rightarrow> {#c#} | _ \<Rightarrow> {#})"
  using concat_update [of t "phases s" "\<lambda>p. case p of Holding c \<Rightarrow> [c] | _ \<Rightarrow> []" p]
  by (auto simp: at_phase_def held_def set_phase_def split: phase.splits)

lemma threads_at_pos: "0 < threads_at P s \<longleftrightarrow> (\<exists>t p. at_phase s t p \<and> P p)"
  by (auto simp: threads_at_def at_phase_def filter_empty_conv in_set_conv_nth intro: bexI [OF _ nth_mem])

lemma pool_inv_Open:
  assumes "pool_inv connect s" and "at_phase s t q" and "q = Idle \<or> q = Woken"
  shows "pool_inv connect (Open t s)"
proof (cases "free s")
  case Nil
  then show ?thesis using assms held_phase [OF assms(2), of Waiting] by (auto simp: pool_inv_def Open_def)
next
  case (Cons c cs)
  have opened: "Open t s = set_phase t (Holding c) (s\<lparr>free := cs\<rparr>)" using Cons by (simp add: Open_def)
  have at: "at_phase (s\<lparr>free := cs\<rparr>) t q" using assms(2) by simp
  have held: "held (Open t s) = held s + {#c#}" using held_phase [OF at, of "Holding c"] assms(3) opened by auto
  have waiting: "threads_at (\<lambda>p. p = Waiting) (Open t s) = threads_at (\<lambda>p. p = Waiting) s"
    using threads_at_phase [OF at, of "\<lambda>p. p = Waiting" "Holding c"] assms(3) opened by auto
  have awake: "threads_at awake s \<le> Suc (threads_at awake (Open t s))"
    using threads_at_phase [OF at, of awake "Holding c"] opened by (auto split: if_splits)
  show ?thesis using assms(1) Cons held waiting awake by (auto simp: pool_inv_def opened)
qed

lemma pool_inv_step: "pool_step s s' \<Longrightarrow> pool_inv connect s \<Longrightarrow> pool_inv connect s'"
proof (induction rule: pool_step.induct)
  case (opens s t)
  then show ?case using pool_inv_Open by blast
next
  case (retries s t)
  then show ?case using pool_inv_Open by blast
next
  case (wakes_up s t)
  then show ?case
    using threads_at_phase [OF wakes_up(1), of "\<lambda>p. p = Waiting" Woken] threads_at_phase [OF wakes_up(1), of awake Woken]
      held_phase [OF wakes_up(1), of Woken] by (auto simp: pool_inv_def awake_def)
next
  case (returns s t c)
  have at: "at_phase (s\<lparr>free := free s @ [c]\<rparr>) t (Holding c)" using returns(1) by simp
  have held: "held s = held (Return t c s) + {#c#}" using held_phase [OF at, of Notifying] by (simp add: Return_def)
  show ?case
    using threads_at_phase [OF at, of "\<lambda>p. p = Waiting" Notifying] threads_at_phase [OF at, of awake Notifying]
      returns(2) by (auto simp: pool_inv_def awake_def Return_def held [unfolded Return_def])
next
  case (notifies s t u)
  have u: "at_phase (set_phase t Idle s) u Waiting" using notifies(1,2) by (auto simp: at_phase_def set_phase_def nth_list_update)
  show ?case
    using threads_at_phase [OF notifies(1), of "\<lambda>p. p = Waiting" Idle] threads_at_phase [OF notifies(1), of awake Idle]
      held_phase [OF notifies(1), of Idle] threads_at_phase [OF u, of "\<lambda>p. p = Waiting" Woken] threads_at_phase [OF u, of awake Woken]
      held_phase [OF u, of Woken] notifies(3) by (auto simp: pool_inv_def awake_def)
next
  case (notifies_nobody s t)
  have "threads_at (\<lambda>p. p = Waiting) s = 0" using notifies_nobody(2) threads_at_pos [of "\<lambda>p. p = Waiting" s] by auto
  then show ?case
    using threads_at_phase [OF notifies_nobody(1), of "\<lambda>p. p = Waiting" Idle] held_phase [OF notifies_nobody(1), of Idle] notifies_nobody(3)
    by (auto simp: pool_inv_def)
qed

lemma pool_inv_reachable: "pool_reachable connect threads s \<Longrightarrow> pool_inv connect s"
proof (induction rule: pool_reachable.induct)
  case start
  have "held (Pool_new connect threads :: 'a pool) = {#}" by (simp add: held_def Pool_new_def)
  then show ?case by (simp add: pool_inv_def Pool_new_def threads_at_def)
qed (rule pool_inv_step)

lemma size_held: "size (held s) = threads_at (\<lambda>p. \<exists>c. p = Holding c) s"
proof -
  have "length (concat (map (\<lambda>p. case p of Holding c \<Rightarrow> [c] | _ \<Rightarrow> []) ps)) = length (filter (\<lambda>p. \<exists>c. p = Holding c) ps)" for ps :: "'a phase list"
    by (induction ps) (auto split: phase.split)
  then show ?thesis by (simp add: held_def threads_at_def)
qed

lemma pool_sizes:
  assumes "pool_reachable connect threads s"
  shows "length (free s) + size (held s) = 10"
proof -
  have "size (mset (free s) + held s) = size (mset (map connect [0..<10]))"
    using pool_inv_reachable [OF assms] by (simp only: pool_inv_def)
  then show ?thesis by simp
qed

lemma prepare_from_all: "i + n \<le> length cs \<Longrightarrow> prepare_from prepare i n cs = Inr (take i cs @ map prepare (slice i n cs) @ drop (i + n) cs)"
proof (induction n arbitrary: i cs)
  case (Suc n)
  let ?cs = "cs[i := prepare (cs ! i)]"
  have "prepare_from prepare i (Suc n) cs = prepare_from prepare (i + 1) n ?cs" using Suc.prems by simp
  also have "\<dots> = Inr (take (i + 1) ?cs @ map prepare (slice (i + 1) n ?cs) @ drop (i + 1 + n) ?cs)"
    using Suc.prems by (intro Suc.IH) simp
  also have "take (i + 1) ?cs = take i cs @ [prepare (cs ! i)]" using Suc.prems by (simp add: take_Suc_conv_app_nth)
  also have "slice (i + 1) n ?cs = slice (i + 1) n cs" by (simp add: slice_def)
  finally show ?case using Suc.prems by (simp add: slice_def Cons_nth_drop_Suc [symmetric])
qed (simp add: slice_def)

lemma prepare_from_missing: "length cs < i + n \<Longrightarrow> i \<le> length cs \<Longrightarrow> prepare_from prepare i n cs = Inl OutOfBounds"
proof (induction n arbitrary: i cs)
  case (Suc n)
  then show ?case by (cases "i < length cs") (auto simp: at_def)
qed simp

text \<open>C30: no connection is lost, shared or invented: at any time the connections in the pool and those that threads hold are the ten with
  which it was made, so that two threads never hold the same one when these differ; and there are as many in the pool as are
  not held. Statements can be prepared exactly while nobody holds a connection; otherwise \<^verbatim>\<open>Prepare\<close> goes past the end of the pool.\<close>

theorem Pool_conserves:
  assumes "pool_reachable connect threads s"
  shows "mset (free s) + held s = mset (map connect [0..<10]) \<and>
    length (free s) + threads_at (\<lambda>p. \<exists>c. p = Holding c) s = 10 \<and>
    Prepare prepare s = (if held s = {#} then Inr (s\<lparr>free := map prepare (free s)\<rparr>) else Inl OutOfBounds)"
proof -
  have inv: "mset (free s) + held s = mset (map connect [0..<10])" "poolCapacity s = 10"
    using pool_inv_reachable [OF assms] by (simp_all add: pool_inv_def)
  note sizes = pool_sizes [OF assms]
  show ?thesis
  proof (cases "held s = {#}")
    case True
    then show ?thesis using inv sizes prepare_from_all [of 0 10 "free s" prepare] by (simp add: Prepare_def size_held [symmetric] slice_def)
  next
    case False
    then have "length (free s) < 10" using sizes by (cases "held s") auto
    then show ?thesis using inv sizes False prepare_from_missing [of "free s" 0 10 prepare] by (simp add: Prepare_def size_held [symmetric])
  qed
qed

text \<open>C31: no wake-up is lost. While a thread waits and there is a free connection, some thread has been woken, or is about to wake one;
  and while a thread waits there is always one that holds a connection, has been woken or is about to wake another, so that
  the threads of the pool never all wait.\<close>

theorem Pool_wakes:
  assumes "pool_reachable connect threads s" and "at_phase s t Waiting"
  shows "(free s \<noteq> [] \<longrightarrow> (\<exists>u. at_phase s u Woken \<or> at_phase s u Notifying)) \<and>
    (\<exists>u c. at_phase s u (Holding c) \<or> at_phase s u Woken \<or> at_phase s u Notifying)"
proof -
  have "threads_at (\<lambda>p. p = Waiting) s \<noteq> 0" using assms(2) threads_at_pos [of "\<lambda>p. p = Waiting" s] by auto
  then have le: "length (free s) \<le> threads_at awake s" using pool_inv_reachable [OF assms(1)] by (simp add: pool_inv_def)
  have awake: "\<exists>u. at_phase s u Woken \<or> at_phase s u Notifying" if "free s \<noteq> []"
  proof -
    have "0 < threads_at awake s" using le that by (cases "free s") auto
    then show ?thesis by (auto simp: threads_at_pos awake_def)
  qed
  have "\<exists>u c. at_phase s u (Holding c)" if "free s = []"
  proof -
    have "0 < threads_at (\<lambda>p. \<exists>c. p = Holding c) s" using pool_sizes [OF assms(1)] that by (simp add: size_held)
    then show ?thesis by (auto simp: threads_at_pos)
  qed
  then show ?thesis using awake by blast
qed

section \<open>Witnesses\<close>

text \<open>The first threads of eleven open a connection each.\<close>

definition opened :: "nat \<Rightarrow> nat pool" where
  "opened n = fold Open [0..<n] (Pool_new Suc 11)"

lemma opened_reachable: "n \<le> 11 \<Longrightarrow> pool_reachable Suc 11 (opened n) \<and> (\<forall>t. n \<le> t \<and> t < 11 \<longrightarrow> at_phase (opened n) t Idle)"
proof (induction n)
  case 0
  have eq: "opened 0 = Pool_new Suc 11" by (simp add: opened_def)
  have "pool_reachable Suc 11 (opened 0)" unfolding eq by (rule pool_reachable.start)
  moreover have "at_phase (opened 0) t Idle" if "t < 11" for t using that by (simp add: eq at_phase_def Pool_new_def)
  ultimately show ?case by blast
next
  case (Suc n)
  have eq: "opened (Suc n) = Open n (opened n)" by (simp add: opened_def)
  have "pool_reachable Suc 11 (opened (Suc n))"
    unfolding eq using Suc by (intro pool_reachable.step [OF _ pool_step.opens]) auto
  moreover have "at_phase (opened (Suc n)) t Idle" if "Suc n \<le> t" "t < 11" for t
  proof -
    have "at_phase (opened n) t Idle" using Suc that by auto
    then show ?thesis using that unfolding eq by (auto simp: Open_def at_phase_def set_phase_def split: list.split)
  qed
  ultimately show ?case by blast
qed

lemma Pool_conserves_witness:
  "free (opened 3) = [4..<11] \<and> length (free (opened 3)) + threads_at (\<lambda>p. \<exists>c. p = Holding c) (opened 3) = 10 \<and>
    Prepare (\<lambda>c. c + 100) (opened 3) = Inl OutOfBounds"
proof -
  have "held (opened 3) = mset [1, 2, 3]" "free (opened 3) = [4..<11]"
    by (simp_all add: opened_def held_def Pool_new_def Open_def set_phase_def upt_rec numeral_eq_Suc)
  then show ?thesis using Pool_conserves [of Suc 11 "opened 3" "\<lambda>c. c + 100"] opened_reachable [of 3] by simp
qed

lemma Pool_wakes_witness:
  "free (opened 11) = [] \<and> at_phase (opened 11) 10 Waiting \<and>
    (\<exists>u c. at_phase (opened 11) u (Holding c) \<or> at_phase (opened 11) u Woken \<or> at_phase (opened 11) u Notifying)"
proof -
  have "free (opened 11) = [] \<and> at_phase (opened 11) 10 Waiting" by code_simp
  then show ?thesis using Pool_wakes [of Suc 11 "opened 11" 10] opened_reachable [of 11] by simp
qed

end
