(* ===== verification/ProductCache.thy ===== *)
theory ProductCache
  imports Prelude "HOL-Library.Multiset"
begin

text \<open>
  \<^verbatim>\<open>tactmon/backend/Product.cpp\<close> and \<^verbatim>\<open>ProductCache.cpp\<close>: the products that are held in memory. The product of the library is a
  value of type \<open>'p\<close>, and its \<^verbatim>\<open>Load\<close> an argument. Handlers are values of type \<open>'h\<close>; their calls, with the build and the
  product that they are given, are recorded. Time is in seconds.
\<close>

section \<open>Products\<close>

record build =
  bd_id :: nat
  bd_build_config :: string
  bd_cdn_config :: string
  bd_build_name :: string

record ('p, 'h) product =
  currentBuild :: build
  inner :: 'p
  loadListeners :: "'h list"
  loading :: bool

type_synonym ('p, 'h) calls = "('h \<times> nat \<times> 'p) list"
type_synonym 'p loader = "string \<Rightarrow> string \<Rightarrow> 'p \<Rightarrow> 'p \<times> bool"

text \<open>The build of a new product is value-initialised.\<close>

definition Product_of :: "'p \<Rightarrow> ('p, 'h) product" where
  "Product_of p = \<lparr>currentBuild = \<lparr>bd_id = 0, bd_build_config = [], bd_cdn_config = [], bd_build_name = []\<rparr>, inner = p, loadListeners = [], loading = False\<rparr>"

definition AddListener :: "'h \<Rightarrow> ('p, 'h) product \<Rightarrow> ('p, 'h) product" where
  "AddListener handler p = p\<lparr>loadListeners := loadListeners p @ [handler]\<rparr>"

text \<open>\<^verbatim>\<open>Product::Load\<close> up to the call of the product of the library, which is made when the result is true, and what comes behind it.
  The listeners are not forgotten.\<close>

definition Load_enter :: "build \<Rightarrow> ('p, 'h) product \<Rightarrow> ('p, 'h) product \<times> bool" where
  "Load_enter entity p = (if bd_id entity \<noteq> bd_id (currentBuild p)
     then (p\<lparr>currentBuild := entity, loading := True\<rparr>, \<not> loading p) else (p, False))"

definition Load_leave :: "bool \<Rightarrow> ('p, 'h) product \<Rightarrow> ('p, 'h) product \<times> ('p, 'h) calls \<times> bool" where
  "Load_leave loaded p = (if loaded
     then (p\<lparr>loading := False\<rparr>, map (\<lambda>handler. (handler, bd_id (currentBuild p), inner p)) (loadListeners p), True)
     else (p\<lparr>loading := False\<rparr>, [], False))"

definition Product_Load :: "'p loader \<Rightarrow> build \<Rightarrow> ('p, 'h) product \<Rightarrow> ('p, 'h) product \<times> ('p, 'h) calls \<times> bool" where
  "Product_Load load entity p = (let (p, called) = Load_enter entity p in
     if called then let (q, success) = load (bd_build_config entity) (bd_cdn_config entity) (inner p) in Load_leave success (p\<lparr>inner := q\<rparr>)
     else Load_leave True p)"

section \<open>The cache\<close>

record ('p, 'h) cache_record =
  product :: "('p, 'h) product"
  expirationTimer :: nat

record ('p, 'h) product_cache =
  records :: "('p, 'h) cache_record list"
  productFactories :: "string \<Rightarrow> 'p option"
  called :: "('p, 'h) calls"

definition ProductCache_new :: "('p, 'h) product_cache" where
  "ProductCache_new = \<lparr>records = [], productFactories = (\<lambda>_. None), called = []\<rparr>"

text \<open>\<^verbatim>\<open>emplace\<close> keeps a factory that is there.\<close>

definition RegisterFactory :: "string \<Rightarrow> 'p \<Rightarrow> ('p, 'h) product_cache \<Rightarrow> ('p, 'h) product_cache" where
  "RegisterFactory productName p c = (case productFactories c productName of
     None \<Rightarrow> c\<lparr>productFactories := (productFactories c)(productName \<mapsto> p)\<rparr> | Some _ \<Rightarrow> c)"

definition IsAwareOf :: "string \<Rightarrow> ('p, 'h) product_cache \<Rightarrow> bool" where
  "IsAwareOf productName c \<longleftrightarrow> productFactories c productName \<noteq> None"

definition ForEachProduct :: "(('p, 'h) product \<Rightarrow> nat \<Rightarrow> 's \<Rightarrow> 's) \<Rightarrow> ('p, 'h) product_cache \<Rightarrow> 's \<Rightarrow> 's" where
  "ForEachProduct handler c = fold (\<lambda>r. handler (product r) (expirationTimer r)) (records c)"

fun remove_expired :: "nat \<Rightarrow> ('p, 'h) cache_record list \<Rightarrow> ('p, 'h) cache_record list" where
  "remove_expired now [] = []"
| "remove_expired now (r # rs) = (if expirationTimer r \<le> now
     then if loading (product r) then r\<lparr>expirationTimer := expirationTimer r + 60\<rparr> # remove_expired now rs else remove_expired now rs
     else r # remove_expired now rs)"

definition RemoveExpiredEntries :: "nat \<Rightarrow> ('p, 'h) product_cache \<Rightarrow> ('p, 'h) product_cache" where
  "RemoveExpiredEntries now c = c\<lparr>records := remove_expired now (records c)\<rparr>"

text \<open>The loop of \<^verbatim>\<open>LoadConfiguration\<close>: the first record with the build, if any, is renewed, and its handler called or added.\<close>

definition has_build :: "nat \<Rightarrow> ('p, 'h) cache_record \<Rightarrow> bool" where
  "has_build i r \<longleftrightarrow> bd_id (currentBuild (product r)) = i"

fun request_record :: "nat \<Rightarrow> 'h \<Rightarrow> nat \<Rightarrow> ('p, 'h) cache_record list \<Rightarrow> (('p, 'h) cache_record list \<times> ('p, 'h) calls) option" where
  "request_record i handler expiry [] = None"
| "request_record i handler expiry (r # rs) = (if has_build i r
     then let r = r\<lparr>expirationTimer := expiry\<rparr> in
       if loading (product r) then Some (r\<lparr>product := AddListener handler (product r)\<rparr> # rs, [])
       else Some (r # rs, [(handler, i, inner (product r))])
     else map_option (map_prod ((#) r) id) (request_record i handler expiry rs))"

definition new_record :: "'p \<Rightarrow> 'h \<Rightarrow> nat \<Rightarrow> ('p, 'h) cache_record" where
  "new_record p handler now = \<lparr>product = AddListener handler (Product_of p), expirationTimer = now + 15 * 60\<rparr>"

definition LoadConfiguration :: "'p loader \<Rightarrow> string \<Rightarrow> build \<Rightarrow> 'h \<Rightarrow> nat \<Rightarrow> nat \<Rightarrow> ('p, 'h) product_cache \<Rightarrow> ('p, 'h) product_cache \<times> bool" where
  "LoadConfiguration load productName configuration handler lifetime now c =
     (case request_record (bd_id configuration) handler (now + lifetime) (records c) of
        Some (rs, calls) \<Rightarrow> (c\<lparr>records := rs, called := called c @ calls\<rparr>, True)
      | None \<Rightarrow> (case productFactories c productName of
          None \<Rightarrow> (c, False)
        | Some p \<Rightarrow> let r = new_record p handler now; (q, calls, success) = Product_Load load configuration (product r)
            in (c\<lparr>records := records c @ [r\<lparr>product := q\<rparr>], called := called c @ calls\<rparr>, success)))"

section \<open>Interleaving\<close>

text \<open>Other threads use the cache while the product of the library is loading, which takes long. \<open>LoadConfiguration\<close> is cut at this call. What it
  answers is known unless the call is made.\<close>

definition LoadConfiguration_enter :: "string \<Rightarrow> build \<Rightarrow> 'h \<Rightarrow> nat \<Rightarrow> nat \<Rightarrow> ('p, 'h) product_cache \<Rightarrow> ('p, 'h) product_cache \<times> bool option" where
  "LoadConfiguration_enter productName configuration handler lifetime now c =
     (case request_record (bd_id configuration) handler (now + lifetime) (records c) of
        Some (rs, calls) \<Rightarrow> (c\<lparr>records := rs, called := called c @ calls\<rparr>, Some True)
      | None \<Rightarrow> (case productFactories c productName of
          None \<Rightarrow> (c, Some False)
        | Some p \<Rightarrow> let r = new_record p handler now in (case Load_enter configuration (product r) of
            (q, True) \<Rightarrow> (c\<lparr>records := records c @ [r\<lparr>product := q\<rparr>]\<rparr>, None)
          | (q, False) \<Rightarrow> let (q, calls, success) = Load_leave True q
              in (c\<lparr>records := records c @ [r\<lparr>product := q\<rparr>], called := called c @ calls\<rparr>, Some success))))"

text \<open>The return from the product of the library, for the record with the given build.\<close>

fun leave_record :: "nat \<Rightarrow> 'p \<times> bool \<Rightarrow> ('p, 'h) cache_record list \<Rightarrow> ('p, 'h) cache_record list \<times> ('p, 'h) calls" where
  "leave_record i (q, success) [] = ([], [])"
| "leave_record i (q, success) (r # rs) = (if has_build i r
     then let (p, calls, _) = Load_leave success ((product r)\<lparr>inner := q\<rparr>) in (r\<lparr>product := p\<rparr> # rs, calls)
     else map_prod ((#) r) id (leave_record i (q, success) rs))"

definition LoadConfiguration_leave :: "nat \<Rightarrow> 'p \<times> bool \<Rightarrow> ('p, 'h) product_cache \<Rightarrow> ('p, 'h) product_cache \<times> bool" where
  "LoadConfiguration_leave i result c = (let (rs, calls) = leave_record i result (records c)
     in (c\<lparr>records := rs, called := called c @ calls\<rparr>, snd result))"

text \<open>
  Runs of the cache, with the handlers of the requests that were not refused and those that were given up when a load failed.
\<close>

inductive cache_run :: "('p, 'h) product_cache \<Rightarrow> 'h list \<Rightarrow> 'h list \<Rightarrow> bool" where
  starts: "cache_run ProductCache_new [] []"
| registers: "cache_run c accepted dropped \<Longrightarrow> cache_run (RegisterFactory productName p c) accepted dropped"
| requests: "cache_run c accepted dropped \<Longrightarrow> LoadConfiguration_enter productName configuration handler lifetime now c = (c', answer) \<Longrightarrow>
    cache_run c' (if answer = Some False then accepted else accepted @ [handler]) dropped"
| loaded: "cache_run c accepted dropped \<Longrightarrow> r \<in> set (records c) \<Longrightarrow> loading (product r) \<Longrightarrow> has_build i r \<Longrightarrow>
    LoadConfiguration_leave i (q, True) c = (c', answer) \<Longrightarrow> cache_run c' accepted dropped"
| failed: "cache_run c accepted dropped \<Longrightarrow> r \<in> set (records c) \<Longrightarrow> loading (product r) \<Longrightarrow> has_build i r \<Longrightarrow>
    LoadConfiguration_leave i (q, False) c = (c', answer) \<Longrightarrow> cache_run c' accepted (dropped @ loadListeners (product r))"
| expires: "cache_run c accepted dropped \<Longrightarrow> cache_run (RemoveExpiredEntries now c) accepted dropped"

section \<open>Lemmas\<close>

definition builds_of :: "('p, 'h) cache_record list \<Rightarrow> nat list" where
  "builds_of rs = map (\<lambda>r. bd_id (currentBuild (product r))) rs"

fun waiting :: "('p, 'h) cache_record list \<Rightarrow> 'h list" where
  "waiting [] = []"
| "waiting (r # rs) = (if loading (product r) then loadListeners (product r) else []) @ waiting rs"

lemma waiting_append [simp]: "waiting (rs @ rs') = waiting rs @ waiting rs'"
  by (induction rs) auto

lemma builds_of_simps [simp]: "builds_of [] = []" "builds_of (r # rs) = bd_id (currentBuild (product r)) # builds_of rs"
  "builds_of (rs @ rs') = builds_of rs @ builds_of rs'"
  by (simp_all add: builds_of_def)

lemma request_record_None: "request_record i handler expiry rs = None \<longleftrightarrow> i \<notin> set (builds_of rs)"
  by (induction rs) (auto simp: has_build_def Let_def)

lemma request_record_Some:
  "request_record i handler expiry rs = Some (rs', calls) \<Longrightarrow> builds_of rs' = builds_of rs \<and>
    mset (waiting rs') + mset (map fst calls) = mset (waiting rs) + {#handler#}"
proof (induction rs arbitrary: rs' calls)
  case (Cons r rs)
  then show ?case by (fastforce simp: Let_def AddListener_def split: if_splits)
qed simp

lemma remove_expired_builds: "set (builds_of (remove_expired now rs)) \<subseteq> set (builds_of rs)"
  by (induction rs) auto

lemma remove_expired_facts: "distinct (builds_of rs) \<Longrightarrow> distinct (builds_of (remove_expired now rs))" "waiting (remove_expired now rs) = waiting rs"
  using remove_expired_builds by (induction rs) fastforce+

lemma leave_record_facts:
  assumes "r \<in> set rs" and "loading (product r)" and "has_build i r" and "distinct (builds_of rs)" and "leave_record i (q, success) rs = (rs', calls)"
  shows "builds_of rs' = builds_of rs \<and> mset (waiting rs') + mset (loadListeners (product r)) = mset (waiting rs) \<and>
    map fst calls = (if success then loadListeners (product r) else [])"
  using assms
proof (induction rs arbitrary: rs' calls)
  case (Cons s rs)
  show ?case
  proof (cases "has_build i s")
    case True
    then have "r \<notin> set rs" using Cons.prems by (auto simp: has_build_def builds_of_def image_iff)
    then have "r = s" using Cons.prems by simp
    then show ?thesis using Cons.prems True by (auto simp: Load_leave_def comp_def split: if_splits)
  next
    case False
    then have r: "r \<in> set rs" using Cons.prems by auto
    obtain rs1 where "leave_record i (q, success) rs = (rs1, calls)" "rs' = s # rs1"
      using Cons.prems(5) False by (cases "leave_record i (q, success) rs") auto
    then show ?thesis using Cons.IH [OF r, of rs1 calls] Cons.prems by (auto simp: ac_simps)
  qed
qed simp

definition cache_inv :: "('p, 'h) product_cache \<Rightarrow> 'h list \<Rightarrow> 'h list \<Rightarrow> bool" where
  "cache_inv c accepted dropped \<longleftrightarrow> distinct (builds_of (records c)) \<and>
     mset accepted = mset (map fst (called c)) + mset (waiting (records c)) + mset dropped"

lemma Load_enter_new: "Load_enter configuration (product (new_record p handler now)) = (q, b) \<Longrightarrow>
    bd_id (currentBuild q) = bd_id configuration \<and> loading q = b \<and> loadListeners q = [handler]"
  by (auto simp: Load_enter_def new_record_def AddListener_def Product_of_def split: if_splits)

lemma cache_inv_request:
  assumes "cache_inv c accepted dropped" and "LoadConfiguration_enter productName configuration handler lifetime now c = (c', answer)"
  shows "cache_inv c' (if answer = Some False then accepted else accepted @ [handler]) dropped"
proof (cases "request_record (bd_id configuration) handler (now + lifetime) (records c)")
  case (Some x)
  obtain rs calls where x: "x = (rs, calls)" by (cases x)
  have "builds_of rs = builds_of (records c)" "mset (waiting rs) + mset (map fst calls) = mset (waiting (records c)) + {#handler#}"
    using request_record_Some [of _ _ _ _ rs calls] Some x by auto
  then show ?thesis using assms Some x by (auto simp: cache_inv_def LoadConfiguration_enter_def ac_simps)
next
  case None
  then have fresh: "bd_id configuration \<notin> set (builds_of (records c))" by (simp add: request_record_None)
  show ?thesis
  proof (cases "productFactories c productName")
    case None
    then show ?thesis using assms \<open>request_record _ _ _ _ = None\<close> by (simp add: LoadConfiguration_enter_def)
  next
    case (Some p)
    obtain q b where q: "Load_enter configuration (product (new_record p handler now)) = (q, b)"
      by (cases "Load_enter configuration (product (new_record p handler now))")
    note new = Load_enter_new [OF q]
    show ?thesis
      using assms \<open>request_record _ _ _ _ = None\<close> Some q new fresh
      by (cases b) (auto simp: cache_inv_def LoadConfiguration_enter_def Let_def Load_leave_def)
  qed
qed

lemma cache_inv_leave:
  assumes "cache_inv c accepted dropped" and "r \<in> set (records c)" and "loading (product r)" and "has_build i r"
    and "LoadConfiguration_leave i (q, success) c = (c', answer)"
  shows "cache_inv c' accepted (if success then dropped else dropped @ loadListeners (product r))"
proof -
  obtain rs calls where rs: "leave_record i (q, success) (records c) = (rs, calls)" by (cases "leave_record i (q, success) (records c)")
  have "distinct (builds_of (records c))" using assms(1) by (simp add: cache_inv_def)
  note facts = leave_record_facts [OF assms(2-4) this rs]
  have "mset (waiting (records c)) = mset (waiting rs) + mset (loadListeners (product r))" using facts by simp
  then show ?thesis using assms(1,5) rs facts by (cases success) (auto simp: cache_inv_def LoadConfiguration_leave_def ac_simps mset_map [symmetric] simp del: mset_map)
qed

lemma cache_run_inv: "cache_run c accepted dropped \<Longrightarrow> cache_inv c accepted dropped"
proof (induction rule: cache_run.induct)
  case starts
  then show ?case by (simp add: cache_inv_def ProductCache_new_def)
next
  case (registers c accepted dropped productName p)
  then show ?case by (simp add: cache_inv_def RegisterFactory_def split: option.split)
next
  case (requests c accepted dropped productName configuration handler lifetime now c' answer)
  show ?case by (rule cache_inv_request [OF requests(3,2)])
next
  case (loaded c accepted dropped r i q c' answer)
  then show ?case using cache_inv_leave [of c accepted dropped r i q True c' answer] by simp
next
  case (failed c accepted dropped r i q c' answer)
  then show ?case using cache_inv_leave [of c accepted dropped r i q False c' answer] by simp
next
  case (expires c accepted dropped now)
  then show ?case by (simp add: cache_inv_def RemoveExpiredEntries_def remove_expired_facts)
qed

lemma leave_record_last:
  "i \<notin> set (builds_of rs) \<Longrightarrow> has_build i r \<Longrightarrow> leave_record i (q, success) (rs @ [r]) =
    (let (p, calls, _) = Load_leave success ((product r)\<lparr>inner := q\<rparr>) in (rs @ [r\<lparr>product := p\<rparr>], calls))"
  by (induction rs) (auto simp: has_build_def Load_leave_def)

lemma leave_then_request:
  assumes "r \<in> set rs" and "has_build i r" and "leave_record i (q, False) rs = (rs', calls)"
  shows "calls = [] \<and> (\<exists>rs''. request_record i handler expiry rs' = Some (rs'', [(handler, i, q)]))"
  using assms
proof (induction rs arbitrary: rs' calls)
  case (Cons s rs)
  show ?case
  proof (cases "has_build i s")
    case True
    then show ?thesis using Cons.prems(3) by (auto simp: Load_leave_def has_build_def)
  next
    case False
    then have r: "r \<in> set rs" using Cons.prems by auto
    obtain rs1 where "leave_record i (q, False) rs = (rs1, calls)" "rs' = s # rs1"
      using Cons.prems(3) False by (cases "leave_record i (q, False) rs") auto
    then show ?thesis using Cons.IH [OF r, of rs1 calls] Cons.prems(2) False by auto
  qed
qed simp

lemma remove_expired_loading: "r \<in> set rs \<Longrightarrow> loading (product r) \<Longrightarrow> \<exists>r' \<in> set (remove_expired now rs). product r' = product r"
  by (induction rs) auto

section \<open>The properties\<close>

text \<open>Cut at the call of the product of the library, a request is the whole of \<^verbatim>\<open>LoadConfiguration\<close>: entering it and returning from the call,
  with what \<^verbatim>\<open>Load\<close> of the product that the factory made yields, has the same effect and the same answer.\<close>

theorem LoadConfiguration_cut:
  "LoadConfiguration load productName configuration handler lifetime now c =
    (case LoadConfiguration_enter productName configuration handler lifetime now c of
       (c', Some answer) \<Rightarrow> (c', answer)
     | (c', None) \<Rightarrow> LoadConfiguration_leave (bd_id configuration)
         (load (bd_build_config configuration) (bd_cdn_config configuration) (the (productFactories c productName))) c')"
proof (cases "request_record (bd_id configuration) handler (now + lifetime) (records c)")
  case None
  then have fresh: "bd_id configuration \<notin> set (builds_of (records c))" by (simp add: request_record_None)
  show ?thesis
  proof (cases "productFactories c productName")
    case (Some p)
    show ?thesis
    proof (cases "bd_id configuration = 0")
      case True
      then show ?thesis using None Some
        by (simp add: LoadConfiguration_def LoadConfiguration_enter_def Product_Load_def Load_enter_def new_record_def AddListener_def
            Product_of_def Let_def split: prod.splits)
    next
      case False
      obtain q success where "load (bd_build_config configuration) (bd_cdn_config configuration) p = (q, success)"
        by (cases "load (bd_build_config configuration) (bd_cdn_config configuration) p")
      then show ?thesis using None Some False fresh
        by (simp add: LoadConfiguration_def LoadConfiguration_enter_def LoadConfiguration_leave_def Product_Load_def Load_enter_def new_record_def
            AddListener_def Product_of_def leave_record_last has_build_def Load_leave_def split: prod.splits)
    qed
  qed (use None in \<open>simp add: LoadConfiguration_def LoadConfiguration_enter_def\<close>)
qed (auto simp: LoadConfiguration_def LoadConfiguration_enter_def)


text \<open>A product that could not be loaded stays, as if it were. The request that loads it is refused, and the handlers that were added meanwhile
  are not called; but the next request for the build is granted, and its handler given the product
  as the failed \<^verbatim>\<open>Load\<close> left it. Nothing is loaded again until the record expires.\<close>

theorem ProductCache_failed_load:
  assumes "r \<in> set (records c)" and "has_build i r"
  shows "\<exists>c'. LoadConfiguration_leave i (q, False) c = (c', False) \<and> called c' = called c \<and>
    (\<forall>load productName configuration handler lifetime now. bd_id configuration = i \<longrightarrow>
      (\<exists>c''. LoadConfiguration load productName configuration handler lifetime now c' = (c'', True) \<and>
        called c'' = called c' @ [(handler, i, q)]))"
proof -
  obtain rs calls where rs: "leave_record i (q, False) (records c) = (rs, calls)" by (cases "leave_record i (q, False) (records c)")
  have "calls = []" using leave_then_request [OF assms rs] by simp
  moreover have "\<exists>c''. LoadConfiguration load productName configuration handler lifetime now (c\<lparr>records := rs\<rparr>) = (c'', True) \<and>
      called c'' = called c @ [(handler, i, q)]" if "bd_id configuration = i" for load productName configuration handler lifetime now
    using leave_then_request [OF assms rs, of handler "now + lifetime"] that by (auto simp: LoadConfiguration_def)
  ultimately show ?thesis using rs by (auto simp: LoadConfiguration_leave_def)
qed

section \<open>Witnesses\<close>

text \<open>Two requests for a build, of which the first loads it; then the load ends, one way or the other.\<close>

definition example_configuration :: build where
  "example_configuration = \<lparr>bd_id = 7, bd_build_config = ''b'', bd_cdn_config = ''c'', bd_build_name = ''n''\<rparr>"

definition example_loading :: "(string, nat) product_cache" where
  "example_loading = fst (LoadConfiguration_enter ''wow'' example_configuration 2 900 100
     (fst (LoadConfiguration_enter ''wow'' example_configuration 1 900 0 (RegisterFactory ''wow'' ''new'' ProductCache_new))))"

definition example_waiting :: "(string, nat) cache_record" where
  "example_waiting = \<lparr>product = \<lparr>currentBuild = example_configuration, inner = ''new'', loadListeners = [1, 2], loading = True\<rparr>, expirationTimer = 1000\<rparr>"

lemma example_loading_records: "records example_loading = [example_waiting]" "called example_loading = []"
  by (simp_all add: example_loading_def example_waiting_def LoadConfiguration_enter_def RegisterFactory_def ProductCache_new_def Let_def
      new_record_def AddListener_def Product_of_def Load_enter_def example_configuration_def has_build_def)

lemma example_run: "cache_run example_loading [1, 2] []"
proof -
  let ?c = "RegisterFactory ''wow'' ''new'' ProductCache_new :: (string, nat) product_cache"
  let ?e = "LoadConfiguration_enter ''wow'' example_configuration 1 900 0 ?c"
  have 0: "cache_run ?c [] []" by (rule cache_run.registers [OF cache_run.starts])
  have 1: "cache_run (fst ?e) [1] []"
    using cache_run.requests [OF 0, of "''wow''" example_configuration 1 900 0 "fst ?e" "snd ?e"]
    by (simp add: LoadConfiguration_enter_def RegisterFactory_def ProductCache_new_def Let_def new_record_def AddListener_def Product_of_def
        Load_enter_def example_configuration_def)
  then show ?thesis
    using cache_run.requests [OF 1, of "''wow''" example_configuration 2 900 100 example_loading "Some True"]
    by (simp add: example_loading_def LoadConfiguration_enter_def RegisterFactory_def ProductCache_new_def Let_def new_record_def AddListener_def Product_of_def
        Load_enter_def example_configuration_def has_build_def)
qed


lemma ProductCache_failed_load_witness:
  "\<exists>c' c''. LoadConfiguration_leave 7 (''bad'', False) example_loading = (c', False) \<and>
    LoadConfiguration (\<lambda>b c p. (''good'', True)) ''wow'' example_configuration 3 900 200 c' = (c'', True) \<and> called c'' = [(3, 7, ''bad'')]"
proof -
  have "example_waiting \<in> set (records example_loading)" "has_build 7 example_waiting" "bd_id example_configuration = 7"
    by (simp_all add: example_loading_records has_build_def example_waiting_def example_configuration_def)
  then show ?thesis
    using ProductCache_failed_load [of example_waiting example_loading 7 "''bad''"] by (fastforce simp: example_loading_records)
qed

end
