(* ===== verification/Updates.thy ===== *)
theory Updates
  imports Monitor ProductCache WowProduct
begin

text \<open>
  \<^verbatim>\<open>tactmon/Program.cpp\<close>: the listener of the monitor. It asks for the versions of the product that was updated, records those
  that are new as builds, and loads the new builds so that links to their files can be published. The database is that
  of \<open>Database\<close>; what the handler of a loaded build publishes is not modelled.
\<close>

section \<open>The table of builds\<close>

record build_row =
  row_id :: nat
  row_product_name :: string
  row_build_name :: string
  row_build_config :: string
  row_cdn_config :: string
  row_detected_at :: nat
  row_region :: string

definition row_fields :: "build_row \<Rightarrow> sql_value list" where
  "row_fields r = [Num (row_id r), Str (row_product_name r), Str (row_build_name r), Str (row_build_config r), Str (row_cdn_config r),
     Num (row_detected_at r), Str (row_region r)]"

text \<open>The accessors that are used. Entities that were read have values of the types of the columns.\<close>

definition build_number :: "component \<Rightarrow> entity \<Rightarrow> nat" where
  "build_number column entity = (case Entity_get build_Entity column entity of Some (Num n) \<Rightarrow> n | _ \<Rightarrow> 0)"

definition build_text :: "component \<Rightarrow> entity \<Rightarrow> string" where
  "build_text column entity = (case Entity_get build_Entity column entity of Some (Str s) \<Rightarrow> s | _ \<Rightarrow> [])"

definition entity_build :: "entity \<Rightarrow> build" where
  "entity_build entity = \<lparr>bd_id = build_number build_id entity,
     bd_build_config = build_text build_build_config entity, bd_cdn_config = build_text build_cdn_config entity,
     bd_build_name = build_text build_build_name entity\<rparr>"

section \<open>The listener\<close>

record NewBuild =
  Regions :: "string list"
  Configuration :: entity

text \<open>The argument of \<^verbatim>\<open>find_if\<close>.\<close>

definition same_build :: "entity \<Rightarrow> string \<Rightarrow> VersionsRecord \<Rightarrow> NewBuild \<Rightarrow> bool" where
  "same_build databaseRecord buildName version b \<longleftrightarrow>
     build_number build_id (Configuration b) = build_number build_id databaseRecord \<or>
     build_text build_build_name (Configuration b) = buildName \<and>
     build_text build_cdn_config (Configuration b) = vr_CDNConfig version \<and>
     build_text build_build_config (Configuration b) = vr_BuildConfig version"

fun add_new_build :: "entity \<Rightarrow> string \<Rightarrow> VersionsRecord \<Rightarrow> NewBuild list \<Rightarrow> NewBuild list" where
  "add_new_build databaseRecord buildName version [] = [\<lparr>Regions = [vr_Region version], Configuration = databaseRecord\<rparr>]"
| "add_new_build databaseRecord buildName version (b # bs) =
     (if same_build databaseRecord buildName version b then b\<lparr>Regions := Regions b @ [vr_Region version]\<rparr> # bs
      else b # add_new_build databaseRecord buildName version bs)"

text \<open>The record of the build, unless there is one.\<close>

definition insert_build :: "'db sql_env \<Rightarrow> nat \<Rightarrow> string \<Rightarrow> string \<Rightarrow> VersionsRecord \<Rightarrow> 'db \<Rightarrow> 'db \<times> entity option result" where
  "insert_build env now productName buildName version db = (case builds_GetByBuildName env buildName (vr_Region version) db of
     (db, Inl e) \<Rightarrow> (db, Inl e)
   | (db, Inr None) \<Rightarrow> builds_Insert env now (vr_Region version) productName buildName (vr_BuildConfig version) (vr_CDNConfig version) db
   | (db, Inr (Some existingRow)) \<Rightarrow> (db, Inr None))"

text \<open>The body of the loop over the versions. Files of the cache and the database change independently.\<close>

type_synonym 'db progress = "files \<times> 'db \<times> NewBuild list"

definition on_version ::
  "'c resolver \<Rightarrow> 'db sql_env \<Rightarrow> nat \<Rightarrow> string \<Rightarrow> CDNsRecord list \<Rightarrow> VersionsRecord \<Rightarrow> 'db progress \<Rightarrow> 'db progress result" where
  "on_version resolver env now productName cdns version = (\<lambda>(files, db, newBuilds).
     bindr (ResolveConfiguration resolver cdns (vr_BuildConfig version) parse_buildConfig files) (\<lambda>(buildConfig, files).
       case buildConfig of None \<Rightarrow> Inr (files, db, newBuilds)
       | Some config \<Rightarrow> (case insert_build env now productName (bc_BuildName config) version db of
           (db, Inl e) \<Rightarrow> Inl e
         | (db, Inr None) \<Rightarrow> Inr (files, db, newBuilds)
         | (db, Inr (Some databaseRecord)) \<Rightarrow> Inr (files, db, add_new_build databaseRecord (bc_BuildName config) version newBuilds))))"

text \<open>
  The listener. The new builds are a variable of the program that the listener captures. When there is a server for links, each of
  them is loaded, with its place in the list for its handler.
\<close>

definition load_new_builds ::
  "'p loader \<Rightarrow> string \<Rightarrow> nat \<Rightarrow> NewBuild list \<Rightarrow> ('p, string \<times> nat) product_cache \<Rightarrow> ('p, string \<times> nat) product_cache" where
  "load_new_builds load productName now newBuilds cache =
     fold (\<lambda>(i, b) cache. fst (LoadConfiguration load productName (entity_build (Configuration b)) (productName, i) (2 * 60) now cache))
       (enumerate 0 newBuilds) cache"

definition on_update ::
  "'c resolver \<Rightarrow> 'db sql_env \<Rightarrow> 'p loader \<Rightarrow> nat \<Rightarrow> bool \<Rightarrow> Versions option \<Rightarrow> CDNsRecord list option \<Rightarrow> string
    \<Rightarrow> 'db progress \<Rightarrow> ('p, string \<times> nat) product_cache \<Rightarrow> ('db progress \<times> ('p, string \<times> nat) product_cache) result" where
  "on_update resolver env load now proxyServer versions cdns productName progress cache =
     (if \<not> IsAwareOf productName cache then Inr (progress, cache)
      else case (versions, cdns) of
        (Some versions, Some cdns) \<Rightarrow>
          bindr (foldr_res (on_version resolver env now productName cdns) (vs_Records versions) progress) (\<lambda>(files, db, newBuilds).
          Inr ((files, db, newBuilds), if proxyServer then load_new_builds load productName now newBuilds cache else cache))
      | _ \<Rightarrow> Inr (progress, cache))"

section \<open>What the database is relied on for\<close>

definition build_key :: "build_row \<Rightarrow> string \<times> string" where
  "build_key r = (row_build_name r, row_region r)"

definition select_build_law :: "'db sql_env \<Rightarrow> ('db \<Rightarrow> build_row list) \<Rightarrow> bool" where
  "select_build_law env builds \<longleftrightarrow>
     (\<forall>sql name region db db' r. statement_text build_SelByName = Some sql \<longrightarrow> exec_prepared env sql [Str name, Str region] db = (db', r) \<longrightarrow>
        builds db' = builds db \<and> (r = None \<or> r = Some (map row_fields (filter (\<lambda>r. build_key r = (name, region)) (builds db)))))"

definition insert_build_law :: "'db sql_env \<Rightarrow> ('db \<Rightarrow> build_row list) \<Rightarrow> bool" where
  "insert_build_law env builds \<longleftrightarrow>
     (\<forall>sql region productName name config cdn now db db' r. statement_text build_Insert = Some sql \<longrightarrow>
        exec_prepared env sql [Str region, Str productName, Str name, Str config, Str cdn, Num now] db = (db', r) \<longrightarrow>
        builds db' = builds db \<and> r = None \<or>
        (\<exists>i. i \<notin> row_id ` set (builds db) \<and> (let row = \<lparr>row_id = i, row_product_name = productName, row_build_name = name, row_build_config = config,
           row_cdn_config = cdn, row_detected_at = now, row_region = region\<rparr>
         in builds db' = builds db @ [row] \<and> (r = None \<or> r = Some [row_fields row]))))"

definition build_laws :: "'db sql_env \<Rightarrow> ('db \<Rightarrow> build_row list) \<Rightarrow> bool" where
  "build_laws env builds \<longleftrightarrow>
     permutes (mp_sort env) \<and>
     (\<forall>n. as_type env uint32 (Num n) = Some (Num n) \<and> as_type env uint64 (Num n) = Some (Num n)) \<and>
     (\<forall>s. as_type env text_type (Str s) = Some (Str s)) \<and>
     (\<forall>db. builds (fst (open_connection env db)) = builds db) \<and>
     select_build_law env builds \<and> insert_build_law env builds"

text \<open>A database that answers.\<close>

definition builds_reliable :: "'db sql_env \<Rightarrow> bool" where
  "builds_reliable env \<longleftrightarrow>
     (\<forall>db. snd (open_connection env db)) \<and>
     (\<forall>sql name region db. statement_text build_SelByName = Some sql \<longrightarrow> snd (exec_prepared env sql [Str name, Str region] db) \<noteq> None) \<and>
     (\<forall>sql vs db. statement_text build_Insert = Some sql \<longrightarrow> length vs = 6 \<longrightarrow> snd (exec_prepared env sql vs db) \<noteq> None)"

section \<open>Rows of builds\<close>

definition describes :: "entity \<Rightarrow> build_row \<Rightarrow> bool" where
  "describes p r \<longleftrightarrow> build_number build_id p = row_id r \<and> build_text build_build_name p = row_build_name r \<and>
     build_text build_build_config p = row_build_config r \<and> build_text build_cdn_config p = row_cdn_config r"

lemma build_texts: "statement_text build_SelByName \<noteq> None" "statement_text build_Insert \<noteq> None"
  by code_simp+

definition build_columns :: "component list" where
  "build_columns = [build_id, build_product_name, build_build_name, build_build_config, build_cdn_config, build_detected_at, build_region]"

lemma build_Entity_row:
  assumes "build_laws env builds"
  shows "\<exists>p. Entity_row (alignment_of env) (mp_sort env) (default_of env) (as_type env) build_Entity (row_fields r) = Some (Inr p) \<and> describes p r"
proof -
  let ?fvs = "map (\<lambda>v. (v, v)) (row_fields r)"
  have fields: "map fst ?fvs = row_fields r" by (simp add: comp_def)
  have "permutes (mp_sort env)" using assms by (simp add: build_laws_def)
  from Entity_row_reads [OF this, of "''builds''" "''public''" build_columns "as_type env" ?fvs "alignment_of env" "default_of env",
      unfolded fields build_columns_def, folded build_Entity_def]
  obtain p where p: "Entity_row (alignment_of env) (mp_sort env) (default_of env) (as_type env) build_Entity (row_fields r) = Some (Inr p)"
    "\<forall>i < length build_columns. Entity_get build_Entity (build_columns ! i) p = Some (snd (?fvs ! i))"
    using assms by (auto simp: declared_types_def build_laws_def build_columns_def build_Entity_def row_fields_def build_id_def build_product_name_def
        build_build_name_def build_build_config_def build_cdn_config_def build_detected_at_def build_region_def)
  from p(2) have "Entity_get build_Entity build_id p = Some (Num (row_id r))" "Entity_get build_Entity build_build_name p = Some (Str (row_build_name r))"
    "Entity_get build_Entity build_build_config p = Some (Str (row_build_config r))" "Entity_get build_Entity build_cdn_config p = Some (Str (row_cdn_config r))"
    by (auto simp: build_columns_def row_fields_def dest: spec [of _ 0] spec [of _ 2] spec [of _ 3] spec [of _ 4])
  then show ?thesis using p(1) by (auto simp: describes_def build_number_def build_text_def)
qed

lemma opened_builds:
  "build_laws env builds \<Longrightarrow> builds_reliable env \<Longrightarrow> \<exists>db'. open_connection env db = (db', True) \<and> builds db' = builds db"
  by (cases "open_connection env db") (auto simp: build_laws_def builds_reliable_def dest!: spec [of _ db])

lemma GetByBuildName_reads:
  assumes "build_laws env builds" and "builds_reliable env"
  obtains db' r where "builds_GetByBuildName env name region db = (db', Inr r)" and "builds db' = builds db"
    and "r = None \<longleftrightarrow> length (filter (\<lambda>r. build_key r = (name, region)) (builds db)) \<noteq> 1"
proof -
  obtain sql where sql: "statement_text build_SelByName = Some sql" using build_texts(1) by auto
  obtain db1 where opened: "open_connection env db = (db1, True)" "builds db1 = builds db" using opened_builds [OF assms] by blast
  obtain db2 r where ran: "exec_prepared env sql [Str name, Str region] db1 = (db2, r)" by (cases "exec_prepared env sql [Str name, Str region] db1")
  have "select_build_law env builds" using assms(1) by (simp add: build_laws_def)
  from this [unfolded select_build_law_def, rule_format, OF sql ran]
  have law: "builds db2 = builds db1" "r = None \<or> r = Some (map row_fields (filter (\<lambda>r. build_key r = (name, region)) (builds db1)))" by auto
  have "snd (exec_prepared env sql [Str name, Str region] db1) \<noteq> None" using assms(2) sql by (simp add: builds_reliable_def)
  then have "r \<noteq> None" using ran by simp
  then have r: "r = Some (map row_fields (filter (\<lambda>r. build_key r = (name, region)) (builds db)))" using law opened by auto
  show ?thesis
  proof (cases "length (filter (\<lambda>r. build_key r = (name, region)) (builds db)) = 1")
    case True
    then obtain row where row: "filter (\<lambda>r. build_key r = (name, region)) (builds db) = [row]" by (auto simp: length_Suc_conv)
    obtain p where "Entity_row (alignment_of env) (mp_sort env) (default_of env) (as_type env) build_Entity (row_fields row) = Some (Inr p)"
      using build_Entity_row [OF assms(1)] by blast
    then show ?thesis using that [of db2 "Some p"] sql ran opened law(1) r row
      by (simp add: builds_GetByBuildName_def ExecuteOne_def ExecuteOne_work_def)
  next
    case False
    then show ?thesis using that [of db2 None] sql ran opened law(1) r
      by (simp add: builds_GetByBuildName_def ExecuteOne_def ExecuteOne_work_def)
  qed
qed

lemma Insert_build_writes:
  assumes "build_laws env builds" and "builds_reliable env"
  obtains db' p row where "builds_Insert env now region productName name config cdn db = (db', Inr (Some p))" and "builds db' = builds db @ [row]"
    and "describes p row" and "build_key row = (name, region)" and "row_product_name row = productName" and "row_build_config row = config"
    and "row_cdn_config row = cdn" and "row_id row \<notin> row_id ` set (builds db)"
proof -
  let ?vs = "[Str region, Str productName, Str name, Str config, Str cdn, Num now]"
  obtain sql where sql: "statement_text build_Insert = Some sql" using build_texts(2) by auto
  obtain db1 where opened: "open_connection env db = (db1, True)" "builds db1 = builds db" using opened_builds [OF assms] by blast
  obtain db2 r where ran: "exec_prepared env sql ?vs db1 = (db2, r)" by (cases "exec_prepared env sql ?vs db1")
  have "snd (exec_prepared env sql ?vs db1) \<noteq> None" using assms(2) sql by (simp add: builds_reliable_def)
  then have "r \<noteq> None" using ran by simp
  have "insert_build_law env builds" using assms(1) by (simp add: build_laws_def)
  from this [unfolded insert_build_law_def, rule_format, OF sql ran] \<open>r \<noteq> None\<close>
  obtain i row where row: "i \<notin> row_id ` set (builds db1)" "row = \<lparr>row_id = i, row_product_name = productName, row_build_name = name,
      row_build_config = config, row_cdn_config = cdn, row_detected_at = now, row_region = region\<rparr>"
    "builds db2 = builds db1 @ [row]" "r = Some [row_fields row]"
    by (auto simp: Let_def)
  obtain p where p: "Entity_row (alignment_of env) (mp_sort env) (default_of env) (as_type env) build_Entity (row_fields row) = Some (Inr p)" "describes p row"
    using build_Entity_row [OF assms(1)] by blast
  show ?thesis
  proof (rule that)
    show "builds_Insert env now region productName name config cdn db = (db2, Inr (Some p))"
      using sql opened ran row(4) p by (simp add: builds_Insert_def ExecuteOne_def ExecuteOne_work_def)
    show "builds db2 = builds db @ [row]" using row(3) opened by simp
  qed (use row opened p in \<open>simp_all add: build_key_def\<close>)
qed

text \<open>A version is recorded unless exactly one row has its build and region.\<close>

lemma insert_build_cases:
  assumes "build_laws env builds" and "builds_reliable env"
  obtains (known) db' where "length (filter (\<lambda>r. build_key r = (name, vr_Region v)) (builds db)) = 1"
      "insert_build env now productName name v db = (db', Inr None)" "builds db' = builds db"
  | (recorded) db' p row where "length (filter (\<lambda>r. build_key r = (name, vr_Region v)) (builds db)) \<noteq> 1"
      "insert_build env now productName name v db = (db', Inr (Some p))" "builds db' = builds db @ [row]" "describes p row"
      "build_key row = (name, vr_Region v)" "row_product_name row = productName" "row_build_config row = vr_BuildConfig v"
      "row_cdn_config row = vr_CDNConfig v" "row_id row \<notin> row_id ` set (builds db)"
proof -
  obtain db1 r where get: "builds_GetByBuildName env name (vr_Region v) db = (db1, Inr r)" "builds db1 = builds db"
    "r = None \<longleftrightarrow> length (filter (\<lambda>r. build_key r = (name, vr_Region v)) (builds db)) \<noteq> 1"
    by (rule GetByBuildName_reads [OF assms])
  show ?thesis
  proof (cases r)
    case None
    obtain db2 p row where "builds_Insert env now (vr_Region v) productName name (vr_BuildConfig v) (vr_CDNConfig v) db1 = (db2, Inr (Some p))"
      "builds db2 = builds db1 @ [row]" "describes p row" "build_key row = (name, vr_Region v)" "row_product_name row = productName"
      "row_build_config row = vr_BuildConfig v" "row_cdn_config row = vr_CDNConfig v" "row_id row \<notin> row_id ` set (builds db1)"
      by (rule Insert_build_writes [OF assms])
    then show ?thesis using None get by (intro recorded [of db2 p row]) (simp_all add: insert_build_def)
  next
    case (Some p)
    then show ?thesis using get by (intro known [of db1]) (simp_all add: insert_build_def)
  qed
qed

section \<open>The loop over the versions\<close>

text \<open>The versions whose configurations can be resolved, with the names of their builds.\<close>

fun resolved_builds :: "'c resolver \<Rightarrow> CDNsRecord list \<Rightarrow> VersionsRecord list \<Rightarrow> files \<Rightarrow> ((VersionsRecord \<times> string) list \<times> files) result" where
  "resolved_builds resolver cdns [] files = Inr ([], files)"
| "resolved_builds resolver cdns (v # vs) files =
     bindr (ResolveConfiguration resolver cdns (vr_BuildConfig v) parse_buildConfig files) (\<lambda>(buildConfig, files).
     bindr (resolved_builds resolver cdns vs files) (\<lambda>(rs, files).
     Inr ((case buildConfig of None \<Rightarrow> rs | Some config \<Rightarrow> (v, bc_BuildName config) # rs), files)))"

definition version_key :: "VersionsRecord \<times> string \<Rightarrow> string \<times> string" where
  "version_key = (\<lambda>(v, name). (name, vr_Region v))"

text \<open>What the table of builds is: a list of names and regions without repetitions, to which new ones are added.\<close>

definition add_key :: "'a \<Rightarrow> 'a list \<Rightarrow> 'a list" where
  "add_key k ks = (if k \<in> set ks then ks else ks @ [k])"

lemma distinct_add_keys: "distinct ks \<Longrightarrow> distinct (fold add_key new ks)"
  by (induction new arbitrary: ks) (auto simp: add_key_def)

lemma set_add_keys: "set (fold add_key new ks) = set new \<union> set ks"
  by (induction new arbitrary: ks) (auto simp: add_key_def)

text \<open>What the new builds are told apart by.\<close>

definition identity_of :: "NewBuild \<Rightarrow> string \<times> string \<times> string" where
  "identity_of b = (build_text build_build_name (Configuration b), build_text build_cdn_config (Configuration b), build_text build_build_config (Configuration b))"

definition regions_of :: "NewBuild list \<Rightarrow> string multiset" where
  "regions_of bs = mset (concat (map Regions bs))"

lemma regions_of_simps [simp]: "regions_of [] = {#}" "regions_of (b # bs) = mset (Regions b) + regions_of bs"
  by (simp_all add: regions_of_def)

lemma add_new_build_regions: "regions_of (add_new_build p name v bs) = regions_of bs + {#vr_Region v#}"
  by (induction bs) (auto simp: ac_simps)

lemma add_new_build_identities:
  assumes "describes p x" and "row_build_name x = name" and "row_cdn_config x = vr_CDNConfig v" and "row_build_config x = vr_BuildConfig v"
  shows "set (map identity_of (add_new_build p name v bs)) \<subseteq> insert (name, vr_CDNConfig v, vr_BuildConfig v) (set (map identity_of bs))"
    and "distinct (map identity_of bs) \<Longrightarrow> distinct (map identity_of (add_new_build p name v bs))"
proof -
  have id: "identity_of \<lparr>Regions = rs, Configuration = p\<rparr> = (name, vr_CDNConfig v, vr_BuildConfig v)" for rs
    using assms by (simp add: identity_of_def describes_def)
  have upd: "identity_of (b\<lparr>Regions := r\<rparr>) = identity_of b" for b r by (simp add: identity_of_def)
  have same: "identity_of b = (name, vr_CDNConfig v, vr_BuildConfig v) \<Longrightarrow> same_build p name v b" for b
    by (auto simp: identity_of_def same_build_def)
  show sub: "set (map identity_of (add_new_build p name v bs)) \<subseteq> insert (name, vr_CDNConfig v, vr_BuildConfig v) (set (map identity_of bs))" for bs
    by (induction bs) (auto simp: id upd)
  show "distinct (map identity_of (add_new_build p name v bs))" if "distinct (map identity_of bs)"
    using that
  proof (induction bs)
    case (Cons b bs)
    then show ?case using same [of b] sub [of bs] by (cases "same_build p name v b") (auto simp: upd)
  qed simp
qed

lemma count_distinct_key:
  "distinct (map f xs) \<Longrightarrow> length (filter (\<lambda>x. f x = k) xs) = (if k \<in> set (map f xs) then 1 else 0)"
proof (induction xs)
  case (Cons x xs)
  then show ?case by (cases "f x = k") (auto simp: filter_empty_conv)
qed simp

lemma on_versions_record:
  assumes laws: "build_laws env builds" "builds_reliable env"
  shows "distinct (map build_key (builds db)) \<Longrightarrow> distinct (map identity_of newBuilds) \<Longrightarrow> resolved_builds resolver cdns vs files = Inr (rs, files') \<Longrightarrow>
    \<exists>db' newBuilds' rows. foldr_res (on_version resolver env now productName cdns) vs (files, db, newBuilds) = Inr (files', db', newBuilds') \<and>
      builds db' = builds db @ rows \<and> map build_key (builds db') = fold add_key (map version_key rs) (map build_key (builds db)) \<and>
      (\<forall>row \<in> set rows. row_product_name row = productName) \<and> regions_of newBuilds' = regions_of newBuilds + mset (map row_region rows) \<and>
      distinct (map identity_of newBuilds')"
proof (induction vs arbitrary: files db newBuilds rs)
  case (Cons v vs)
  obtain c files1 where c: "ResolveConfiguration resolver cdns (vr_BuildConfig v) parse_buildConfig files = Inr (c, files1)"
    using Cons.prems(3) by (auto simp: bindr_eq_Inr)
  obtain rs1 where rs1: "resolved_builds resolver cdns vs files1 = Inr (rs1, files')"
    "rs = (case c of None \<Rightarrow> rs1 | Some config \<Rightarrow> (v, bc_BuildName config) # rs1)"
    using Cons.prems(3) c by (auto simp: bindr_eq_Inr)
  show ?case
  proof (cases c)
    case None
    then show ?thesis using Cons.IH [OF Cons.prems(1,2) rs1(1)] c rs1(2) by (simp add: on_version_def)
  next
    case (Some config)
    let ?k = "(bc_BuildName config, vr_Region v)"
    have count: "length (filter (\<lambda>r. build_key r = ?k) (builds db)) = (if ?k \<in> set (map build_key (builds db)) then 1 else 0)"
      using Cons.prems(1) by (rule count_distinct_key)
    from laws show ?thesis
    proof (cases rule: insert_build_cases [where name = "bc_BuildName config" and v = v and db = db and now = now and productName = productName])
      case (known db1)
      have "?k \<in> set (map build_key (builds db))"
        using count unfolding known(1) by (metis zero_neq_one)
      then show ?thesis using Cons.IH [of db1 newBuilds files1 rs1] Cons.prems known rs1 c Some
        by (simp add: on_version_def version_key_def add_key_def)
    next
      case (recorded db1 p row)
      have fresh: "?k \<notin> set (map build_key (builds db))"
        using count recorded(1) by (metis if_True)
      let ?bs = "add_new_build p (bc_BuildName config) v newBuilds"
      have ids: "distinct (map identity_of ?bs)"
        using add_new_build_identities(2) [of p row "bc_BuildName config" v newBuilds] recorded Cons.prems(2) by (simp add: build_key_def)
      have keys: "distinct (map build_key (builds db1))" "map build_key (builds db1) = add_key ?k (map build_key (builds db))"
        using recorded fresh Cons.prems(1) by (auto simp: add_key_def)
      obtain db' newBuilds' rows where rest: "foldr_res (on_version resolver env now productName cdns) vs (files1, db1, ?bs) = Inr (files', db', newBuilds')"
        "builds db' = builds db1 @ rows" "map build_key (builds db') = fold add_key (map version_key rs1) (map build_key (builds db1))"
        "\<forall>row \<in> set rows. row_product_name row = productName" "regions_of newBuilds' = regions_of ?bs + mset (map row_region rows)"
        "distinct (map identity_of newBuilds')"
        using Cons.IH [OF keys(1) ids rs1(1)] by blast
      have "row_region row = vr_Region v" using recorded by (simp add: build_key_def)
      have "foldr_res (on_version resolver env now productName cdns) (v # vs) (files, db, newBuilds) = Inr (files', db', newBuilds')"
        using rest(1) recorded(2) c Some by (simp add: on_version_def)
      moreover have "map build_key (builds db') = fold add_key (map version_key rs) (map build_key (builds db))"
        unfolding rest(3) keys(2) using rs1(2) Some by (simp add: version_key_def)
      ultimately show ?thesis
        using rest(2,4,5,6) recorded(3,6) add_new_build_regions [of p "bc_BuildName config" v newBuilds] \<open>row_region row = vr_Region v\<close>
        by (intro exI [of _ db'] exI [of _ newBuilds'] exI [of _ "row # rows"]) (simp add: ac_simps)
    qed
  qed
qed simp

section \<open>The properties\<close>

text \<open>With a database that answers, a notification brings the table of builds up to date. When the versions and the servers of a product are known,
  the table is extended by one row for each version whose configuration can be resolved and whose name and region are not in it yet, in
  their order and under the name of the product, so that names and regions stay unique; the
  rows that were added, and no others, are reported in the list of new builds, by their regions, and builds that
  agree in their name and configurations are reported together.\<close>

theorem on_update_records:
  assumes "build_laws env builds" and "builds_reliable env" and "IsAwareOf productName cache"
    and "distinct (map build_key (builds db))" and "distinct (map identity_of newBuilds)"
    and "resolved_builds resolver cdns (vs_Records versions) files = Inr (rs, files')"
  shows "\<exists>db' newBuilds' rows. on_update resolver env load now proxyServer (Some versions) (Some cdns) productName (files, db, newBuilds) cache =
      Inr ((files', db', newBuilds'), if proxyServer then load_new_builds load productName now newBuilds' cache else cache) \<and>
    builds db' = builds db @ rows \<and> map build_key (builds db') = fold add_key (map version_key rs) (map build_key (builds db)) \<and>
    distinct (map build_key (builds db')) \<and> (\<forall>row \<in> set rows. row_product_name row = productName) \<and>
    regions_of newBuilds' = regions_of newBuilds + mset (map row_region rows) \<and> distinct (map identity_of newBuilds')"
proof -
  obtain db' newBuilds' rows where r: "foldr_res (on_version resolver env now productName cdns) (vs_Records versions) (files, db, newBuilds) =
      Inr (files', db', newBuilds')" "builds db' = builds db @ rows"
    "map build_key (builds db') = fold add_key (map version_key rs) (map build_key (builds db))"
    "\<forall>row \<in> set rows. row_product_name row = productName" "regions_of newBuilds' = regions_of newBuilds + mset (map row_region rows)"
    "distinct (map identity_of newBuilds')"
    using on_versions_record [OF assms(1,2,4,5,6)] by blast
  have "distinct (map build_key (builds db'))" unfolding r(3) by (rule distinct_add_keys [OF assms(4)])
  then have "on_update resolver env load now proxyServer (Some versions) (Some cdns) productName (files, db, newBuilds) cache =
      Inr ((files', db', newBuilds'), if proxyServer then load_new_builds load productName now newBuilds' cache else cache)"
    using r(1) assms(3) by (simp add: on_update_def)
  then show ?thesis using r(2-6) \<open>distinct (map build_key (builds db'))\<close> by blast
qed

text \<open>Once the table holds a name and a region twice, which nothing but the lookup prevents, it never recovers. The lookup does not return more than one
  row, so the build is taken for a new one: every version with this name and region adds another row and is reported again.\<close>

theorem on_version_duplicates:
  assumes "build_laws env builds" and "builds_reliable env"
    and "ResolveConfiguration resolver cdns (vr_BuildConfig v) parse_buildConfig files = Inr (Some config, files')"
    and "2 \<le> length (filter (\<lambda>r. build_key r = (bc_BuildName config, vr_Region v)) (builds db))"
  shows "\<exists>db' newBuilds'. on_version resolver env now productName cdns v (files, db, newBuilds) = Inr (files', db', newBuilds') \<and>
    length (filter (\<lambda>r. build_key r = (bc_BuildName config, vr_Region v)) (builds db')) =
      length (filter (\<lambda>r. build_key r = (bc_BuildName config, vr_Region v)) (builds db)) + 1 \<and>
    regions_of newBuilds' = regions_of newBuilds + {#vr_Region v#}"
  using assms(1,2)
proof (cases rule: insert_build_cases [where name = "bc_BuildName config" and v = v and db = db and now = now and productName = productName])
  case (known db1)
  then show ?thesis using assms(4) by simp
next
  case (recorded db1 p row)
  then show ?thesis using assms(3) by (simp add: on_version_def add_new_build_regions)
qed

section \<open>Witnesses\<close>

text \<open>A database that holds the table of builds only.\<close>

definition fresh_id :: "build_row list \<Rightarrow> nat" where
  "fresh_id rs = Suc (sum_list (map row_id rs))"

definition example_build_exec :: "string \<Rightarrow> sql_value list \<Rightarrow> build_row list \<Rightarrow> build_row list \<times> sql_value list list option" where
  "example_build_exec sql vs rs =
     (if Some sql = statement_text build_SelByName then (case vs of
        [Str name, Str region] \<Rightarrow> (rs, Some (map row_fields (filter (\<lambda>r. build_key r = (name, region)) rs))) | _ \<Rightarrow> (rs, Some []))
      else (case vs of
        [Str region, Str productName, Str name, Str config, Str cdn, Num now] \<Rightarrow>
          (let r = \<lparr>row_id = fresh_id rs, row_product_name = productName, row_build_name = name, row_build_config = config,
             row_cdn_config = cdn, row_detected_at = now, row_region = region\<rparr> in (rs @ [r], Some [row_fields r]))
      | _ \<Rightarrow> (rs, Some [])))"

definition example_build_env :: "build_row list sql_env" where
  "example_build_env = \<lparr>alignment_of = (\<lambda>_. 8), mp_sort = partition_sort, default_of = (\<lambda>_. Num 0),
     as_type = (\<lambda>t v. Some v), open_connection = (\<lambda>db. (db, True)), exec_prepared = example_build_exec\<rparr>"

lemma build_texts_differ: "statement_text build_Insert \<noteq> statement_text build_SelByName"
  by code_simp

lemma fresh_id_fresh: "fresh_id rs \<notin> row_id ` set rs"
  using member_le_sum_list [of _ "map row_id rs"] by (fastforce simp: fresh_id_def)

lemma example_build_laws: "build_laws example_build_env id" "builds_reliable example_build_env"
proof -
  have "select_build_law example_build_env id"
    by (auto simp: select_build_law_def example_build_env_def example_build_exec_def)
  moreover have "insert_build_law example_build_env id"
    using fresh_id_fresh by (auto simp: insert_build_law_def example_build_env_def example_build_exec_def build_texts_differ Let_def)
  ultimately show "build_laws example_build_env id"
    by (simp add: build_laws_def example_build_env_def partition_sort_permutes)
  show "builds_reliable example_build_env"
    by (auto simp: builds_reliable_def example_build_env_def example_build_exec_def Let_def split: list.splits sql_value.splits)
qed

definition example_version :: "string \<Rightarrow> VersionsRecord" where
  "example_version region = \<lparr>vr_Region = region, vr_BuildConfig = ''bcbc'', vr_CDNConfig = ''cccc'', vr_KeyRing = [], vr_BuildID = 1,
     vr_VersionsName = ''1.0'', vr_ProductConfig = []\<rparr>"

definition example_build_row :: "nat \<Rightarrow> string \<Rightarrow> build_row" where
  "example_build_row i region = \<lparr>row_id = i, row_product_name = ''wow'', row_build_name = ''WOW'', row_build_config = ''bcbc'',
     row_cdn_config = ''cccc'', row_detected_at = 5, row_region = region\<rparr>"

lemma example_resolves:
  "ResolveConfiguration (ev_resolver example_env) [example_cdn_record] (vr_BuildConfig (example_version region)) parse_buildConfig example_files =
     Inr (Some example_buildConfig, example_files)"
  using Resolve_cached [OF example_configs(1)] by (simp add: ResolveConfiguration_def example_version_def del: Resolve.simps)

lemma example_build_name: "bc_BuildName example_buildConfig = ''WOW''"
  by (simp add: example_buildConfig_def Let_def)

lemma example_resolved_builds:
  "resolved_builds (ev_resolver example_env) [example_cdn_record] [example_version ''us'', example_version ''eu''] example_files =
     Inr ([(example_version ''us'', ''WOW''), (example_version ''eu'', ''WOW'')], example_files)"
  by (simp add: example_resolves example_build_name)

text \<open>A build that is known in one region is recorded for the other.\<close>

lemma on_update_records_witness:
  "\<exists>db' newBuilds' rows. on_update (ev_resolver example_env) example_build_env (\<lambda>_ _ p. (p, True)) 9 False
      (Some \<lparr>vs_Records = [example_version ''us'', example_version ''eu''], vs_SequenceID = 1\<rparr>) (Some [example_cdn_record]) ''wow''
      (example_files, [example_build_row 1 ''us''], []) (RegisterFactory ''wow'' ''new'' ProductCache_new) =
        Inr ((example_files, db', newBuilds'), RegisterFactory ''wow'' ''new'' ProductCache_new) \<and>
      db' = [example_build_row 1 ''us''] @ rows \<and> map build_key db' = [(''WOW'', ''us''), (''WOW'', ''eu'')] \<and>
      regions_of newBuilds' = mset (map row_region rows)"
proof -
  let ?cache = "RegisterFactory ''wow'' ''new'' ProductCache_new :: (string, string \<times> nat) product_cache"
  have aware: "IsAwareOf ''wow'' ?cache" by (simp add: IsAwareOf_def RegisterFactory_def ProductCache_new_def)
  have keys: "distinct (map build_key (id [example_build_row 1 ''us'']))" "distinct (map identity_of [])" by simp_all
  have key: "build_key (example_build_row i region) = (''WOW'', region)" for i region
    by (simp add: build_key_def example_build_row_def)
  have region: "vr_Region (example_version region) = region" for region by (simp add: example_version_def)
  from example_resolved_builds
  have "resolved_builds (ev_resolver example_env) [example_cdn_record]
      (vs_Records \<lparr>vs_Records = [example_version ''us'', example_version ''eu''], vs_SequenceID = 1\<rparr>) example_files =
    Inr ([(example_version ''us'', ''WOW''), (example_version ''eu'', ''WOW'')], example_files)" by simp
  from on_update_records [OF example_build_laws aware keys this, where now = 9 and proxyServer = False and load = "\<lambda>_ _ p. (p, True)"]
  show ?thesis by (simp add: key region add_key_def version_key_def) metis
qed

text \<open>Two rows of the same build and region become three.\<close>

lemma on_version_duplicates_witness:
  "\<exists>db' newBuilds'. on_version (ev_resolver example_env) example_build_env 9 ''wow'' [example_cdn_record] (example_version ''us'')
      (example_files, [example_build_row 1 ''us'', example_build_row 2 ''us''], []) = Inr (example_files, db', newBuilds') \<and>
      length (filter (\<lambda>r. build_key r = (''WOW'', ''us'')) db') = 3 \<and> regions_of newBuilds' = {#''us''#}"
proof -
  have key: "build_key (example_build_row i ''us'') = (''WOW'', ''us'')" for i by (simp add: build_key_def example_build_row_def)
  have region: "vr_Region (example_version ''us'') = ''us''" by (simp add: example_version_def)
  have "2 \<le> length (filter (\<lambda>r. build_key r = (bc_BuildName example_buildConfig, vr_Region (example_version ''us'')))
      (id [example_build_row 1 ''us'', example_build_row 2 ''us'']))"
    by (simp add: key region example_build_name)
  from on_version_duplicates [OF example_build_laws example_resolves this, where now = 9 and productName = "''wow''" and newBuilds = "[]"]
  show ?thesis by (simp add: key region example_build_name eval_nat_numeral)
qed

end
