(* ===== verification/Repository.thy ===== *)
theory Repository
  imports Updates
begin

text \<open>
  \<^verbatim>\<open>tactmon/backend/db/repository\<close>: repositories that keep a copy of their table and refresh it by a timer, and the statements of
  those of channels, files and commands. The mutex of a copy makes its operations atomic. Preparing the statements and logging are
  not modelled.
\<close>

section \<open>Statements with many rows\<close>

text \<open>\<^verbatim>\<open>PreparedStatementBase::Execute\<close>: an entity for each row, and none when anything throws but the opening of the connection.\<close>

definition Execute_work :: "'db sql_env \<Rightarrow> component option \<Rightarrow> component \<Rightarrow> sql_value list \<Rightarrow> 'db \<Rightarrow> 'db \<times> entity list" where
  "Execute_work env query result_type arguments db = (case statement_text query of None \<Rightarrow> (db, []) | Some text \<Rightarrow>
     (case exec_prepared env text arguments db of
        (db, None) \<Rightarrow> (db, [])
      | (db, Some resultSet) \<Rightarrow> (db, case all_of (map (row_entity env result_type) resultSet) of None \<Rightarrow> [] | Some entities \<Rightarrow> entities)))"

definition Execute_all :: "'db sql_env \<Rightarrow> component option \<Rightarrow> component \<Rightarrow> sql_value list \<Rightarrow> 'db \<Rightarrow> 'db \<times> entity list result" where
  "Execute_all env query result_type arguments db = (case open_connection env db of
     (db, False) \<Rightarrow> (db, Inl Thrown)
   | (db, True) \<Rightarrow> map_prod id Inr (Execute_work env query result_type arguments db))"

text \<open>Without a result, both forms do the same.\<close>

definition Execute_void :: "'db sql_env \<Rightarrow> component option \<Rightarrow> sql_value list \<Rightarrow> 'db \<Rightarrow> 'db \<times> unit result" where
  "Execute_void env query arguments db = (case open_connection env db of
     (db, False) \<Rightarrow> (db, Inl Thrown)
   | (db, True) \<Rightarrow> (case statement_text query of None \<Rightarrow> (db, Inr ()) | Some text \<Rightarrow>
       (fst (exec_prepared env text arguments db), Inr ())))"

section \<open>Copies of tables\<close>

text \<open>The accessors of an entity that was read: its values have the types of the columns.\<close>

definition column_number :: "component \<Rightarrow> component \<Rightarrow> entity \<Rightarrow> nat" where
  "column_number table column entity = (case Entity_get table column entity of Some (Num n) \<Rightarrow> n | _ \<Rightarrow> 0)"

definition column_text :: "component \<Rightarrow> component \<Rightarrow> entity \<Rightarrow> string" where
  "column_text table column entity = (case Entity_get table column entity of Some (Str s) \<Rightarrow> s | _ \<Rightarrow> [])"

text \<open>The arguments of the template, and its members: the copy, ordered by the primary key, and whether the timer is waited for.\<close>

record repository_type =
  LOAD_STATEMENT :: "component option"
  ENTITY :: component
  PK :: component

record repository =
  storage :: "(nat \<times> entity) list"
  waiting :: bool

text \<open>\<^verbatim>\<open>flat_map::emplace\<close>.\<close>

fun flat_emplace :: "nat \<Rightarrow> 'e \<Rightarrow> (nat \<times> 'e) list \<Rightarrow> (nat \<times> 'e) list" where
  "flat_emplace k v [] = [(k, v)]"
| "flat_emplace k v ((k', v') # m) =
     (if k < k' then (k, v) # (k', v') # m else if k = k' then (k', v') # m else (k', v') # flat_emplace k v m)"

definition primary_key :: "repository_type \<Rightarrow> entity \<Rightarrow> nat" where
  "primary_key T entity = column_number (ENTITY T) (PK T) entity"

definition fill :: "repository_type \<Rightarrow> entity list \<Rightarrow> (nat \<times> entity) list" where
  "fill T entities = fold (\<lambda>entity. flat_emplace (primary_key T entity) entity) entities []"

definition LoadFromDB :: "'db sql_env \<Rightarrow> repository_type \<Rightarrow> 'db \<times> repository \<Rightarrow> ('db \<times> repository) \<times> unit result" where
  "LoadFromDB env T = (\<lambda>(db, r). case Execute_all env (LOAD_STATEMENT T) (ENTITY T) [] db of
     (db, Inl e) \<Rightarrow> ((db, r), Inl e)
   | (db, Inr entities) \<Rightarrow> ((db, r\<lparr>storage := fill T entities\<rparr>), Inr ()))"

definition Repository_Refresh :: "'db sql_env \<Rightarrow> repository_type \<Rightarrow> bool \<Rightarrow> 'db \<times> repository \<Rightarrow> ('db \<times> repository) \<times> unit result" where
  "Repository_Refresh env T aborted st = (if aborted then (st, Inr ()) else case LoadFromDB env T st of
     (st, Inl e) \<Rightarrow> (st, Inl e)
   | ((db, r), Inr _) \<Rightarrow> ((db, r\<lparr>waiting := True\<rparr>), Inr ()))"

definition repository_new :: "'db sql_env \<Rightarrow> repository_type \<Rightarrow> 'db \<Rightarrow> ('db \<times> repository) \<times> unit result" where
  "repository_new env T db = Repository_Refresh env T False (db, \<lparr>storage = [], waiting = False\<rparr>)"

definition Get :: "nat \<Rightarrow> repository \<Rightarrow> entity option" where
  "Get k r = map_of (storage r) k"

text \<open>A callback changes a state that the caller has captured.\<close>

definition ForEach :: "(entity \<Rightarrow> 's \<Rightarrow> 's) \<Rightarrow> repository \<Rightarrow> 's \<Rightarrow> 's" where
  "ForEach callback r s = fold (\<lambda>(k, v). callback v) (storage r) s"

fun any_entry :: "(entity \<Rightarrow> bool) \<Rightarrow> (nat \<times> entity) list \<Rightarrow> bool" where
  "any_entry callback [] = False"
| "any_entry callback ((k, v) # m) = (if callback v then True else any_entry callback m)"

definition Any :: "(entity \<Rightarrow> bool) \<Rightarrow> repository \<Rightarrow> bool" where
  "Any callback r = any_entry callback (storage r)"

definition WithValues :: "(entity list \<Rightarrow> 'a) \<Rightarrow> repository \<Rightarrow> 'a" where
  "WithValues callback r = callback (map snd (storage r))"

section \<open>The repositories\<close>

definition builds_type :: repository_type where
  "builds_type = \<lparr>LOAD_STATEMENT = build_Select, ENTITY = build_Entity, PK = build_id\<rparr>"

definition products_type :: repository_type where
  "products_type = \<lparr>LOAD_STATEMENT = product_Select, ENTITY = product_Entity, PK = product_id\<rparr>"

definition channels_type :: repository_type where
  "channels_type = \<lparr>LOAD_STATEMENT = channel_Select, ENTITY = channel_Entity, PK = Column ''id'' uint32\<rparr>"

definition files_type :: repository_type where
  "files_type = \<lparr>LOAD_STATEMENT = file_Select, ENTITY = file_Entity, PK = Column ''id'' uint32\<rparr>"

definition builds_GetByProductName :: "'db sql_env \<Rightarrow> string \<Rightarrow> 'db \<Rightarrow> 'db \<times> entity list result" where
  "builds_GetByProductName env productName = Execute_all env build_SelByProduct BuildName [Str productName]"

definition builds_GetStatisticsForProduct :: "'db sql_env \<Rightarrow> string \<Rightarrow> 'db \<Rightarrow> 'db \<times> entity option result" where
  "builds_GetStatisticsForProduct env productName = ExecuteOne env build_SelStatistics BuildStatistics [Str productName]"

text \<open>Insertions have the entity as their result, of which there are no rows.\<close>

definition channels_Insert :: "'db sql_env \<Rightarrow> nat \<Rightarrow> nat \<Rightarrow> string \<Rightarrow> 'db \<Rightarrow> 'db \<times> unit result" where
  "channels_Insert env guildID channelID productName db = map_prod id (map_sum id (\<lambda>_. ()))
     (Execute_all env channel_Insert channel_Entity [Num guildID, Num channelID, Str productName] db)"

definition channels_Delete :: "'db sql_env \<Rightarrow> nat \<Rightarrow> string \<Rightarrow> 'db \<Rightarrow> 'db \<times> unit result" where
  "channels_Delete env channelID productName = Execute_void env channel_Delete [Num channelID, Str productName]"

definition files_Insert :: "'db sql_env \<Rightarrow> string \<Rightarrow> string \<Rightarrow> string option \<Rightarrow> 'db \<Rightarrow> 'db \<times> unit result" where
  "files_Insert env productName filePath displayName db = map_prod id (map_sum id (\<lambda>_. ()))
     (Execute_all env file_Insert file_Entity
       [Str productName, Str filePath, Str (case displayName of None \<Rightarrow> filePath | Some name \<Rightarrow> name)] db)"

definition files_Delete :: "'db sql_env \<Rightarrow> string \<Rightarrow> string \<Rightarrow> 'db \<Rightarrow> 'db \<times> unit result" where
  "files_Delete env productName filePath = Execute_void env file_Delete [Str productName, Str filePath]"

definition commands_FindCommand :: "'db sql_env \<Rightarrow> string \<Rightarrow> 'db \<Rightarrow> 'db \<times> entity option result" where
  "commands_FindCommand env name = ExecuteOne env command_SelectByName command_Entity [Str name]"

definition commands_InsertOrUpdate :: "'db sql_env \<Rightarrow> string \<Rightarrow> nat \<Rightarrow> nat \<Rightarrow> 'db \<Rightarrow> 'db \<times> unit result" where
  "commands_InsertOrUpdate env commandName hash version db = map_prod id (map_sum id (\<lambda>_. ()))
     (ExecuteOne env command_InsertOrUpdate command_Entity [Str commandName, Num hash, Num version] db)"

section \<open>The copy is a map\<close>

lemma set_flat_emplace: "fst ` set (flat_emplace k v m) = insert k (fst ` set m)"
  by (induction k v m rule: flat_emplace.induct) auto

lemma sorted_flat_emplace: "sorted_wrt (<) (map fst m) \<Longrightarrow> sorted_wrt (<) (map fst (flat_emplace k v m))"
proof (induction k v m rule: flat_emplace.induct)
  case (2 k v k' v' m)
  have "set (map fst (flat_emplace k v m)) = insert k (set (map fst m))"
    using set_flat_emplace [of k v m] by simp
  then show ?case using 2 by (auto simp del: set_map)
qed simp

text \<open>The first value with a key is kept.\<close>

lemma map_of_flat_emplace:
  "sorted_wrt (<) (map fst m) \<Longrightarrow> map_of (flat_emplace k v m) = (case map_of m k of None \<Rightarrow> (map_of m)(k \<mapsto> v) | Some _ \<Rightarrow> map_of m)"
proof (induction k v m rule: flat_emplace.induct)
  case (2 k v k' v' m)
  have "map_of m k = None" if "k < k'"
    using that 2(2) by (force simp: map_of_eq_None_iff)
  then show ?case using 2 by (auto simp: fun_eq_iff split: option.split)
qed (simp add: fun_eq_iff)

lemma fold_flat_emplace:
  "sorted_wrt (<) (map fst m) \<Longrightarrow> sorted_wrt (<) (map fst (fold (\<lambda>e. flat_emplace (f e) e) es m)) \<and>
    map_of (fold (\<lambda>e. flat_emplace (f e) e) es m) k = (case map_of m k of Some e \<Rightarrow> Some e | None \<Rightarrow> List.find (\<lambda>e. f e = k) es)"
proof (induction es arbitrary: m)
  case (Cons e es)
  then show ?case using Cons.IH [OF sorted_flat_emplace [OF Cons.prems], of "f e" e]
    by (auto simp: map_of_flat_emplace split: option.split)
qed (simp split: option.split)

lemma fill_map:
  "sorted_wrt (<) (map fst (fill T es))" "map_of (fill T es) k = List.find (\<lambda>e. primary_key T e = k) es"
  using fold_flat_emplace [of "[]" "primary_key T" es k] by (simp_all add: fill_def)

lemma sorted_map_of: "sorted_wrt (<) (map fst m) \<Longrightarrow> (k, v) \<in> set m \<longleftrightarrow> map_of m k = Some (v :: 'v)" for m :: "(nat \<times> 'v) list"
proof -
  assume "sorted_wrt (<) (map fst m)"
  then have "distinct (map fst m)" by (simp add: strict_sorted_iff)
  then show ?thesis by simp
qed

section \<open>What the copy holds\<close>

text \<open>The database holds a table whose rows can be read as entities, and the statement that loads the repository selects them.\<close>

definition load_law :: "'db sql_env \<Rightarrow> repository_type \<Rightarrow> ('db \<Rightarrow> sql_value list list) \<Rightarrow> bool" where
  "load_law env T rows \<longleftrightarrow>
     (\<forall>db. rows (fst (open_connection env db)) = rows db) \<and>
     (\<exists>sql. statement_text (LOAD_STATEMENT T) = Some sql \<and> (\<forall>db db' r. exec_prepared env sql [] db = (db', r) \<longrightarrow>
        rows db' = rows db \<and> (r = None \<or> r = Some (rows db)))) \<and>
     (\<forall>db. \<forall>row \<in> set (rows db). row_entity env (ENTITY T) row \<noteq> None)"

definition table_entities :: "'db sql_env \<Rightarrow> repository_type \<Rightarrow> sql_value list list \<Rightarrow> entity list" where
  "table_entities env T rows = map (\<lambda>row. the (row_entity env (ENTITY T) row)) rows"

lemma all_of_converted: "\<forall>x \<in> set xs. f x \<noteq> None \<Longrightarrow> all_of (map f xs) = Some (map (\<lambda>x. the (f x)) xs)"
  by (rule all_of_map_Some) auto

definition statement_fails :: "'db sql_env \<Rightarrow> repository_type \<Rightarrow> bool" where
  "statement_fails env T \<longleftrightarrow> (\<exists>sql db. statement_text (LOAD_STATEMENT T) = Some sql \<and> snd (exec_prepared env sql [] db) = None)"

lemma Execute_all_loads:
  assumes "load_law env T rows"
  obtains (thrown) db' where "Execute_all env (LOAD_STATEMENT T) (ENTITY T) [] db = (db', Inl Thrown)" and "rows db' = rows db"
      and "\<not> snd (open_connection env db)"
  | (failed) db' where "Execute_all env (LOAD_STATEMENT T) (ENTITY T) [] db = (db', Inr [])" and "rows db' = rows db" and "statement_fails env T"
  | (loaded) db' where "Execute_all env (LOAD_STATEMENT T) (ENTITY T) [] db = (db', Inr (table_entities env T (rows db)))" and "rows db' = rows db"
proof -
  obtain db1 opened where o: "open_connection env db = (db1, opened)" by (cases "open_connection env db")
  obtain sql where sql: "statement_text (LOAD_STATEMENT T) = Some sql"
    "\<And>db db' r. exec_prepared env sql [] db = (db', r) \<Longrightarrow> rows db' = rows db \<and> (r = None \<or> r = Some (rows db))"
    using assms unfolding load_law_def by blast
  obtain db2 r where e: "exec_prepared env sql [] db1 = (db2, r)" by (cases "exec_prepared env sql [] db1")
  have "rows (fst (open_connection env db)) = rows db" using assms by (simp add: load_law_def)
  then have same: "rows db1 = rows db" using o by simp
  have conv: "\<forall>row \<in> set (rows db). row_entity env (ENTITY T) row \<noteq> None" using assms by (simp add: load_law_def)
  show ?thesis
  proof (cases opened)
    case False
    then show ?thesis using thrown [of db1] o same by (simp add: Execute_all_def)
  next
    case True
    have "statement_fails env T" if "r = None" using that e sql(1) unfolding statement_fails_def by (metis snd_conv)
    moreover have "r = None \<or> r = Some (rows db)" "rows db2 = rows db" using sql(2) [OF e] same by auto
    ultimately show ?thesis
      using failed [of db2] loaded [of db2] True o e sql(1) all_of_converted [OF conv]
      by (auto simp: Execute_all_def Execute_work_def table_entities_def)
  qed
qed

section \<open>Properties of a refresh\<close>

text \<open>A refresh makes the copy the table. It leaves the table alone; when the database answers, looking up a key yields the first row
  with that key, and the entries are visited in the order of their keys, each entity under its own key and no key twice. A statement that fails
  empties the copy. Only a connection that cannot be opened keeps the copy, and then the exception skips the timer, so it is not set
  again.\<close>

lemma Refresh_copies:
  assumes "load_law env T rows" and "\<not> waiting r"
  shows "\<exists>db' r' out. Repository_Refresh env T False (db, r) = ((db', r'), out) \<and> rows db' = rows db \<and>
    (out = Inr () \<and> waiting r' \<and> (storage r' = [] \<and> statement_fails env T \<or>
       (\<forall>k. Get k r' = List.find (\<lambda>e. primary_key T e = k) (table_entities env T (rows db)))) \<and>
       sorted_wrt (<) (map fst (storage r')) \<and> (\<forall>(k, e) \<in> set (storage r'). primary_key T e = k) \<or>
     out = Inl Thrown \<and> r' = r \<and> \<not> snd (open_connection env db))"
  using assms(1)
proof (cases rule: Execute_all_loads [where db = db])
  case (thrown db')
  then show ?thesis by (simp add: Repository_Refresh_def LoadFromDB_def)
next
  case (failed db')
  then show ?thesis by (simp add: Repository_Refresh_def LoadFromDB_def fill_def)
next
  case (loaded db')
  let ?es = "table_entities env T (rows db)"
  have "\<forall>(k, e) \<in> set (fill T ?es). primary_key T e = k"
    using fill_map [of T ?es] by (auto simp: sorted_map_of find_Some_iff)
  then show ?thesis using loaded fill_map [of T ?es] by (simp add: Repository_Refresh_def LoadFromDB_def Get_def)
qed

text \<open>
  The life of a repository: its constructor refreshes it, then the timer does, as long as it is not cancelled, while everybody else changes the
  database. An exception in the handler of the timer ends the program. The databases of the refreshes are recorded.
\<close>

inductive repository_run :: "'db sql_env \<Rightarrow> repository_type \<Rightarrow> 'db list \<Rightarrow> 'db \<times> repository \<Rightarrow> bool" for env T where
  starts: "repository_new env T db = ((db', r), Inr ()) \<Longrightarrow> repository_run env T [db] (db', r)"
| expires: "repository_run env T seen (db, r) \<Longrightarrow> waiting r \<Longrightarrow>
    Repository_Refresh env T False (db, r\<lparr>waiting := False\<rparr>) = ((db', r'), Inr ()) \<Longrightarrow> repository_run env T (db # seen) (db', r')"
| cancelled: "repository_run env T seen (db, r) \<Longrightarrow> waiting r \<Longrightarrow>
    Repository_Refresh env T True (db, r\<lparr>waiting := False\<rparr>) = ((db', r'), Inr ()) \<Longrightarrow> repository_run env T seen (db', r')"
| elsewhere: "repository_run env T seen (db, r) \<Longrightarrow> repository_run env T seen (db', r)"

definition copies :: "'db sql_env \<Rightarrow> repository_type \<Rightarrow> sql_value list list \<Rightarrow> repository \<Rightarrow> bool" where
  "copies env T rows r \<longleftrightarrow> (\<forall>k. Get k r = List.find (\<lambda>e. primary_key T e = k) (table_entities env T rows))"

definition repository_inv :: "'db sql_env \<Rightarrow> repository_type \<Rightarrow> ('db \<Rightarrow> sql_value list list) \<Rightarrow> 'db list \<Rightarrow> repository \<Rightarrow> bool" where
  "repository_inv env T rows seen r \<longleftrightarrow>
     sorted_wrt (<) (map fst (storage r)) \<and> (\<forall>(k, e) \<in> set (storage r). primary_key T e = k) \<and>
     (storage r = [] \<and> statement_fails env T \<or> (\<exists>db \<in> set seen. copies env T (rows db) r))"

lemma Refresh_inv:
  assumes "load_law env T rows" and "\<not> waiting r" and "Repository_Refresh env T False (db, r) = ((db', r'), Inr ())" and "db \<in> set seen"
  shows "repository_inv env T rows seen r'"
  using Refresh_copies [OF assms(1,2), of db] assms(3,4) by (auto simp: repository_inv_def copies_def)

text \<open>C35: whenever a repository is looked at, its copy is in order, each entity under its own key, and it is the table as it was at one of the
  refreshes, entries of several moments never mixed; or it is empty, because the statement failed.\<close>

theorem Repository_invariant:
  assumes "load_law env T rows" and "repository_run env T seen (db, r)"
  shows "sorted_wrt (<) (map fst (storage r)) \<and> (\<forall>(k, e) \<in> set (storage r). primary_key T e = k) \<and>
    (storage r = [] \<and> statement_fails env T \<or> (\<exists>db \<in> set seen. copies env T (rows db) r))"
proof -
  have "repository_inv env T rows seen (snd (db, r))"
    using assms(2)
  proof (induction rule: repository_run.induct)
    case (starts db db' r)
    then show ?case using Refresh_inv [OF assms(1), of "\<lparr>storage = [], waiting = False\<rparr>"] by (simp add: repository_new_def)
  next
    case (expires seen db r db' r')
    then show ?case using Refresh_inv [OF assms(1), of "r\<lparr>waiting := False\<rparr>"] by simp
  next
    case (cancelled seen db r db' r')
    then show ?case by (auto simp: Repository_Refresh_def repository_inv_def copies_def Get_def)
  qed simp
  then show ?thesis by (simp add: repository_inv_def)
qed

section \<open>Witnesses\<close>

definition example_table_env :: "build_row list sql_env" where
  "example_table_env = example_build_env\<lparr>exec_prepared := \<lambda>sql vs rs. (rs, Some (map row_fields rs))\<rparr>"

lemma example_load_law: "load_law example_table_env builds_type (map row_fields)"
proof -
  have "statement_text build_Select \<noteq> None" by code_simp
  moreover have "row_entity example_table_env build_Entity (row_fields r) \<noteq> None" for r
    using build_Entity_row [OF example_build_laws(1), of r] by (auto simp: example_table_env_def)
  ultimately show ?thesis
    by (auto simp: load_law_def builds_type_def example_table_env_def example_build_env_def)
qed

lemma Repository_invariant_witness:
  "\<exists>db' r'. repository_run example_table_env builds_type [[example_build_row 2 ''eu'']] (db', r') \<and>
     copies example_table_env builds_type [row_fields (example_build_row 2 ''eu'')] r'"
proof -
  have "\<not> waiting \<lparr>storage = [], waiting = False\<rparr>" by simp
  from Refresh_copies [OF example_load_law this, where db = "[example_build_row 2 ''eu'']"]
  obtain db' r' where "repository_new example_table_env builds_type [example_build_row 2 ''eu''] = ((db', r'), Inr ())"
    unfolding repository_new_def by (auto simp: example_table_env_def example_build_env_def)
  then have run: "repository_run example_table_env builds_type [[example_build_row 2 ''eu'']] (db', r')" by (rule repository_run.starts)
  have "\<not> statement_fails example_table_env builds_type" by (simp add: statement_fails_def example_table_env_def)
  then show ?thesis using Repository_invariant [OF example_load_law run] run by auto
qed

end
