(* ===== verification/Commands.thy ===== *)
theory Commands
  imports Repository
begin

text \<open>
  \<^verbatim>\<open>tactmon/frontend/commands/ICommand.cpp\<close>: what the commands of the bot have in common. They look for the parameters of an
  event of D++, and complete the text of a parameter out of the copies of the tables. The events are values with the fields
  that the program reads; the answer to a completion is the list of its choices.
\<close>

section \<open>Events\<close>

text \<open>\<^verbatim>\<open>dpp::command_value\<close> is a variant; the alternatives that are not read are one.\<close>

datatype command_value = Monostate | StringValue string | BoolValue bool | OtherValue

datatype data_option = DataOption (option_name: string) (option_value: command_value) (option_focused: bool) (option_options: "data_option list")

text \<open>\<^verbatim>\<open>std::holds_alternative\<close> and \<^verbatim>\<open>std::get\<close>, for the types that are asked for.\<close>

fun as_string :: "command_value \<Rightarrow> string option" where
  "as_string (StringValue s) = Some s"
| "as_string _ = None"

fun as_monostate :: "command_value \<Rightarrow> unit option" where
  "as_monostate Monostate = Some ()"
| "as_monostate _ = None"

definition get_alternative :: "'a option \<Rightarrow> 'a result" where
  "get_alternative v = (case v of None \<Rightarrow> Inl Thrown | Some x \<Rightarrow> Inr x)"

text \<open>\<^verbatim>\<open>GetParameter\<close>: the first value of the type of an option with the name, in preorder; below an option with the name nothing is looked for.\<close>

fun GetParameter_option :: "(command_value \<Rightarrow> 'a option) \<Rightarrow> string \<Rightarrow> data_option \<Rightarrow> 'a option"
  and GetParameter :: "(command_value \<Rightarrow> 'a option) \<Rightarrow> string \<Rightarrow> data_option list \<Rightarrow> 'a option"
where
  "GetParameter_option as name (DataOption n v focused options) = (if n = name then as v else GetParameter as name options)"
| "GetParameter as name [] = None"
| "GetParameter as name (child # children) =
     (case GetParameter_option as name child of Some x \<Rightarrow> Some x | None \<Rightarrow> GetParameter as name children)"

section \<open>Completion\<close>

text \<open>\<^verbatim>\<open>AutocompletionContext\<close>. The first value of a name is kept.\<close>

type_synonym context_values = "string \<Rightarrow> command_value option"

definition context_emplace :: "string \<Rightarrow> command_value \<Rightarrow> context_values \<Rightarrow> context_values" where
  "context_emplace name v values = (case values name of None \<Rightarrow> values(name \<mapsto> v) | Some _ \<Rightarrow> values)"

definition context_get :: "(command_value \<Rightarrow> 'a option) \<Rightarrow> string \<Rightarrow> context_values \<Rightarrow> 'a option" where
  "context_get as name values = Option.bind (values name) as"

definition context_has :: "string \<Rightarrow> context_values \<Rightarrow> bool" where
  "context_has token values \<longleftrightarrow> values token \<noteq> None"

text \<open>\<^verbatim>\<open>std::string::find\<close> finds the text.\<close>

fun contains :: "string \<Rightarrow> string \<Rightarrow> bool" where
  "contains [] t = (t = [])"
| "contains (c # cs) t = (take (length t) (c # cs) = t \<or> contains cs t)"

text \<open>The focus: whether to go on, and the name and value of the parameter.\<close>

type_synonym focus = "bool \<times> string \<times> command_value"

fun focus_of :: "data_option list \<Rightarrow> focus \<Rightarrow> focus" where
  "focus_of [] focus = focus"
| "focus_of (opt # opts) focus = focus_of opts (if option_focused opt then (False, option_name opt, option_value opt) else focus)"

fun scan_children :: "data_option list \<Rightarrow> focus \<times> context_values \<Rightarrow> focus \<times> context_values" where
  "scan_children [] (focus, values) = (focus, values)"
| "scan_children (opt # opts) (focus, values) = scan_children opts
     (if option_focused opt then ((False, option_name opt, option_value opt), values)
      else (focus, context_emplace (option_name opt) (option_value opt) values))"

fun drill_down :: "data_option list \<Rightarrow> focus \<times> context_values \<Rightarrow> focus \<times> context_values" where
  "drill_down [] st = st"
| "drill_down (DataOption n v f options # rest) ((drillDown, focused), values) =
     (if \<not> drillDown then ((drillDown, focused), values)
      else let st = scan_children options ((drillDown, focused), values) in if \<not> fst (fst st) then st else drill_down options st)"

text \<open>The loops over the entries of a copy. \<open>n\<close> suggestions have been made.\<close>

fun suggest :: "('e \<Rightarrow> bool) \<Rightarrow> ('e \<Rightarrow> string \<times> string) \<Rightarrow> nat \<Rightarrow> 'e list \<Rightarrow> (string \<times> string) list" where
  "suggest accepted choice n [] = []"
| "suggest accepted choice n (e # es) =
     (if \<not> accepted e then suggest accepted choice n es
      else choice e # (if n + 1 \<ge> 100 then [] else suggest accepted choice (n + 1) es))"

definition filtered :: "string option \<Rightarrow> string \<Rightarrow> bool" where
  "filtered pattern s \<longleftrightarrow> (case pattern of None \<Rightarrow> True | Some p \<Rightarrow> contains s p)"

definition product_suggestions :: "string \<Rightarrow> entity list \<Rightarrow> (string \<times> string) list" where
  "product_suggestions optionValue entries =
     suggest (\<lambda>e. contains (column_text product_Entity product_name e) optionValue)
       (\<lambda>e. (column_text product_Entity product_name e, column_text product_Entity product_name e)) 0 entries"

text \<open>The names that were suggested are kept in a set.\<close>

definition version_accepted :: "string \<Rightarrow> string option \<Rightarrow> string option \<Rightarrow> entity \<Rightarrow> bool" where
  "version_accepted optionValue productFilter regionFilter e \<longleftrightarrow>
     contains (column_text build_Entity build_build_name e) optionValue \<and>
     filtered productFilter (column_text build_Entity build_product_name e) \<and>
     filtered regionFilter (column_text build_Entity build_region e)"

fun version_loop :: "(entity \<Rightarrow> bool) \<Rightarrow> string set \<Rightarrow> entity list \<Rightarrow> (string \<times> string) list" where
  "version_loop accepted names [] = []"
| "version_loop accepted names (e # es) = (let buildName = column_text build_Entity build_build_name e in
     if buildName \<in> names \<or> \<not> accepted e then version_loop accepted names es
     else (buildName, buildName) # (if card (insert buildName names) \<ge> 100 then [] else version_loop accepted (insert buildName names) es))"

definition version_suggestions :: "string \<Rightarrow> string option \<Rightarrow> string option \<Rightarrow> entity list \<Rightarrow> (string \<times> string) list" where
  "version_suggestions optionValue productFilter regionFilter entries =
     version_loop (version_accepted optionValue productFilter regionFilter) {} entries"

definition file_suggestions :: "string \<Rightarrow> string option \<Rightarrow> entity list \<Rightarrow> (string \<times> string) list" where
  "file_suggestions optionValue productFilter entries =
     suggest (\<lambda>e. filtered productFilter (column_text file_Entity file_product_name e) \<and>
         contains (column_text file_Entity file_file_path e) optionValue)
       (\<lambda>e. (column_text file_Entity file_display_name e, column_text file_Entity file_file_path e)) 0 entries"

text \<open>The copies of the tables.\<close>

record tables =
  builds_copy :: repository
  products_copy :: repository
  channels_copy :: repository
  files_copy :: repository

text \<open>\<^verbatim>\<open>HandleAutoComplete\<close>; \<open>None\<close> when it returns false. A value that is no string throws.\<close>

definition completion :: "string \<Rightarrow> (string \<times> string) list \<Rightarrow> (string \<times> string) list option" where
  "completion optionValue choices = (if optionValue = [] then None else Some choices)"

definition HandleAutoComplete :: "tables \<Rightarrow> string \<Rightarrow> command_value \<Rightarrow> context_values \<Rightarrow> (string \<times> string) list option result" where
  "HandleAutoComplete db name v ctx =
     (if name = ''product'' then bindr (get_alternative (as_string v)) (\<lambda>optionValue. Inr (completion optionValue
          (WithValues (product_suggestions optionValue) (products_copy db))))
      else if name = ''version'' then bindr (get_alternative (as_string v)) (\<lambda>optionValue. Inr (completion optionValue
          (WithValues (version_suggestions optionValue (context_get as_string ''product'' ctx) (context_get as_string ''region'' ctx)) (builds_copy db))))
      else if name = ''filepath'' \<and> context_has ''add'' ctx then bindr (get_alternative (as_string v)) (\<lambda>optionValue. Inr (completion optionValue
          (WithValues (file_suggestions optionValue (context_get as_string ''product'' ctx)) (files_copy db))))
      else Inr None)"

text \<open>\<^verbatim>\<open>HandleAutoCompleteEvent\<close>, with the options of the event and those of its interaction. The answer is empty by default.\<close>

definition find_focus :: "data_option list \<Rightarrow> data_option list \<Rightarrow> focus \<times> context_values" where
  "find_focus event_options interaction_options =
     drill_down interaction_options (focus_of event_options (True, [], Monostate), Map.empty)"

definition HandleAutoCompleteEvent :: "tables \<Rightarrow> data_option list \<Rightarrow> data_option list \<Rightarrow> (string \<times> string) list result" where
  "HandleAutoCompleteEvent db event_options interaction_options =
     (case find_focus event_options interaction_options of ((drillDown, focusedName, focusedValue), ctx) \<Rightarrow>
        if focusedName = [] \<or> focusedValue = Monostate then Inr []
        else bindr (HandleAutoComplete db focusedName focusedValue ctx) (\<lambda>response. Inr (case response of None \<Rightarrow> [] | Some choices \<Rightarrow> choices)))"

section \<open>What is suggested\<close>

lemma contains_iff: "contains s t \<longleftrightarrow> (\<exists>u v. s = u @ t @ v)"
proof (induction s t rule: contains.induct)
  case (2 c cs t)
  have "take (length t) (c # cs) = t \<longleftrightarrow> (\<exists>v. c # cs = t @ v)"
    by (metis append_eq_conv_conj append_take_drop_id)
  moreover have "(\<exists>u v. c # cs = u @ t @ v) \<longleftrightarrow> (\<exists>v. c # cs = t @ v) \<or> (\<exists>u v. cs = u @ t @ v)"
    by (metis Cons_eq_append_conv append_Cons append_Nil)
  ultimately show ?case using 2 by simp
qed simp

lemma suggest_take: "n < 100 \<Longrightarrow> suggest accepted choice n es = take (100 - n) (map choice (filter accepted es))"
proof (induction es arbitrary: n)
  case (Cons e es)
  then show ?case by (cases "n + 1 \<ge> 100") (auto simp: take_Cons' )
qed simp

lemma version_loop_names:
  assumes "finite names" and "card names < 100"
  shows "length (version_loop accepted names es) + card names \<le> 100 \<and> distinct (version_loop accepted names es) \<and>
    set (version_loop accepted names es) \<subseteq> (\<lambda>e. (column_text build_Entity build_build_name e, column_text build_Entity build_build_name e)) ` {e \<in> set es. accepted e} \<and>
    fst ` set (version_loop accepted names es) \<inter> names = {} \<and>
    (length (version_loop accepted names es) + card names < 100 \<longrightarrow>
      (\<forall>e \<in> set es. accepted e \<longrightarrow> column_text build_Entity build_build_name e \<in> names \<union> fst ` set (version_loop accepted names es)))"
  using assms
proof (induction es arbitrary: names)
  case (Cons e es)
  let ?b = "column_text build_Entity build_build_name e"
  show ?case
  proof (cases "?b \<in> names \<or> \<not> accepted e")
    case True
    then show ?thesis using Cons.IH [OF Cons.prems] by (auto simp: Let_def)
  next
    case False
    then have card: "card (insert ?b names) = card names + 1" using Cons.prems by simp
    show ?thesis
    proof (cases "card (insert ?b names) \<ge> 100")
      case True
      then show ?thesis using False card Cons.prems by (auto simp: Let_def)
    next
      case more: False
      let ?r = "version_loop accepted (insert ?b names) es"
      have "finite (insert ?b names)" "card (insert ?b names) < 100" using more Cons.prems by simp_all
      note IH = Cons.IH [OF this]
      have r: "version_loop accepted names (e # es) = (?b, ?b) # ?r" using False more by (simp add: Let_def)
      have "fst ` set ?r \<inter> insert ?b names = {}" using IH by (elim conjE)
      then have "?b \<notin> fst ` set ?r" "fst ` set ?r \<inter> names = {}" by auto
      then have "(?b, ?b) \<notin> set ?r" by force
      then show ?thesis
        unfolding r using IH card False \<open>fst ` set ?r \<inter> names = {}\<close> by (intro conjI) auto
    qed
  qed
qed simp

text \<open>What could be suggested for a parameter.\<close>

definition candidates :: "tables \<Rightarrow> context_values \<Rightarrow> string \<Rightarrow> string \<Rightarrow> (string \<times> string) list" where
  "candidates db ctx name t =
     (if name = ''product'' then [(p, p). p \<leftarrow> map (column_text product_Entity product_name \<circ> snd) (storage (products_copy db)), contains p t]
      else if name = ''version'' then [(b, b). e \<leftarrow> map snd (storage (builds_copy db)),
        version_accepted t (context_get as_string ''product'' ctx) (context_get as_string ''region'' ctx) e, b \<leftarrow> [column_text build_Entity build_build_name e]]
      else [(column_text file_Entity file_display_name e, column_text file_Entity file_file_path e). e \<leftarrow> map snd (storage (files_copy db)),
        filtered (context_get as_string ''product'' ctx) (column_text file_Entity file_product_name e) \<and>
        contains (column_text file_Entity file_file_path e) t])"

lemma concat_if_singleton: "concat (map (\<lambda>x. if P x then [f x] else []) xs) = map f (filter P xs)"
  by (induction xs) auto

text \<open>C36: the answer to a completion. There are at most 100 suggestions, each of them a candidate of the copy of the table that contains the text and
  suits the product and region that were given; the first candidates are taken, all of them unless there are 100; versions are suggested
  once, however many regions have them.\<close>

theorem HandleAutoComplete_suggests:
  assumes "HandleAutoComplete db name (StringValue t) ctx = Inr (Some r)"
  shows "t \<noteq> [] \<and> length r \<le> 100 \<and> set r \<subseteq> set (candidates db ctx name t) \<and> (length r < 100 \<longrightarrow> set r = set (candidates db ctx name t)) \<and>
    (if name = ''version'' then distinct r else r = take 100 (candidates db ctx name t))"
proof -
  consider "name = ''product''" | "name = ''version''" | "name \<noteq> ''product''" "name \<noteq> ''version''" "name = ''filepath''" "context_has ''add'' ctx"
    using assms by (auto simp: HandleAutoComplete_def split: if_splits)
  then show ?thesis
  proof cases
    case 1
    have "t \<noteq> []" "r = take 100 (candidates db ctx name t)"
      using assms 1 by (auto simp: HandleAutoComplete_def get_alternative_def completion_def WithValues_def product_suggestions_def suggest_take
          candidates_def concat_if_singleton filter_map comp_def split: if_splits)
    then show ?thesis using 1 by (auto dest: in_set_takeD)
  next
    case 2
    let ?ok = "version_accepted t (context_get as_string ''product'' ctx) (context_get as_string ''region'' ctx)"
    let ?es = "map snd (storage (builds_copy db))"
    have r: "t \<noteq> []" "r = version_loop ?ok {} ?es"
      using assms 2 by (auto simp: HandleAutoComplete_def get_alternative_def completion_def WithValues_def version_suggestions_def split: if_splits)
    have c: "set (candidates db ctx name t) = (\<lambda>e. (column_text build_Entity build_build_name e, column_text build_Entity build_build_name e)) ` {e \<in> set ?es. ?ok e}"
      using 2 by (auto simp: candidates_def)
    have pairs: "fst p = snd p" if "p \<in> set r" for p
      using version_loop_names [of "{}" ?ok ?es] that r(2) by auto
    show ?thesis using version_loop_names [of "{}" ?ok ?es] r 2 pairs unfolding c by force
  next
    case 3
    have "t \<noteq> []" "r = take 100 (candidates db ctx name t)"
      using assms 3 by (auto simp: HandleAutoComplete_def get_alternative_def completion_def WithValues_def file_suggestions_def suggest_take
          candidates_def concat_if_singleton filter_map comp_def split: if_splits)
    then show ?thesis using 3 by (auto dest: in_set_takeD)
  qed
qed

section \<open>Witnesses\<close>

lemma example_product_entity: "\<exists>e. column_text product_Entity product_name e = ''wow''"
proof -
  let ?fvs = "map (\<lambda>v. (v, v)) [Num 1, Str ''wow'', Num 9]" and ?cs = "[product_id, product_name, product_sequence_id]"
  have "\<exists>p. Entity_row (\<lambda>_. 8) partition_sort (\<lambda>_. Num 0) (\<lambda>t. Some) product_Entity (map fst ?fvs) = Some (Inr p) \<and>
      (\<forall>i < length ?cs. Entity_get product_Entity (?cs ! i) p = Some (snd (?fvs ! i)))"
    unfolding product_Entity_def by (rule Entity_row_reads [OF partition_sort_permutes])
      (simp_all add: declared_types_def product_id_def product_name_def product_sequence_id_def)
  then obtain e where "\<forall>i < length ?cs. Entity_get product_Entity (?cs ! i) e = Some (snd (?fvs ! i))" by blast
  then have "Entity_get product_Entity product_name e = Some (Str ''wow'')" by (auto dest: spec [of _ 1])
  then have "column_text product_Entity product_name e = ''wow''" by (simp add: column_text_def)
  then show ?thesis ..
qed

lemma HandleAutoComplete_suggests_witness:
  "\<exists>db r. HandleAutoComplete db ''product'' (StringValue ''o'') Map.empty = Inr (Some r) \<and> length r < 100 \<and> set r = {(''wow'', ''wow'')}"
proof -
  obtain e where e: "column_text product_Entity product_name e = ''wow''" using example_product_entity by blast
  let ?db = "\<lparr>builds_copy = \<lparr>storage = [], waiting = True\<rparr>, products_copy = \<lparr>storage = [(1, e)], waiting = True\<rparr>,
    channels_copy = \<lparr>storage = [], waiting = True\<rparr>, files_copy = \<lparr>storage = [], waiting = True\<rparr>\<rparr>"
  have "\<exists>r. HandleAutoComplete ?db ''product'' (StringValue ''o'') Map.empty = Inr (Some r) \<and> length r < 100"
    by (simp add: HandleAutoComplete_def get_alternative_def completion_def WithValues_def product_suggestions_def)
  then obtain r where r: "HandleAutoComplete ?db ''product'' (StringValue ''o'') Map.empty = Inr (Some r)" "length r < 100" by blast
  moreover have "candidates ?db Map.empty ''product'' ''o'' = [(''wow'', ''wow'')]" by (simp add: candidates_def e)
  ultimately have "set r = {(''wow'', ''wow'')}" using HandleAutoComplete_suggests [OF r(1)] by simp
  with r show ?thesis by blast
qed

end
