(* ===== verification/Frontend.thy ===== *)
theory Frontend
  imports Commands Session WowProduct
begin

text \<open>
  \<^verbatim>\<open>tactmon/frontend/commands\<close>: the commands of the bot, what they register, which events are theirs, and what they do. The answers
  to a command are recorded in their order; formats of times are parameters, as is \<^verbatim>\<open>get_parameter\<close> of D++, which yields the
  value of a parameter of the event.
\<close>

section \<open>Registration\<close>

datatype option_type = co_string | co_boolean | co_sub_command | co_sub_command_group

datatype command_option = CommandOption (co_name: string) (co_type: option_type) (co_description: string) (co_required: bool)
  (co_autocomplete: bool) (co_options: "command_option list")

record slashcommand =
  sc_name :: string
  sc_description :: string
  sc_options :: "command_option list"
  sc_permissions :: "nat option"

datatype command = DownloadCommand | ProductStatusCommand | CacheStatusCommand | BindCommand | TrackFileCommand

definition Download_RegistrationInfo :: slashcommand where
  "Download_RegistrationInfo = \<lparr>sc_name = ''download'', sc_description = ''Downloads a specific file for a game build.'', sc_options =
     [CommandOption ''product'' co_string ''The product for which you want to download a file.'' True True [],
      CommandOption ''region'' co_string ''The region for which you want to download a file.'' True False [],
      CommandOption ''version'' co_string ''The version of the game for which you want to download a file.'' True True [],
      CommandOption ''file'' co_string ''Complete path to the file you want to download.'' True False []], sc_permissions = None\<rparr>"

definition ProductStatus_RegistrationInfo :: slashcommand where
  "ProductStatus_RegistrationInfo = \<lparr>sc_name = ''status'', sc_description = ''Gets the status of a specific product.'', sc_options =
     [CommandOption ''product'' co_string ''The product for which you want to download a file.'' True False []], sc_permissions = None\<rparr>"

definition CacheStatus_RegistrationInfo :: slashcommand where
  "CacheStatus_RegistrationInfo = \<lparr>sc_name = ''cache-status'',
     sc_description = ''Gets cache status (memory-loaded builds and expiry time).'', sc_options = [], sc_permissions = None\<rparr>"

definition Bind_RegistrationInfo :: slashcommand where
  "Bind_RegistrationInfo = \<lparr>sc_name = ''bind'', sc_description = ''Toggles Ribbit push announcements to this channel.'', sc_options =
     [CommandOption ''product'' co_string ''The product to bind to this channel.'' True False [],
      CommandOption ''bind'' co_boolean ''Bind or unbind from this channel.'' True False []], sc_permissions = Some 0\<rparr>"

definition TrackFile_RegistrationInfo :: slashcommand where
  "TrackFile_RegistrationInfo = \<lparr>sc_name = ''track'',
     sc_description = ''Adds or removes a file from the tracked files for a specific product.'', sc_options =
     [CommandOption ''filename'' co_sub_command_group ''Adds or remove a file from the tracked files for a product via its name.'' False False
       [CommandOption ''add'' co_sub_command ''Tracks a specific file for a given product.'' False False
         [CommandOption ''product'' co_string ''The name of the product.'' True True [],
          CommandOption ''filepath'' co_string ''Absolute path to the file.'' True False [],
          CommandOption ''displayname'' co_string ''Name to display for this file.'' False False []],
        CommandOption ''remove'' co_sub_command ''Removes a file from the list of track files for a specific product.'' False False
         [CommandOption ''product'' co_string ''The name of the product.'' True True [],
          CommandOption ''filepath'' co_string ''Absolute path to the file.'' True True []]]], sc_permissions = None\<rparr>"

fun GetRegistrationInfo :: "command \<Rightarrow> slashcommand" where
  "GetRegistrationInfo DownloadCommand = Download_RegistrationInfo"
| "GetRegistrationInfo ProductStatusCommand = ProductStatus_RegistrationInfo"
| "GetRegistrationInfo CacheStatusCommand = CacheStatus_RegistrationInfo"
| "GetRegistrationInfo BindCommand = Bind_RegistrationInfo"
| "GetRegistrationInfo TrackFileCommand = TrackFile_RegistrationInfo"

text \<open>An interaction to complete has a name; \<^verbatim>\<open>get_command_name\<close> of D++ yields the name of the others, or throws.\<close>

type_synonym interaction = "string option \<times> string result"

definition matches_name :: "string \<Rightarrow> interaction \<Rightarrow> bool result" where
  "matches_name name = (\<lambda>(autocompletion, command_name). case autocompletion of
     Some n \<Rightarrow> Inr (n = name) | None \<Rightarrow> bindr command_name (\<lambda>n. Inr (n = name)))"

definition Download_Matches :: "interaction \<Rightarrow> bool result" where "Download_Matches = matches_name ''download''"
definition ProductStatus_Matches :: "interaction \<Rightarrow> bool result" where "ProductStatus_Matches = matches_name ''status''"
definition CacheStatus_Matches :: "interaction \<Rightarrow> bool result" where "CacheStatus_Matches = matches_name ''cache-status''"
definition Bind_Matches :: "interaction \<Rightarrow> bool result" where "Bind_Matches = matches_name ''bind''"
definition TrackFile_Matches :: "interaction \<Rightarrow> bool result" where "TrackFile_Matches = matches_name ''track''"

fun Matches :: "command \<Rightarrow> interaction \<Rightarrow> bool result" where
  "Matches DownloadCommand = Download_Matches"
| "Matches ProductStatusCommand = ProductStatus_Matches"
| "Matches CacheStatusCommand = CacheStatus_Matches"
| "Matches BindCommand = Bind_Matches"
| "Matches TrackFileCommand = TrackFile_Matches"

section \<open>Answers\<close>

record embed =
  em_title :: string
  em_description :: string
  em_url :: string
  em_footer :: string
  em_color :: nat
  em_fields :: "(string \<times> string \<times> bool) list"

datatype response = Content string | Embed embed

definition embed_new :: embed where
  "embed_new = \<lparr>em_title = [], em_description = [], em_url = [], em_footer = [], em_color = 0, em_fields = []\<rparr>"

definition red :: nat where "red = 0x00FF0000"
definition green :: nat where "green = 0x0000FF00"

definition quoted :: "string \<Rightarrow> string" where
  "quoted s = ''`'' @ s @ ''`''"

section \<open>Downloads\<close>

text \<open>The handler of a loaded build. \<open>find_file\<close> and \<open>archive_of\<close> are \<^verbatim>\<open>FindFile\<close> and \<^verbatim>\<open>FindArchive\<close> of the product.\<close>

definition last_component :: "string \<Rightarrow> string" where
  "last_component file = rev (takeWhile (\<lambda>c. c \<noteq> CHR ''/'' \<and> c \<noteq> CHR 0x5C) (rev file))"

primrec first_archive :: "(EKey \<Rightarrow> ArchiveFileLocation option result) \<Rightarrow> FileLocation \<Rightarrow> nat \<Rightarrow> nat \<Rightarrow> ArchiveFileLocation option result" where
  "first_archive archive_of fileLocation 0 i = Inr None"
| "first_archive archive_of fileLocation (Suc n) i =
     bindr (FileLocation_at fileLocation i) (\<lambda>key. bindr (archive_of key) (\<lambda>indexLocation. case indexLocation of
       Some l \<Rightarrow> Inr (Some l) | None \<Rightarrow> first_archive archive_of fileLocation n (i + 1)))"

definition not_found :: "string \<Rightarrow> string \<Rightarrow> string \<Rightarrow> response" where
  "not_found productName version file = Embed (embed_new\<lparr>em_title := productName, em_color := red,
     em_description := quoted file @ '' does not exist.'', em_footer := version\<rparr>)"

definition Download_handler :: "string option \<Rightarrow> (string \<Rightarrow> FileLocation option result) \<Rightarrow> (EKey \<Rightarrow> ArchiveFileLocation option result) \<Rightarrow>
    string \<Rightarrow> string \<Rightarrow> string \<Rightarrow> response result" where
  "Download_handler httpServer find_file archive_of productName version file =
     bindr (find_file file) (\<lambda>fileLocation. case fileLocation of
       None \<Rightarrow> Inr (not_found productName version file)
     | Some location \<Rightarrow> bindr (first_archive archive_of location (fl_keyCount location) 0) (\<lambda>indexLocation. case indexLocation of
         None \<Rightarrow> Inr (not_found productName version file)
       | Some l \<Rightarrow> (case httpServer of
           None \<Rightarrow> Inl NullDereference
         | Some documentRoot \<Rightarrow> Inr (Embed (embed_new\<lparr>em_title := ''Download this file.'',
             em_url := GenerateAdress documentRoot productName l (last_component file) (fl_fileSize location),
             em_description := ''Click here to download '' @ quoted file @ ''.'', em_footer := version\<rparr>)))))"

text \<open>The command. The handler of the load holds the parameters; an exception ends the command, behind the answers that were given.\<close>

definition Download_parameters :: "(string \<Rightarrow> command_value) \<Rightarrow> (string \<times> string \<times> string \<times> string) result" where
  "Download_parameters get_parameter =
     bindr (get_alternative (as_string (get_parameter ''product''))) (\<lambda>productName.
     bindr (get_alternative (as_string (get_parameter ''region''))) (\<lambda>region.
     bindr (get_alternative (as_string (get_parameter ''version''))) (\<lambda>version.
     bindr (get_alternative (as_string (get_parameter ''file''))) (\<lambda>file. Inr (productName, region, version, file)))))"

type_synonym ('p, 'db) download_state = "response list \<times> 'db \<times> ('p, string \<times> string \<times> string) product_cache"

definition Download_HandleSlashCommand :: "'db sql_env \<Rightarrow> 'p loader \<Rightarrow> string option \<Rightarrow> nat \<Rightarrow> (string \<Rightarrow> command_value) \<Rightarrow>
    'db \<times> ('p, string \<times> string \<times> string) product_cache \<Rightarrow> ('p, 'db) download_state \<times> unit result" where
  "Download_HandleSlashCommand env load httpServer now get_parameter = (\<lambda>(db, cache). case Download_parameters get_parameter of
     Inl e \<Rightarrow> (([], db, cache), Inl e)
   | Inr (productName, region, version, file) \<Rightarrow>
       let answers = (if httpServer = None then [Embed (embed_new\<lparr>em_title := productName, em_color := red, em_description :=
             ''The HTTP server for this command is disabled. How did you even manage to execute this command?''\<rparr>)] else []) in
       (case builds_GetByBuildName env version region db of
         (db, Inl e) \<Rightarrow> ((answers, db, cache), Inl e)
       | (db, Inr None) \<Rightarrow> ((answers @ [Embed (embed_new\<lparr>em_title := productName, em_color := red,
             em_description := ''Build configuration cannot be found.''\<rparr>)], db, cache), Inr ())
       | (db, Inr (Some buildEntry)) \<Rightarrow>
           if productName \<noteq> build_text build_product_name buildEntry
           then ((answers @ [Embed (embed_new\<lparr>em_title := productName, em_color := red,
               em_description := ''Build configuration cannot be found for this product.''\<rparr>)], db, cache), Inr ())
           else ((answers @ [Embed (embed_new\<lparr>em_title := version, em_description := ''Loading... This may take a while.'', em_color := green\<rparr>)], db,
             fst (LoadConfiguration load productName (entity_build buildEntry) (productName, version, file) (15 * 60) now cache)), Inr ())))"

section \<open>Status\<close>

text \<open>The columns of the statistics. \<open>format_day\<close> and \<open>format_time\<close> print the time of a number of seconds.\<close>

definition statistics_text :: "component \<Rightarrow> entity \<Rightarrow> string" where
  "statistics_text column p = (case Projection_get column p of Some (Str s) \<Rightarrow> s | _ \<Rightarrow> [])"

definition statistics_number :: "component \<Rightarrow> entity \<Rightarrow> nat" where
  "statistics_number column p = (case Projection_get column p of Some (Num n) \<Rightarrow> n | _ \<Rightarrow> 0)"

definition ProductStatus_HandleSlashCommand :: "'db sql_env \<Rightarrow> (nat \<Rightarrow> string) \<Rightarrow> (nat \<Rightarrow> string) \<Rightarrow> (string \<Rightarrow> command_value) \<Rightarrow> 'db \<Rightarrow>
    (response list \<times> 'db) \<times> unit result" where
  "ProductStatus_HandleSlashCommand env format_day format_time get_parameter db =
     (case get_alternative (as_string (get_parameter ''product'')) of
       Inl e \<Rightarrow> (([], db), Inl e)
     | Inr productName \<Rightarrow> (case builds_GetStatisticsForProduct env productName db of
         (db, Inl e) \<Rightarrow> (([], db), Inl e)
       | (db, Inr None) \<Rightarrow> (([Content (''No version found for the **'' @ productName @ ''** product.'')], db), Inr ())
       | (db, Inr (Some entity)) \<Rightarrow> let seenTimestamp = statistics_number build_detected_at entity in
           (([Embed (embed_new\<lparr>em_color := green, em_title := ''Most recent build: '' @ statistics_text build_build_name entity @ ''.'',
              em_description := ''First seen on **'' @ format_day seenTimestamp @ ''** at **'' @ format_time seenTimestamp @ ''**.'',
              em_fields := [(''build_config'', quoted (statistics_text build_build_config entity), True),
                (''cdn_config'', quoted (statistics_text build_cdn_config entity), True)],
              em_footer := print_nat (statistics_number id_count entity) @ '' known builds for product '' @ productName @ ''.''\<rparr>)], db), Inr ())))"

definition CacheStatus_field :: "(nat \<Rightarrow> string) \<Rightarrow> (nat \<Rightarrow> string) \<Rightarrow> nat \<Rightarrow> ('p, 'h) product \<Rightarrow> nat \<Rightarrow> string \<times> string \<times> bool" where
  "CacheStatus_field format_minutes format_seconds now p expiryTime = ([],
     (if expiryTime < now then quoted (bd_build_name (currentBuild p)) @ '': Currently unloading...''
      else quoted (bd_build_name (currentBuild p)) @ '': Unloads in **'' @ format_minutes (expiryTime - now) @ ''** minutes and **'' @
        format_seconds (expiryTime - now) @ ''** seconds.''), True)"

definition CacheStatus_HandleSlashCommand :: "(nat \<Rightarrow> string) \<Rightarrow> (nat \<Rightarrow> string) \<Rightarrow> nat \<Rightarrow> ('p, 'h) product_cache \<Rightarrow> response list" where
  "CacheStatus_HandleSlashCommand format_minutes format_seconds now cache =
     [Embed (ForEachProduct (\<lambda>p expiryTime e. e\<lparr>em_fields := em_fields e @ [CacheStatus_field format_minutes format_seconds now p expiryTime]\<rparr>) cache
       (embed_new\<lparr>em_color := green, em_title := print_nat (length (records cache)) @ '' builds loaded.''\<rparr>))]"

section \<open>Channels and files\<close>

definition as_bool :: "command_value \<Rightarrow> bool option" where
  "as_bool v = (case v of BoolValue b \<Rightarrow> Some b | _ \<Rightarrow> None)"

definition crlf_info :: string where
  "crlf_info = [CHR 0x0D, CHR 0x0A] @ '':information_source: This may take a minute to apply.''"

definition Bind_HandleSlashCommand :: "'db sql_env \<Rightarrow> nat \<Rightarrow> nat \<Rightarrow> (string \<Rightarrow> command_value) \<Rightarrow> 'db \<Rightarrow> (response list \<times> 'db) \<times> unit result" where
  "Bind_HandleSlashCommand env guild_id channel_id get_parameter db =
     (case bindr (get_alternative (as_string (get_parameter ''product''))) (\<lambda>productName.
           bindr (get_alternative (as_bool (get_parameter ''bind''))) (\<lambda>bind. Inr (productName, bind))) of
       Inl e \<Rightarrow> (([], db), Inl e)
     | Inr (productName, bind) \<Rightarrow>
         if \<not> bind then (case channels_Delete env channel_id productName db of (db, r) \<Rightarrow>
           (([Content (''I will no longer announce pushes to '' @ quoted productName @ '' on this channel.'' @ crlf_info)], db), r))
         else (case channels_Insert env guild_id channel_id productName db of (db, r) \<Rightarrow>
           (([Content (''I will announce pushes to '' @ quoted productName @ '' on this channel.'' @ crlf_info)], db), r)))"

text \<open>\<^verbatim>\<open>TrackFileCommand\<close>. Whether a file is tracked is decided by the copy of the table.\<close>

definition tracks :: "string \<Rightarrow> string \<Rightarrow> entity \<Rightarrow> bool" where
  "tracks productName filePath entry \<longleftrightarrow> column_text file_Entity file_product_name entry = productName \<and>
     column_text file_Entity file_file_path entry = filePath"

definition track_answer :: "string \<Rightarrow> string \<Rightarrow> response" where
  "track_answer description footer = Embed (embed_new\<lparr>em_description := description, em_footer := footer\<rparr>)"

definition TrackFile_HandleSlashCommand :: "'db sql_env \<Rightarrow> repository \<Rightarrow> data_option list \<Rightarrow> 'db \<Rightarrow> (response list \<times> 'db) \<times> unit result" where
  "TrackFile_HandleSlashCommand env trackedFiles options db = (let isInsertionCommand = GetParameter as_monostate ''add'' options in
     case bindr (get_alternative (GetParameter as_string ''product'' options)) (\<lambda>productName.
          bindr (get_alternative (GetParameter as_string ''filepath'' options)) (\<lambda>filePath. Inr (productName, filePath))) of
       Inl e \<Rightarrow> (([], db), Inl e)
     | Inr (productName, filePath) \<Rightarrow>
         let displayName = GetParameter as_string ''displayname'' options; alreadyChecked = Any (tracks productName filePath) trackedFiles in
         if isInsertionCommand \<noteq> None then
           if alreadyChecked then (([track_answer (''File '' @ quoted filePath @ '' is already tracked for product '' @ quoted productName @ ''.'') []], db), Inr ())
           else (case files_Insert env productName filePath displayName db of (db, r) \<Rightarrow>
             (([track_answer (''File '' @ quoted filePath @ '' is now tracked for product '' @ quoted productName @ ''.'') ''This may take a minute to apply.''], db), r))
         else
           if alreadyChecked then (case files_Delete env productName filePath db of (db, r) \<Rightarrow>
             (([track_answer (''File '' @ quoted filePath @ '' is no longer tracked for product '' @ quoted productName @ ''.'') ''This may take a minute to apply.''], db), r))
           else (([track_answer (''File '' @ quoted filePath @ '' is not currently tracked for product '' @ quoted productName @
               ''. Did you forget to track it?'') []], db), Inr ()))"

section \<open>Links\<close>

text \<open>What a loaded product promises to those who make links: it knows where a key is, in archives whose names can be part of an address.\<close>

definition location_ok :: "ArchiveFileLocation \<Rightarrow> bool" where
  "location_ok l \<longleftrightarrow> al_offset l < size_mod \<and> al_fileSize l < size_mod \<and> part_ok (al_archiveName l)"

definition requested :: "string \<Rightarrow> ArchiveFileLocation \<Rightarrow> nat \<Rightarrow> string \<Rightarrow> reply + FileQueryParams" where
  "requested productName l n name = (if name = [] then Inl (writeError 400 ''Malformed request'')
     else Inr \<lparr>fq_Product = productName, fq_ArchiveName = al_archiveName l, fq_Offset = al_offset l, fq_Length = al_fileSize l,
       fq_DecompressedSize = n, fq_FileName = name\<rparr>)"

lemma last_component_part: "part_ok (last_component file)"
  by (auto simp: part_ok_def last_component_def dest: set_takeWhileD)

lemma first_archive_Some:
  "first_archive archive_of location n i = Inr (Some l) \<Longrightarrow> \<exists>j key. i \<le> j \<and> j < i + n \<and> FileLocation_at location j = Inr key \<and> archive_of key = Inr (Some l) \<and>
    (\<forall>j' \<in> {i..<j}. \<exists>key. FileLocation_at location j' = Inr key \<and> archive_of key = Inr None)"
proof (induction n arbitrary: i)
  case (Suc n)
  then obtain key r where k: "FileLocation_at location i = Inr key" "archive_of key = Inr r"
    "(case r of Some l \<Rightarrow> Inr (Some l) | None \<Rightarrow> first_archive archive_of location n (i + 1)) = Inr (Some l)"
    by (auto elim!: bindr_InrE)
  show ?case
  proof (cases r)
    case None
    then obtain j key' where j: "i + 1 \<le> j" "j < i + 1 + n" "FileLocation_at location j = Inr key'" "archive_of key' = Inr (Some l)"
      "\<forall>j' \<in> {i + 1..<j}. \<exists>key. FileLocation_at location j' = Inr key \<and> archive_of key = Inr None"
      using Suc.IH [of "i + 1"] k(3) by auto
    have "\<exists>key. FileLocation_at location j' = Inr key \<and> archive_of key = Inr None" if "j' \<in> {i..<j}" for j'
      using that j(5) k(1,2) None by (cases "j' = i") auto
    then show ?thesis using j by (intro exI [of _ j] exI [of _ key']) auto
  next
    case (Some l')
    then show ?thesis using k by (intro exI [of _ i]) auto
  qed
qed simp

locale product_access =
  fixes find_file :: "'p \<Rightarrow> string \<Rightarrow> FileLocation option result"
    and archive_of :: "'p \<Rightarrow> EKey \<Rightarrow> ArchiveFileLocation option result"
    and loaded_ok :: "'p \<Rightarrow> bool"
  assumes archive_located: "loaded_ok p \<Longrightarrow> archive_of p key = Inr (Some l) \<Longrightarrow> location_ok l"
begin

lemma download_link:
  assumes "loaded_ok p" and "part_ok productName" and "find_file p file = Inr (Some location)" and "0 < fl_fileSize location" "fl_fileSize location < size_mod"
    and "first_archive (archive_of p) location (fl_keyCount location) 0 = Inr (Some l)"
  shows "\<exists>answer. Download_handler (Some root) (find_file p) (archive_of p) productName version file = Inr (Embed answer) \<and>
    parse_target (drop (length root) (em_url answer)) = requested productName l (fl_fileSize location) (last_component file)"
proof -
  have "location_ok l" using first_archive_Some [OF assms(6)] archive_located [OF assms(1)] by blast
  then have "parse_target (drop (length root) (GenerateAdress root productName l (last_component file) (fl_fileSize location))) =
      requested productName l (fl_fileSize location) (last_component file)"
    using parse_address [of productName l "last_component file" "fl_fileSize location" root] assms(2,4,5) last_component_part
    by (simp add: location_ok_def requested_def)
  then show ?thesis using assms(3,6) by (simp add: Download_handler_def)
qed

lemma download_unfound:
  assumes "find_file p file = Inr None \<or> find_file p file = Inr (Some location) \<and>
      first_archive (archive_of p) location (fl_keyCount location) 0 = Inr None"
  shows "Download_handler server (find_file p) (archive_of p) productName version file = Inr (not_found productName version file)"
  using assms by (auto simp: Download_handler_def)

end

text \<open>The names of archives come from the configuration of the content servers.\<close>

definition archives_named :: "Product \<Rightarrow> bool" where
  "archives_named p \<longleftrightarrow> (\<forall>index \<in> set (pr_indices p). part_ok (ix_archiveName index))"

lemma part_ok_hex: "part_ok (hex bs)"
proof -
  have "CHR ''/'' \<notin> set alphabet" "CHR 0x5C \<notin> set alphabet" by code_simp+
  then show ?thesis using set_hex [of bs] by (auto simp: part_ok_def)
qed

lemma u64_located: "unat (w :: u64) < size_mod"
proof -
  have "unat w < 2 ^ LENGTH(64)" by (rule unsigned_less)
  then show ?thesis by (simp add: size_mod_def)
qed

lemma find_archive_located:
  "\<forall>index \<in> set indices. part_ok (ix_archiveName index) \<Longrightarrow> find_archive key indices = Inr (Some l) \<Longrightarrow> location_ok l"
proof (induction indices)
  case (Cons index indices)
  from Cons.prems(2) obtain entry :: "IndexEntry option" where "(case entry of
      Some e \<Rightarrow> Inr (Some (ArchiveFileLocation_new (ix_archiveName index) (unat (ie_offset e)) (unat (ie_size e))))
    | None \<Rightarrow> find_archive key indices) = Inr (Some l)"
    unfolding find_archive.simps by (elim bindr_InrE)
  then show ?case using Cons
    by (cases entry) (auto simp: location_ok_def ArchiveFileLocation_new_def u64_located)
qed simp

lemma FindArchive_located: "archives_named p \<Longrightarrow> FindArchive p key = Inr (Some l) \<Longrightarrow> location_ok l"
  using find_archive_located [of "pr_indices p" key l]
  by (auto simp: FindArchive_def archives_named_def location_ok_def ArchiveFileLocation_new_def u64_located Key_ToString_def part_ok_hex
      elim!: bindr_InrE split: option.splits)

interpretation plain_product: product_access Product_FindFile FindArchive archives_named
  by unfold_locales (rule FindArchive_located)

interpretation wow_product: product_access "wow_FindFile le addr" "\<lambda>p. FindArchive (wp_base p)" "\<lambda>p. archives_named (wp_base p)" for le addr
  by unfold_locales (rule FindArchive_located)

section \<open>Properties\<close>

text \<open>C37: the answer to a download. When the product knows the file, the answer holds the address of the first of its keys that is in an archive, and the
  server of the program reads this address as the request for that part of the archive, with the size of the contents and the
  last part of the path as its name; a path that ends with a slash has no name, and its request is refused.\<close>

theorem Download_links:
  assumes "archives_named (wp_base p)" and "part_ok productName" and "wow_FindFile le addr p file = Inr (Some location)"
    and "0 < fl_fileSize location" "fl_fileSize location < size_mod"
    and "first_archive (FindArchive (wp_base p)) location (fl_keyCount location) 0 = Inr (Some l)"
  shows "(\<exists>answer. Download_handler (Some root) (wow_FindFile le addr p) (FindArchive (wp_base p)) productName version file = Inr (Embed answer) \<and>
      parse_target (drop (length root) (em_url answer)) =
        (if last_component file = [] then Inl (writeError 400 ''Malformed request'')
         else Inr \<lparr>fq_Product = productName, fq_ArchiveName = al_archiveName l, fq_Offset = al_offset l, fq_Length = al_fileSize l,
           fq_DecompressedSize = fl_fileSize location, fq_FileName = last_component file\<rparr>)) \<and>
    (\<exists>j key. j < fl_keyCount location \<and> FileLocation_at location j = Inr key \<and> FindArchive (wp_base p) key = Inr (Some l) \<and>
      (\<forall>j' < j. \<exists>key. FileLocation_at location j' = Inr key \<and> FindArchive (wp_base p) key = Inr None))"
  using wow_product.download_link [OF assms(1,2,3,4,5,6), of root version] first_archive_Some [OF assms(6)]
  unfolding requested_def by auto

text \<open>The events of the command that tracks files: one of its two forms is chosen, and the text of a parameter is completed
  when it was registered so.\<close>

definition track_event :: "string \<Rightarrow> data_option list \<Rightarrow> data_option list" where
  "track_event form args = [DataOption ''filename'' Monostate False [DataOption form Monostate False args]]"

fun find_option :: "string \<Rightarrow> command_option list \<Rightarrow> command_option list" where
  "find_option name [] = []"
| "find_option name (i # is) = (if co_name i = name then co_options i else find_option name is)"

definition track_parameters :: "string \<Rightarrow> command_option list" where
  "track_parameters form = find_option form (find_option ''filename'' (sc_options TrackFile_RegistrationInfo))"

definition offered :: "string \<Rightarrow> data_option \<Rightarrow> bool" where
  "offered form arg \<longleftrightarrow> option_options arg = [] \<and>
     list_ex (\<lambda>i. co_name i = option_name arg \<and> (option_focused arg \<longrightarrow> co_autocomplete i)) (track_parameters form)"

lemma track_parameters_cases:
  assumes "form = ''add'' \<or> form = ''remove''" and "offered form arg"
  shows "option_name arg \<noteq> ''add'' \<and> (option_name arg = ''filepath'' \<and> option_focused arg \<longrightarrow> form = ''remove'')"
  using assms by (auto simp: offered_def track_parameters_def TrackFile_RegistrationInfo_def)

lemma scan_children_context:
  "\<forall>arg \<in> set args. option_name arg \<noteq> name \<Longrightarrow> snd (scan_children args (focus, values)) name = values name"
  by (induction args arbitrary: focus "values") (auto simp: context_emplace_def split: option.split)

lemma scan_children_focus:
  "fst (scan_children args (focus, values)) = focus \<and> \<not> (\<exists>arg \<in> set args. option_focused arg) \<or>
    (\<exists>arg \<in> set args. option_focused arg \<and> fst (scan_children args (focus, values)) = (False, option_name arg, option_value arg))"
proof (induction args arbitrary: focus "values")
  case (Cons arg args)
  show ?case using Cons.IH [of "(False, option_name arg, option_value arg)" "values"]
      Cons.IH [of focus "context_emplace (option_name arg) (option_value arg) values"] by (cases "option_focused arg") auto
qed simp

lemma focus_of_unfocused: "\<forall>opt \<in> set opts. \<not> option_focused opt \<Longrightarrow> focus_of opts focus = focus"
  by (induction opts focus rule: focus_of.induct) auto

lemma drill_down_leaves: "\<forall>arg \<in> set args. option_options arg = [] \<Longrightarrow> drill_down args (focus, values) = (focus, values)"
proof (cases args)
  case (Cons arg rest)
  assume "\<forall>arg \<in> set args. option_options arg = []"
  then have "option_options arg = []" using Cons by simp
  then obtain n v f where "arg = DataOption n v f []" by (cases arg) simp
  then show ?thesis using Cons by (cases focus) simp
qed simp

lemma find_focus_track:
  assumes "\<forall>opt \<in> set event_options. \<not> option_focused opt" and "\<forall>arg \<in> set args. option_options arg = []"
  shows "find_focus event_options (track_event form args) = scan_children args ((True, [], Monostate), [form \<mapsto> Monostate])"
proof -
  obtain focus ctx where s: "scan_children args ((True, [], Monostate), [form \<mapsto> Monostate]) = (focus, ctx)"
    by (cases "scan_children args ((True, [], Monostate), [form \<mapsto> Monostate])")
  show ?thesis using assms(1) drill_down_leaves [OF assms(2)] s
    by (cases focus) (simp add: find_focus_def track_event_def focus_of_unfocused context_emplace_def Let_def)
qed

text \<open>C38: paths of files are never completed. The parameter can be completed in the form that removes a file, but it is completed out of the
  copy of the table only when the form that adds one was chosen, in which it was not registered to be completed.\<close>

theorem filepath_not_completed:
  assumes "form = ''add'' \<or> form = ''remove''" and "\<forall>arg \<in> set args. offered form arg"
    and "\<forall>opt \<in> set event_options. \<not> option_focused opt" and "\<forall>arg \<in> set args. option_focused arg \<longrightarrow> option_name arg = ''filepath''"
  shows "HandleAutoCompleteEvent db event_options (track_event form args) = Inr []"
proof -
  have leaves: "\<forall>arg \<in> set args. option_options arg = []" using assms(2) by (simp add: offered_def)
  obtain focus ctx where s: "scan_children args ((True, [], Monostate), [form \<mapsto> Monostate]) = (focus, ctx)"
    by (cases "scan_children args ((True, [], Monostate), [form \<mapsto> Monostate])")
  have "ctx ''add'' = [form \<mapsto> Monostate] ''add''"
    using scan_children_context [of args "''add''" "(True, [], Monostate)" "[form \<mapsto> Monostate]"] track_parameters_cases [OF assms(1)] assms(2) s by auto
  moreover have "focus = (True, [], Monostate) \<or> form = ''remove'' \<and> (\<exists>v. focus = (False, ''filepath'', v))"
    using scan_children_focus [of args "(True, [], Monostate)" "[form \<mapsto> Monostate]"] track_parameters_cases [OF assms(1)] assms(2,4) s by auto
  ultimately show ?thesis
    using find_focus_track [OF assms(3) leaves, of form] s by (auto simp: HandleAutoCompleteEvent_def HandleAutoComplete_def context_has_def)
qed

text \<open>A parameter of a command without forms is found among the options of the event, and the context stays empty: the product and region that were
  given are not regarded.\<close>

lemma focus_of_focused: "(\<exists>opt \<in> set opts. option_focused opt) \<or> \<not> fst focus \<Longrightarrow> \<not> fst (focus_of opts focus)"
proof (induction opts arbitrary: focus)
  case (Cons opt opts)
  then show ?case using Cons.IH [of "(False, option_name opt, option_value opt)"] Cons.IH [of focus] by (cases "option_focused opt") auto
qed simp

lemma flat_context_empty:
  assumes "\<exists>opt \<in> set event_options. option_focused opt"
  shows "find_focus event_options interaction_options = (focus_of event_options (True, [], Monostate), Map.empty)"
proof -
  obtain d f where "focus_of event_options (True, [], Monostate) = (d, f)" by (cases "focus_of event_options (True, [], Monostate)")
  moreover have "\<not> fst (focus_of event_options (True, [], Monostate))" using focus_of_focused assms by blast
  ultimately show ?thesis by (cases interaction_options; cases "hd interaction_options") (auto simp: find_focus_def)
qed

text \<open>Files that are removed stay in the table: the statement is none, and the answer does not tell.\<close>

lemma TrackFile_remove_answers:
  assumes "GetParameter as_monostate ''add'' options = None" and "GetParameter as_string ''product'' options = Some productName"
    and "GetParameter as_string ''filepath'' options = Some filePath" and "Any (tracks productName filePath) trackedFiles"
    and "open_connection env db = (db, True)" and "\<forall>sql vs. statement_text file_Delete = Some sql \<longrightarrow> exec_prepared env sql vs db = (db, None)"
  shows "\<exists>answer. TrackFile_HandleSlashCommand env trackedFiles options db = (([answer], db), Inr ())"
  using assms by (auto simp: TrackFile_HandleSlashCommand_def get_alternative_def files_Delete_def Execute_void_def split: option.split)

section \<open>Witnesses\<close>

definition example_wow :: WowProduct where
  "example_wow = \<lparr>wp_base = example_product\<lparr>pr_install := Some \<lparr>in_tags = [], in_entries =
       [\<lparr>in_name = ''d/a'', in_fileSize = 7, in_hash = Key_of_span [1, 2]\<rparr>]\<rparr>,
     pr_encoding := Some \<lparr>en_header = encoding_header 1 2 2 1 4 1 0 3, en_cekeyPages =
       [[\<lparr>ce_fileSize = 7, ce_ckey = [1, 2], ce_ekeys = [1, 2], ce_keyCount = 1\<rparr>]]\<rparr>\<rparr>, wp_root = None\<rparr>"

definition example_location :: FileLocation where
  "example_location = \<lparr>fl_fileSize = 7, fl_keyCount = 1, fl_keys = [1, 2]\<rparr>"

definition example_archive :: ArchiveFileLocation where
  "example_archive = ArchiveFileLocation_new (hex (replicate 16 1)) 9 7"

lemma example_key_located:
  "Encoding_FindFile \<lparr>en_header = encoding_header 1 2 2 1 4 1 0 3, en_cekeyPages =
      [[\<lparr>ce_fileSize = 7, ce_ckey = [1, 2], ce_ekeys = [1, 2], ce_keyCount = 1\<rparr>]]\<rparr> (Key_of_span [1, 2]) = Inr (Some example_location)"
  "find_archive (Key_of_span [1, 2]) [example_index] = Inr (Some example_archive)"
  "FileLocation_at example_location 0 = Inr (Key_of_span [1, 2])"
proof -
  have entry: "entry_ok 2 2 \<lparr>ce_fileSize = 7, ce_ckey = [1, 2], ce_ekeys = [1, 2], ce_keyCount = 1\<rparr>" by (simp add: entry_ok_def)
  show "Encoding_FindFile \<lparr>en_header = encoding_header 1 2 2 1 4 1 0 3, en_cekeyPages =
      [[\<lparr>ce_fileSize = 7, ce_ckey = [1, 2], ce_ekeys = [1, 2], ce_keyCount = 1\<rparr>]]\<rparr> (Key_of_span [1, 2]) = Inr (Some example_location)"
    using Encoding_FindFile_first [of "\<lparr>en_header = encoding_header 1 2 2 1 4 1 0 3, en_cekeyPages =
      [[\<lparr>ce_fileSize = 7, ce_ckey = [1, 2], ce_ekeys = [1, 2], ce_keyCount = 1\<rparr>]]\<rparr>" 2 2 "Key_of_span [1, 2]"] entry
    by (simp add: encoding_header_def) (simp add: Key_of_span_def example_location_def location_of_def FileLocation_new_def)
  show "find_archive (Key_of_span [1, 2]) [example_index] = Inr (Some example_archive)"
    using find_archive_first [of "[(hex (replicate 16 1), 2, [example_ientry])]" "Key_of_span [1, 2]"]
    by (simp add: example_index_def example_archive_def del: find_archive.simps)
      (simp add: example_ientry_def Key_of_span_def del: find_archive.simps)
  show "FileLocation_at example_location 0 = Inr (Key_of_span [1, 2])"
    by (simp add: FileLocation_at_def example_location_def subspan_def mul_sz_def slice_def)
qed

lemma example_wow_files:
  "wow_FindFile True 0 example_wow ''d/a'' = Inr (Some example_location)"
  "first_archive (FindArchive (wp_base example_wow)) example_location (fl_keyCount example_location) 0 = Inr (Some example_archive)"
proof -
  show "wow_FindFile True 0 example_wow ''d/a'' = Inr (Some example_location)"
    using example_key_located(1) by (simp add: wow_FindFile_def example_wow_def Product_FindFile_def Product_FindFile_key_def Install_FindFile_def)
  have "FindArchive (wp_base example_wow) (Key_of_span [1, 2]) = Inr (Some example_archive)"
    using example_key_located(2) by (simp add: FindArchive_def example_wow_def example_product_def)
  moreover have "fl_keyCount example_location = Suc 0" by (simp add: example_location_def)
  ultimately show "first_archive (FindArchive (wp_base example_wow)) example_location (fl_keyCount example_location) 0 = Inr (Some example_archive)"
    using example_key_located(3) by simp
qed

lemma Download_links_witness:
  "\<exists>answer. Download_handler (Some ''http://a.b:8'') (wow_FindFile True 0 example_wow) (FindArchive (wp_base example_wow)) ''wow'' ''1.0'' ''d/a'' =
      Inr (Embed answer) \<and>
    parse_target (drop (length ''http://a.b:8'') (em_url answer)) = Inr \<lparr>fq_Product = ''wow'', fq_ArchiveName = hex (replicate 16 1), fq_Offset = 9, fq_Length = 7,
      fq_DecompressedSize = 7, fq_FileName = ''a''\<rparr>"
proof -
  have "archives_named (wp_base example_wow)"
    by (simp add: example_wow_def archives_named_def example_product_def example_index_def index_of_def part_ok_hex)
  moreover have "part_ok ''wow''" by (simp add: part_ok_def)
  moreover have "last_component ''d/a'' = ''a''" by (simp add: last_component_def)
  ultimately show ?thesis
    using Download_links [of example_wow "''wow''" True 0 "''d/a''", OF _ _ example_wow_files(1) _ _ example_wow_files(2), of "''http://a.b:8''" "''1.0''",
        THEN conjunct1]
    by (simp add: example_location_def example_archive_def ArchiveFileLocation_new_def size_mod_def)
qed

lemma filepath_not_completed_witness:
  "\<forall>db. HandleAutoCompleteEvent db [] (track_event ''remove'' [DataOption ''product'' (StringValue ''wow'') False [],
     DataOption ''filepath'' (StringValue ''a'') True []]) = Inr []"
  by (rule allI, rule filepath_not_completed) (auto simp: offered_def track_parameters_def TrackFile_RegistrationInfo_def)

end
