(* ===== verification/Discord.thy ===== *)
theory Discord
  imports Frontend
begin

text \<open>
  \<^verbatim>\<open>tactmon/frontend/Discord.cpp\<close>: the bot. It makes its commands when it is ready, creates them for each server (guild) it
  joins unless they are known, and passes events to the first command that takes them. What is sent to D++ is recorded;
  \<^verbatim>\<open>boost::hash_combine\<close> is a parameter.
\<close>

section \<open>The hash of a command\<close>

record hasher =
  combine_text :: "u64 \<Rightarrow> string \<Rightarrow> u64"
  combine_type :: "u64 \<Rightarrow> option_type \<Rightarrow> u64"
  combine_bool :: "u64 \<Rightarrow> bool \<Rightarrow> u64"
  combine_version :: "u64 \<Rightarrow> u32 \<Rightarrow> u64"

fun hash_option :: "hasher \<Rightarrow> command_option \<Rightarrow> u64 \<Rightarrow> u64"
  and hash_options :: "hasher \<Rightarrow> command_option list \<Rightarrow> u64 \<Rightarrow> u64"
where
  "hash_option H (CommandOption name type description required autocomplete options) h =
     (let h = combine_text H h name; h = combine_type H h type; h = combine_text H h description;
        h = combine_bool H h required; h = combine_bool H h autocomplete in hash_options H options h)"
| "hash_options H [] h = h"
| "hash_options H (opt # opts) h = hash_options H opts (hash_option H opt h)"

definition Discord_Hash :: "hasher \<Rightarrow> slashcommand \<Rightarrow> u64" where
  "Discord_Hash H command = hash_options H (sc_options command) (combine_text H (combine_text H 0 (sc_name command)) (sc_description command))"

section \<open>Synchronization\<close>

definition RequiresSynchronization :: "'db sql_env \<Rightarrow> hasher \<Rightarrow> slashcommand \<Rightarrow> 'db \<Rightarrow> 'db \<times> (bool \<times> u64 \<times> u32) result" where
  "RequiresSynchronization env H command db = (case commands_FindCommand env (sc_name command) db of
     (db, Inl e) \<Rightarrow> (db, Inl e)
   | (db, Inr databaseRecord) \<Rightarrow> let baseHash = Discord_Hash H command in
       (db, Inr (case databaseRecord of
          None \<Rightarrow> (True, baseHash, 1)
        | Some entity \<Rightarrow>
            let commandVersion = word_of_nat (column_number command_Entity command_version entity);
                versionedHash = combine_version H baseHash commandVersion
            in (unat versionedHash \<noteq> column_number command_Entity command_hash entity, baseHash, commandVersion + 1))))"

text \<open>The loop of \<^verbatim>\<open>HandleGuildCreate\<close>. The commands that are created are recorded with their server.\<close>

fun create_commands :: "'db sql_env \<Rightarrow> hasher \<Rightarrow> nat \<Rightarrow> command list \<Rightarrow> 'db \<times> (slashcommand \<times> nat) list \<Rightarrow>
    ('db \<times> (slashcommand \<times> nat) list) \<times> unit result" where
  "create_commands env H guild [] st = (st, Inr ())"
| "create_commands env H guild (command # commands) (db, created) =
     (let registrationInfo = GetRegistrationInfo command in
      case RequiresSynchronization env H registrationInfo db of
        (db, Inl e) \<Rightarrow> ((db, created), Inl e)
      | (db, Inr (needsUpdate, hash, newVersion)) \<Rightarrow>
          if needsUpdate then
            (case commands_InsertOrUpdate env (sc_name registrationInfo) (unat (combine_version H hash newVersion)) (unat newVersion) db of
              (db, Inl e) \<Rightarrow> ((db, created), Inl e)
            | (db, Inr _) \<Rightarrow> create_commands env H guild commands (db, created @ [(registrationInfo, guild)]))
          else create_commands env H guild commands (db, created))"

definition HandleGuildCreate :: "'db sql_env \<Rightarrow> hasher \<Rightarrow> nat option \<Rightarrow> command list \<Rightarrow> 'db \<Rightarrow> ('db \<times> (slashcommand \<times> nat) list) \<times> unit result" where
  "HandleGuildCreate env H created commands db = (case created of
     None \<Rightarrow> ((db, []), Inr ()) | Some guild \<Rightarrow> create_commands env H guild commands (db, []))"

section \<open>Events\<close>

text \<open>\<^verbatim>\<open>HandleReady\<close> adds to the commands, each time it is called.\<close>

definition HandleReady :: "bool \<Rightarrow> command list \<Rightarrow> command list" where
  "HandleReady httpServer commands = commands @ (if httpServer then [DownloadCommand] else []) @
     [ProductStatusCommand, CacheStatusCommand, BindCommand, TrackFileCommand]"

text \<open>\<^verbatim>\<open>OnSlashCommand\<close>, \<^verbatim>\<open>OnAutoComplete\<close> and \<^verbatim>\<open>OnSelectClick\<close>: the handler of a command that matches is posted to the
  threads. The first such command ends the loops of the handlers of events; exceptions of \<^verbatim>\<open>Matches\<close> are logged.\<close>

datatype dispatched = Posted command | Replied response | RepliedEmpty | Logged | Ignored

fun first_match :: "command list \<Rightarrow> interaction \<Rightarrow> command option result" where
  "first_match [] evnt = Inr None"
| "first_match (command # commands) evnt = bindr (Matches command evnt) (\<lambda>matches.
     if matches then Inr (Some command) else first_match commands evnt)"

definition no_handler :: response where
  "no_handler = Embed (embed_new\<lparr>em_color := red, em_title := ''An error occured.'',
     em_description := ''No command handler found for this command.'', em_footer := ''How the hell did you manage to trigger this?''\<rparr>)"

definition dispatch :: "dispatched \<Rightarrow> command list \<Rightarrow> interaction \<Rightarrow> dispatched" where
  "dispatch otherwise commands evnt = (case first_match commands evnt of
     Inl e \<Rightarrow> Logged | Inr (Some command) \<Rightarrow> Posted command | Inr None \<Rightarrow> otherwise)"

definition HandleSlashCommand :: "command list \<Rightarrow> interaction \<Rightarrow> dispatched" where
  "HandleSlashCommand = dispatch (Replied no_handler)"

definition Discord_HandleAutoCompleteEvent :: "command list \<Rightarrow> interaction \<Rightarrow> dispatched" where
  "Discord_HandleAutoCompleteEvent = dispatch RepliedEmpty"

definition HandleSelectClickEvent :: "command list \<Rightarrow> interaction \<Rightarrow> dispatched" where
  "HandleSelectClickEvent = dispatch Ignored"

section \<open>What the table of commands is relied on for\<close>

text \<open>
  Names are unique in it (\<^verbatim>\<open>command_state_uniq_name\<close> of the schema); the conflict that the insertion handles is one of \<^verbatim>\<open>id\<close>, so
  a name that is known makes it throw, as do a hash and a version that do not fit into signed columns of 64 and 32 bits.
\<close>

type_synonym command_table = "string \<Rightarrow> (nat \<times> nat) option"

definition command_row :: "nat \<Rightarrow> string \<Rightarrow> nat \<Rightarrow> nat \<Rightarrow> sql_value list" where
  "command_row i name hash version = [Num i, Str name, Num hash, Num version]"

definition select_command_law :: "'db sql_env \<Rightarrow> ('db \<Rightarrow> command_table) \<Rightarrow> bool" where
  "select_command_law env cmds \<longleftrightarrow>
     (\<forall>sql name db db' r. statement_text command_SelectByName = Some sql \<longrightarrow> exec_prepared env sql [Str name] db = (db', r) \<longrightarrow>
        cmds db' = cmds db \<and> (case r of None \<Rightarrow> True | Some rows \<Rightarrow>
          (case cmds db name of None \<Rightarrow> rows = [] | Some (h, v) \<Rightarrow> v < 2 ^ 31 \<and> (\<exists>i. rows = [command_row i name h v]))))"

definition insert_command_law :: "'db sql_env \<Rightarrow> ('db \<Rightarrow> command_table) \<Rightarrow> bool" where
  "insert_command_law env cmds \<longleftrightarrow>
     (\<forall>sql name h v db db' r. statement_text command_InsertOrUpdate = Some sql \<longrightarrow> exec_prepared env sql [Str name, Num h, Num v] db = (db', r) \<longrightarrow>
        cmds db' = cmds db \<and> r = None \<or> cmds db name = None \<and> h < 2 ^ 63 \<and> v < 2 ^ 31 \<and> cmds db' = (cmds db)(name \<mapsto> (h, v)) \<and> (r = None \<or> r = Some []))"

definition command_laws :: "'db sql_env \<Rightarrow> ('db \<Rightarrow> command_table) \<Rightarrow> bool" where
  "command_laws env cmds \<longleftrightarrow>
     permutes (mp_sort env) \<and>
     (\<forall>n. as_type env uint32 (Num n) = Some (Num n) \<and> as_type env uint64 (Num n) = Some (Num n)) \<and>
     (\<forall>s. as_type env text_type (Str s) = Some (Str s)) \<and>
     (\<forall>db. cmds (fst (open_connection env db)) = cmds db) \<and>
     select_command_law env cmds \<and> insert_command_law env cmds"

definition commands_reliable :: "'db sql_env \<Rightarrow> ('db \<Rightarrow> command_table) \<Rightarrow> bool" where
  "commands_reliable env cmds \<longleftrightarrow>
     (\<forall>db. snd (open_connection env db)) \<and>
     (\<forall>sql name db. statement_text command_SelectByName = Some sql \<longrightarrow> snd (exec_prepared env sql [Str name] db) \<noteq> None) \<and>
     (\<forall>sql name h v db. statement_text command_InsertOrUpdate = Some sql \<longrightarrow> cmds db name = None \<longrightarrow> h < 2 ^ 63 \<longrightarrow> v < 2 ^ 31 \<longrightarrow>
        snd (exec_prepared env sql [Str name, Num h, Num v] db) \<noteq> None)"

section \<open>What the bot does with it\<close>

text \<open>A command is created for a server when the table does not have it as it is; it is recorded when the table does not have it at all and
  its hash fits.\<close>

definition versioned_hash :: "hasher \<Rightarrow> slashcommand \<Rightarrow> nat \<Rightarrow> nat" where
  "versioned_hash H command version = unat (combine_version H (Discord_Hash H command) (word_of_nat version))"

definition outdated :: "hasher \<Rightarrow> command_table \<Rightarrow> slashcommand \<Rightarrow> bool" where
  "outdated H st command \<longleftrightarrow> (case st (sc_name command) of None \<Rightarrow> True | Some (h, v) \<Rightarrow> versioned_hash H command v \<noteq> h)"

definition storable :: "hasher \<Rightarrow> command_table \<Rightarrow> slashcommand \<Rightarrow> bool" where
  "storable H st command \<longleftrightarrow> st (sc_name command) = None \<and> versioned_hash H command 1 < 2 ^ 63"

definition record_command :: "hasher \<Rightarrow> slashcommand \<Rightarrow> command_table \<Rightarrow> command_table" where
  "record_command H command st = (if storable H st command then st(sc_name command \<mapsto> (versioned_hash H command 1, 1)) else st)"

lemma command_texts: "statement_text command_SelectByName \<noteq> None" "statement_text command_InsertOrUpdate \<noteq> None"
  by code_simp+

lemma row_entity_command [simp]:
  "row_entity env command_Entity rw = (case Entity_row (alignment_of env) (mp_sort env) (default_of env) (as_type env) command_Entity rw of
     Some (Inr entity) \<Rightarrow> Some entity | _ \<Rightarrow> None)"
  by (simp add: row_entity_def command_Entity_def)

lemma command_Entity_row:
  assumes "command_laws env cmds"
  shows "\<exists>p. Entity_row (alignment_of env) (mp_sort env) (default_of env) (as_type env) command_Entity (command_row i name h v) = Some (Inr p) \<and>
    column_number command_Entity command_hash p = h \<and> column_number command_Entity command_version p = v"
proof -
  let ?cs = "[command_id, command_name, command_hash, command_version]" and ?fvs = "map (\<lambda>v. (v, v)) (command_row i name h v)"
  have fields: "map fst ?fvs = command_row i name h v" by (simp add: comp_def)
  have "permutes (mp_sort env)" using assms by (simp add: command_laws_def)
  from Entity_row_reads [OF this, of "''command_states''" "''public''" ?cs "as_type env" ?fvs "alignment_of env" "default_of env",
      unfolded fields, folded command_Entity_def]
  obtain p where p: "Entity_row (alignment_of env) (mp_sort env) (default_of env) (as_type env) command_Entity (command_row i name h v) = Some (Inr p)"
    "\<forall>j < length ?cs. Entity_get command_Entity (?cs ! j) p = Some (snd (?fvs ! j))"
    using assms by (auto simp: declared_types_def command_laws_def command_Entity_def command_row_def command_id_def command_name_def
        command_hash_def command_version_def)
  from p(2) have "Entity_get command_Entity command_hash p = Some (Num h)" "Entity_get command_Entity command_version p = Some (Num v)"
    by (auto simp: command_row_def dest: spec [of _ 2] spec [of _ 3])
  then show ?thesis using p(1) by (auto simp: column_number_def)
qed

lemma opened_commands:
  "command_laws env cmds \<Longrightarrow> commands_reliable env cmds \<Longrightarrow> \<exists>db'. open_connection env db = (db', True) \<and> cmds db' = cmds db"
  by (cases "open_connection env db") (auto simp: command_laws_def commands_reliable_def dest!: spec [of _ db])

lemma FindCommand_reads:
  assumes "command_laws env cmds" and "commands_reliable env cmds"
  obtains (unknown) db' where "commands_FindCommand env name db = (db', Inr None)" "cmds db' = cmds db" "cmds db name = None"
  | (known) db' p h v where "commands_FindCommand env name db = (db', Inr (Some p))" "cmds db' = cmds db" "cmds db name = Some (h, v)"
      "column_number command_Entity command_hash p = h" "column_number command_Entity command_version p = v" "v < 2 ^ 31"
proof -
  obtain sql where sql: "statement_text command_SelectByName = Some sql" using command_texts(1) by auto
  obtain db1 where opened: "open_connection env db = (db1, True)" "cmds db1 = cmds db" using opened_commands [OF assms] by blast
  obtain db2 r where ran: "exec_prepared env sql [Str name] db1 = (db2, r)" by (cases "exec_prepared env sql [Str name] db1")
  have "snd (exec_prepared env sql [Str name] db1) \<noteq> None" using assms(2) sql by (simp add: commands_reliable_def)
  then obtain rows where r: "r = Some rows" using ran by auto
  have "select_command_law env cmds" using assms(1) by (simp add: command_laws_def)
  from this [unfolded select_command_law_def, rule_format, OF sql ran] r opened
  have law: "cmds db2 = cmds db" "case cmds db name of None \<Rightarrow> rows = [] | Some (h, v) \<Rightarrow> v < 2 ^ 31 \<and> (\<exists>i. rows = [command_row i name h v])"
    by auto
  show ?thesis
  proof (cases "cmds db name")
    case None
    then show ?thesis using unknown [of db2] law sql opened ran r
      by (simp add: commands_FindCommand_def ExecuteOne_def ExecuteOne_work_def)
  next
    case (Some hv)
    obtain h v where hv: "hv = (h, v)" by (cases hv)
    then obtain i where i: "rows = [command_row i name h v]" "v < 2 ^ 31" using law(2) Some by auto
    obtain p where "Entity_row (alignment_of env) (mp_sort env) (default_of env) (as_type env) command_Entity (command_row i name h v) = Some (Inr p)"
      "column_number command_Entity command_hash p = h" "column_number command_Entity command_version p = v"
      using command_Entity_row [OF assms(1)] by blast
    then show ?thesis using known [of db2 p h v] law(1) sql opened ran r i hv Some
      by (simp add: commands_FindCommand_def ExecuteOne_def ExecuteOne_work_def)
  qed
qed

lemma InsertOrUpdate_writes:
  assumes "command_laws env cmds" and "commands_reliable env cmds"
  obtains db' where "commands_InsertOrUpdate env name h v db = (db', Inr ())"
    and "cmds db' = (if cmds db name = None \<and> h < 2 ^ 63 \<and> v < 2 ^ 31 then (cmds db)(name \<mapsto> (h, v)) else cmds db)"
proof -
  let ?vs = "[Str name, Num h, Num v]"
  obtain sql where sql: "statement_text command_InsertOrUpdate = Some sql" using command_texts(2) by auto
  obtain db1 where opened: "open_connection env db = (db1, True)" "cmds db1 = cmds db" using opened_commands [OF assms] by blast
  obtain db2 r where ran: "exec_prepared env sql ?vs db1 = (db2, r)" by (cases "exec_prepared env sql ?vs db1")
  have "r \<noteq> None" if "cmds db name = None \<and> h < 2 ^ 63 \<and> v < 2 ^ 31"
    using assms(2) sql that ran opened unfolding commands_reliable_def by (metis snd_conv)
  moreover have "insert_command_law env cmds" using assms(1) by (simp add: command_laws_def)
  note this [unfolded insert_command_law_def, rule_format, OF sql ran]
  ultimately have "cmds db2 = (if cmds db name = None \<and> h < 2 ^ 63 \<and> v < 2 ^ 31 then (cmds db)(name \<mapsto> (h, v)) else cmds db)" using opened by auto
  moreover have "\<exists>e. ExecuteOne env command_InsertOrUpdate command_Entity ?vs db = (db2, Inr e)"
    using sql opened ran by (auto simp: ExecuteOne_def ExecuteOne_work_def split: option.split)
  ultimately show ?thesis using that [of db2] by (auto simp: commands_InsertOrUpdate_def)
qed

lemma RequiresSynchronization_reads:
  assumes "command_laws env cmds" and "commands_reliable env cmds"
  obtains db' version where "RequiresSynchronization env H command db = (db', Inr (outdated H (cmds db) command, Discord_Hash H command, version))"
    and "cmds db' = cmds db" and "cmds db (sc_name command) = None \<longrightarrow> version = 1"
  using assms
proof (cases rule: FindCommand_reads [where name = "sc_name command" and db = db])
  case (unknown db')
  then show ?thesis using that [of db' 1] by (simp add: RequiresSynchronization_def outdated_def)
next
  case (known db' p h v)
  then show ?thesis using that [of db' "word_of_nat v + 1"] by (simp add: RequiresSynchronization_def outdated_def versioned_hash_def Let_def)
qed

fun created_for :: "hasher \<Rightarrow> slashcommand list \<Rightarrow> command_table \<Rightarrow> slashcommand list" where
  "created_for H [] st = []"
| "created_for H (c # cs) st = (if outdated H st c then [c] else []) @ created_for H cs (record_command H c st)"

lemma create_commands_refines:
  assumes "command_laws env cmds" and "commands_reliable env cmds"
  shows "\<exists>db'. create_commands env H guild commands (db, created) =
      ((db', created @ map (\<lambda>c. (c, guild)) (created_for H (map GetRegistrationInfo commands) (cmds db))), Inr ()) \<and>
    cmds db' = fold (record_command H) (map GetRegistrationInfo commands) (cmds db)"
proof (induction commands arbitrary: db created)
  case (Cons command commands)
  let ?info = "GetRegistrationInfo command"
  obtain db1 version where r: "RequiresSynchronization env H ?info db = (db1, Inr (outdated H (cmds db) ?info, Discord_Hash H ?info, version))"
    "cmds db1 = cmds db" "cmds db (sc_name ?info) = None \<longrightarrow> version = 1"
    by (rule RequiresSynchronization_reads [OF assms])
  show ?case
  proof (cases "outdated H (cmds db) ?info")
    case False
    then have "record_command H ?info (cmds db) = cmds db" by (auto simp: outdated_def record_command_def storable_def)
    then show ?thesis using Cons.IH [of db1 created] r False by simp
  next
    case True
    let ?h = "unat (combine_version H (Discord_Hash H ?info) version)"
    obtain db2 where w: "commands_InsertOrUpdate env (sc_name ?info) ?h (unat version) db1 = (db2, Inr ())"
      "cmds db2 = (if cmds db1 (sc_name ?info) = None \<and> ?h < 2 ^ 63 \<and> unat version < 2 ^ 31 then (cmds db1)(sc_name ?info \<mapsto> (?h, unat version)) else cmds db1)"
      by (rule InsertOrUpdate_writes [OF assms])
    have "cmds db2 = record_command H ?info (cmds db)"
      using w(2) r(2,3) by (auto simp: record_command_def storable_def versioned_hash_def)
    then show ?thesis using Cons.IH [of db2 "created @ [(?info, guild)]"] r(1) w(1) True by simp
  qed
qed simp

text \<open>The fate of a command depends on what the table says of its name only.\<close>

lemma record_other: "sc_name c' \<noteq> sc_name c \<Longrightarrow> outdated H (record_command H c' st) c = outdated H st c"
  "sc_name c' \<noteq> sc_name c \<Longrightarrow> storable H (record_command H c' st) c = storable H st c"
  by (auto simp: record_command_def outdated_def storable_def)

lemma record_same: "outdated H (record_command H c st) c \<longleftrightarrow> outdated H st c \<and> \<not> storable H st c"
  "\<not> storable H (record_command H c st) c"
  by (auto simp: record_command_def outdated_def storable_def)

lemma fold_record_other:
  "sc_name c \<notin> sc_name ` set cs \<Longrightarrow> outdated H (fold (record_command H) cs st) c = outdated H st c \<and> storable H (fold (record_command H) cs st) c = storable H st c"
  by (induction cs arbitrary: st) (auto simp: record_other)

lemma fold_record_member:
  "distinct (map sc_name cs) \<Longrightarrow> c \<in> set cs \<Longrightarrow>
    (outdated H (fold (record_command H) cs st) c \<longleftrightarrow> outdated H st c \<and> \<not> storable H st c) \<and> \<not> storable H (fold (record_command H) cs st) c"
proof (induction cs arbitrary: st)
  case (Cons c' cs)
  show ?case
  proof (cases "c = c'")
    case True
    then show ?thesis using Cons.prems fold_record_other [of c cs H "record_command H c st"] record_same [of H c st] by auto
  next
    case False
    then have "sc_name c' \<noteq> sc_name c" using Cons.prems by (auto simp: image_iff)
    then show ?thesis using Cons False by (auto simp: record_other)
  qed
qed simp

lemma created_for_filter: "distinct (map sc_name cs) \<Longrightarrow> created_for H cs st = filter (outdated H st) cs"
proof (induction cs arbitrary: st)
  case (Cons c cs)
  then have "filter (outdated H (record_command H c st)) cs = filter (outdated H st) cs"
    by (intro filter_cong) (auto simp: record_other image_iff)
  then show ?case using Cons by simp
qed simp

lemma fold_record_stable: "\<forall>c \<in> set cs. \<not> storable H st c \<Longrightarrow> fold (record_command H) cs st = st"
  by (induction cs) (auto simp: record_command_def)

section \<open>Properties\<close>

text \<open>C39: the commands on two servers. A command that the table does not have is created for the first server and recorded, and is never created for another one;
  a command that changed, or whose hash does not fit into the column, is created for every server, and the table does not change. So each command
  reaches all of the servers, or the first one only.\<close>

theorem HandleGuildCreate_servers:
  assumes "command_laws env cmds" and "commands_reliable env cmds" and "distinct (map (\<lambda>c. sc_name (GetRegistrationInfo c)) commands)"
  shows "\<exists>db1 db2. HandleGuildCreate env H (Some guild1) commands db =
      ((db1, map (\<lambda>c. (c, guild1)) (filter (outdated H (cmds db)) (map GetRegistrationInfo commands))), Inr ()) \<and>
    HandleGuildCreate env H (Some guild2) commands db1 =
      ((db2, map (\<lambda>c. (c, guild2)) (filter (\<lambda>c. outdated H (cmds db) c \<and> \<not> storable H (cmds db) c) (map GetRegistrationInfo commands))), Inr ()) \<and>
    cmds db2 = cmds db1"
proof -
  let ?cs = "map GetRegistrationInfo commands"
  have distinct: "distinct (map sc_name ?cs)" using assms(3) by (simp add: comp_def)
  obtain db1 where g1: "HandleGuildCreate env H (Some guild1) commands db = ((db1, map (\<lambda>c. (c, guild1)) (created_for H ?cs (cmds db))), Inr ())"
    "cmds db1 = fold (record_command H) ?cs (cmds db)"
    using create_commands_refines [OF assms(1,2), of H guild1 commands db "[]"] by (auto simp: HandleGuildCreate_def)
  obtain db2 where g2: "HandleGuildCreate env H (Some guild2) commands db1 = ((db2, map (\<lambda>c. (c, guild2)) (created_for H ?cs (cmds db1))), Inr ())"
    "cmds db2 = fold (record_command H) ?cs (cmds db1)"
    using create_commands_refines [OF assms(1,2), of H guild2 commands db1 "[]"] by (auto simp: HandleGuildCreate_def)
  have "filter (outdated H (cmds db1)) ?cs = filter (\<lambda>c. outdated H (cmds db) c \<and> \<not> storable H (cmds db) c) ?cs"
    unfolding g1(2) using fold_record_member [OF distinct] by (intro filter_cong) auto
  moreover have "fold (record_command H) ?cs (cmds db1) = cmds db1"
    unfolding g1(2) using fold_record_member [OF distinct] by (intro fold_record_stable) auto
  ultimately show ?thesis using g1 g2 created_for_filter [OF distinct] by auto
qed

text \<open>An event goes to the command with its name, however often the commands were made.\<close>

lemma HandleReady_names: "distinct (map (\<lambda>c. sc_name (GetRegistrationInfo c)) (HandleReady server []))"
  by (simp add: HandleReady_def Download_RegistrationInfo_def ProductStatus_RegistrationInfo_def CacheStatus_RegistrationInfo_def
      Bind_RegistrationInfo_def TrackFile_RegistrationInfo_def)

lemma Matches_registered: "Matches c (None, Inr n) = Inr (n = sc_name (GetRegistrationInfo c))"
  by (cases c) (simp_all add: matches_name_def Download_Matches_def ProductStatus_Matches_def CacheStatus_Matches_def Bind_Matches_def
      TrackFile_Matches_def Download_RegistrationInfo_def ProductStatus_RegistrationInfo_def CacheStatus_RegistrationInfo_def
      Bind_RegistrationInfo_def TrackFile_RegistrationInfo_def)

lemma HandleSlashCommand_registered:
  "HandleSlashCommand commands (None, Inr n) = (case List.find (\<lambda>c. sc_name (GetRegistrationInfo c) = n) commands of
     None \<Rightarrow> Replied no_handler | Some c \<Rightarrow> Posted c)"
proof -
  have "first_match commands (None, Inr n) = Inr (List.find (\<lambda>c. sc_name (GetRegistrationInfo c) = n) commands)"
    by (induction commands) (auto simp: Matches_registered)
  then show ?thesis by (simp add: HandleSlashCommand_def dispatch_def split: option.split)
qed

section \<open>Witnesses\<close>

text \<open>A database that holds the table of commands only, and a hash that fits.\<close>

definition read_table :: "command_table \<Rightarrow> command_table" where
  "read_table st name = map_option (\<lambda>(h, v). (h, v mod 2 ^ 31)) (st name)"

lemma read_table_None: "read_table st name = None \<longleftrightarrow> st name = None"
  by (simp add: read_table_def)

lemma read_table_insert: "v < 2 ^ 31 \<Longrightarrow> read_table (st(name \<mapsto> (h, v))) = (read_table st)(name \<mapsto> (h, v))"
  by (auto simp: read_table_def)

definition example_command_exec :: "string \<Rightarrow> sql_value list \<Rightarrow> command_table \<Rightarrow> command_table \<times> sql_value list list option" where
  "example_command_exec sql vs st =
     (if Some sql = statement_text command_SelectByName then (case vs of
        [Str name] \<Rightarrow> (st, Some (case read_table st name of None \<Rightarrow> [] | Some (h, v) \<Rightarrow> [command_row 1 name h v])) | _ \<Rightarrow> (st, None))
      else (case vs of
        [Str name, Num h, Num v] \<Rightarrow> if st name = None \<and> h < 2 ^ 63 \<and> v < 2 ^ 31 then (st(name \<mapsto> (h, v)), Some []) else (st, None) | _ \<Rightarrow> (st, None)))"

definition example_command_env :: "command_table sql_env" where
  "example_command_env = \<lparr>alignment_of = (\<lambda>_. 8), mp_sort = partition_sort, default_of = (\<lambda>_. Num 0),
     as_type = (\<lambda>t v. Some v), open_connection = (\<lambda>db. (db, True)), exec_prepared = example_command_exec\<rparr>"

definition example_hasher :: hasher where
  "example_hasher = \<lparr>combine_text = (\<lambda>h s. h + 1), combine_type = (\<lambda>h t. h + 1), combine_bool = (\<lambda>h b. h),
     combine_version = (\<lambda>h v. h + ucast v)\<rparr>"

lemma command_texts_differ: "statement_text command_InsertOrUpdate \<noteq> statement_text command_SelectByName"
  by code_simp

lemma example_command_laws: "command_laws example_command_env read_table" "commands_reliable example_command_env read_table"
proof -
  have "select_command_law example_command_env read_table"
    by (auto simp: select_command_law_def example_command_env_def example_command_exec_def read_table_def split: option.splits)
  moreover have "insert_command_law example_command_env read_table"
    using command_texts_differ
    by (auto simp: insert_command_law_def example_command_env_def example_command_exec_def read_table_None read_table_insert split: if_splits)
  ultimately show "command_laws example_command_env read_table"
    by (simp add: command_laws_def example_command_env_def partition_sort_permutes)
  show "commands_reliable example_command_env read_table"
    using command_texts_differ
    by (auto simp: commands_reliable_def example_command_env_def example_command_exec_def read_table_def)
qed

lemma HandleGuildCreate_servers_witness:
  "\<exists>db1 db2. HandleGuildCreate example_command_env example_hasher (Some 1) [CacheStatusCommand] Map.empty =
      ((db1, [(CacheStatus_RegistrationInfo, 1)]), Inr ()) \<and>
    HandleGuildCreate example_command_env example_hasher (Some 2) [CacheStatusCommand] db1 = ((db2, []), Inr ())"
proof -
  have "versioned_hash example_hasher CacheStatus_RegistrationInfo 1 < 2 ^ 63"
    by (simp add: versioned_hash_def Discord_Hash_def example_hasher_def CacheStatus_RegistrationInfo_def)
  then have "outdated example_hasher (read_table Map.empty) CacheStatus_RegistrationInfo" "storable example_hasher (read_table Map.empty) CacheStatus_RegistrationInfo"
    by (simp_all add: outdated_def storable_def read_table_def)
  then show ?thesis
    using HandleGuildCreate_servers [OF example_command_laws, of "[CacheStatusCommand]" example_hasher 1 Map.empty 2] by auto
qed

end
