(* ===== verification/Publish.thy ===== *)
theory Publish
  imports Discord
begin

text \<open>
  \<^verbatim>\<open>tactmon/Program.cpp\<close>: what the listener does with a new build that was loaded. In each channel that is bound to the product it
  starts a thread, and posts in it a message with links for each file that is tracked. Threads are recorded with
  their messages; \<open>path_filename\<close> is \<^verbatim>\<open>std::filesystem::path::filename\<close>.
\<close>

section \<open>The handler of a new build\<close>

record message =
  ms_title :: string
  ms_description :: string
  ms_buttons :: "(string \<times> string) list"

record thread =
  th_name :: string
  th_channel :: nat
  th_messages :: "message list"

fun join :: "string \<Rightarrow> string list \<Rightarrow> string" where
  "join sep [] = []"
| "join sep [s] = s"
| "join sep (s # ss) = s @ sep @ join sep ss"

text \<open>The loop over the keys of a file, from the key \<open>i\<close> on. The size of the part of the archive is given for the size of the contents.\<close>

primrec publish_buttons :: "string \<Rightarrow> (EKey \<Rightarrow> ArchiveFileLocation option result) \<Rightarrow> string \<Rightarrow> string \<Rightarrow> FileLocation \<Rightarrow> nat \<Rightarrow> nat \<Rightarrow>
    (string \<times> string) list result" where
  "publish_buttons root archive_of productName filename fileKey 0 i = Inr []"
| "publish_buttons root archive_of productName filename fileKey (Suc n) i =
     bindr (FileLocation_at fileKey i) (\<lambda>key. bindr (archive_of key) (\<lambda>fileLocation.
     bindr (publish_buttons root archive_of productName filename fileKey n (i + 1)) (\<lambda>buttons. Inr (case fileLocation of
       None \<Rightarrow> buttons
     | Some l \<Rightarrow> (''Mirror #'' @ print_nat i, GenerateAdress root productName l filename (al_fileSize l)) # buttons))))"

definition publish_file :: "(string \<Rightarrow> string) \<Rightarrow> string \<Rightarrow> (string \<Rightarrow> FileLocation option result) \<Rightarrow> (EKey \<Rightarrow> ArchiveFileLocation option result) \<Rightarrow>
    string \<Rightarrow> entity \<Rightarrow> message option result" where
  "publish_file path_filename root find_file archive_of productName trackedFile =
     (let trackedFilePath = column_text file_Entity file_file_path trackedFile in
      bindr (find_file trackedFilePath) (\<lambda>fileKey. case fileKey of
        None \<Rightarrow> Inr None
      | Some location \<Rightarrow> if fl_keyCount location = 0 then Inr None else
          bindr (publish_buttons root archive_of productName (path_filename trackedFilePath) location (fl_keyCount location) 0) (\<lambda>buttons.
            Inr (Some \<lparr>ms_title = ''Download '' @ quoted (path_filename trackedFilePath) @ ''.'',
              ms_description = print_nat (fl_keyCount location) @ '' possible links.'', ms_buttons = buttons\<rparr>))))"

definition publish_channel :: "(string \<Rightarrow> string) \<Rightarrow> string \<Rightarrow> (string \<Rightarrow> FileLocation option result) \<Rightarrow> (EKey \<Rightarrow> ArchiveFileLocation option result) \<Rightarrow>
    string \<Rightarrow> NewBuild \<Rightarrow> repository \<Rightarrow> entity \<Rightarrow> thread option result" where
  "publish_channel path_filename root find_file archive_of productName newBuild trackedFiles boundChannel =
     (if column_text channel_Entity channel_product_name boundChannel \<noteq> productName then Inr None
      else bindr (ForEach (\<lambda>trackedFile sent. bindr sent (\<lambda>messages.
            bindr (publish_file path_filename root find_file archive_of productName trackedFile) (\<lambda>message.
              Inr (case message of None \<Rightarrow> messages | Some m \<Rightarrow> messages @ [m])))) trackedFiles (Inr [])) (\<lambda>messages.
          Inr (Some \<lparr>th_name = build_text build_build_name (Configuration newBuild) @ '' ('' @ join '', '' (Regions newBuild) @ '')'',
            th_channel = column_number channel_Entity channel_channel_id boundChannel, th_messages = messages\<rparr>)))"

definition publish_build :: "(string \<Rightarrow> string) \<Rightarrow> string \<Rightarrow> (string \<Rightarrow> FileLocation option result) \<Rightarrow> (EKey \<Rightarrow> ArchiveFileLocation option result) \<Rightarrow>
    string \<Rightarrow> NewBuild \<Rightarrow> repository \<Rightarrow> repository \<Rightarrow> thread list result" where
  "publish_build path_filename root find_file archive_of productName newBuild trackedFiles boundChannels =
     ForEach (\<lambda>boundChannel sent. bindr sent (\<lambda>threads.
       bindr (publish_channel path_filename root find_file archive_of productName newBuild trackedFiles boundChannel) (\<lambda>thread.
         Inr (case thread of None \<Rightarrow> threads | Some t \<Rightarrow> threads @ [t])))) boundChannels (Inr [])"

section \<open>What is published\<close>

fun somes :: "'a option list \<Rightarrow> 'a list" where
  "somes [] = []"
| "somes (None # xs) = somes xs"
| "somes (Some y # xs) = y # somes xs"

text \<open>A loop that collects what it gets from each entry.\<close>

lemma ForEach_collects:
  "ForEach (\<lambda>e st. bindr st (\<lambda>xs. bindr (f e) (\<lambda>x. Inr (case x of None \<Rightarrow> xs | Some y \<Rightarrow> xs @ [y])))) r (Inr []) = Inr ys \<longleftrightarrow>
    (\<exists>xs. list_all2 (\<lambda>(k, e) x. f e = Inr x) (storage r) xs \<and> ys = somes xs)"
proof -
  let ?F = "\<lambda>e st. bindr st (\<lambda>xs. bindr (f e) (\<lambda>x. Inr (case x of None \<Rightarrow> xs | Some y \<Rightarrow> xs @ [y])))"
  have stuck: "fold (\<lambda>(k, v). ?F v) m (Inl e) = Inl e" for m :: "(nat \<times> entity) list" and e by (induction m) auto
  have "fold (\<lambda>(k, v). ?F v) m (Inr ys0) = Inr ys \<longleftrightarrow> (\<exists>xs. list_all2 (\<lambda>(k, e) x. f e = Inr x) m xs \<and> ys = ys0 @ somes xs)" for m :: "(nat \<times> entity) list" and ys0
  proof (induction m arbitrary: ys0)
    case (Cons p m)
    obtain k e where p: "p = (k, e)" by (cases p)
    show ?case
    proof (cases "f e")
      case (Inl error)
      then show ?thesis using stuck by (auto simp: p list_all2_Cons1)
    next
      case (Inr x)
      then show ?thesis using Cons.IH [of "case x of None \<Rightarrow> ys0 | Some y \<Rightarrow> ys0 @ [y]"]
        by (cases x) (auto simp: p list_all2_Cons1)
    qed
  qed auto
  from this [of "storage r" "[]"] show ?thesis by (simp add: ForEach_def)
qed

lemma collected_member:
  "list_all2 (\<lambda>(k, e) x. f e = Inr x) m xs \<Longrightarrow> y \<in> set (somes xs) \<longleftrightarrow> (\<exists>e \<in> snd ` set m. f e = Inr (Some y))"
proof (induction m xs rule: list_all2_induct)
  case (Cons p m x xs)
  then show ?case by (cases p; cases x) auto
qed simp

lemma list_all2_conj_exists: "list_all2 (\<lambda>(k, e) x. f e = Inr x) m xs \<Longrightarrow> \<forall>e \<in> snd ` set m. \<exists>x. f e = Inr x"
  by (induction m xs rule: list_all2_induct) auto

lemma publish_buttons_links:
  "publish_buttons root archive_of productName filename fileKey n i = Inr buttons \<Longrightarrow>
    (\<forall>(label, url) \<in> set buttons. \<exists>j key l. i \<le> j \<and> j < i + n \<and> label = ''Mirror #'' @ print_nat j \<and> FileLocation_at fileKey j = Inr key \<and>
      archive_of key = Inr (Some l) \<and> url = GenerateAdress root productName l filename (al_fileSize l)) \<and>
    (\<forall>j l. i \<le> j \<and> j < i + n \<and> bindr (FileLocation_at fileKey j) archive_of = Inr (Some l) \<longrightarrow>
      (''Mirror #'' @ print_nat j, GenerateAdress root productName l filename (al_fileSize l)) \<in> set buttons)"
proof (induction n arbitrary: i buttons)
  case (Suc n)
  then obtain key r rest where k: "FileLocation_at fileKey i = Inr key" "archive_of key = Inr r"
    "publish_buttons root archive_of productName filename fileKey n (i + 1) = Inr rest"
    "buttons = (case r of None \<Rightarrow> rest | Some l \<Rightarrow> (''Mirror #'' @ print_nat i, GenerateAdress root productName l filename (al_fileSize l)) # rest)"
    by (auto elim!: bindr_InrE)
  note IH = Suc.IH [OF k(3)]
  have "\<exists>j key l. i \<le> j \<and> j < i + Suc n \<and> label = ''Mirror #'' @ print_nat j \<and> FileLocation_at fileKey j = Inr key \<and>
      archive_of key = Inr (Some l) \<and> url = GenerateAdress root productName l filename (al_fileSize l)" if "(label, url) \<in> set buttons" for label url
  proof (cases "(label, url) \<in> set rest")
    case True
    then obtain j key l where "i + 1 \<le> j" "j < i + 1 + n" "label = ''Mirror #'' @ print_nat j" "FileLocation_at fileKey j = Inr key"
      "archive_of key = Inr (Some l)" "url = GenerateAdress root productName l filename (al_fileSize l)" using IH by blast
    then show ?thesis by (intro exI [of _ j] exI [of _ key] exI [of _ l]) simp
  next
    case False
    then show ?thesis using that k by (intro exI [of _ i] exI [of _ key]) (auto split: option.splits)
  qed
  moreover have "(''Mirror #'' @ print_nat j, GenerateAdress root productName l filename (al_fileSize l)) \<in> set buttons"
    if "i \<le> j" "j < i + Suc n" "bindr (FileLocation_at fileKey j) archive_of = Inr (Some l)" for j l
    using that IH k by (cases "j = i") (auto split: option.splits)
  ultimately show ?case by blast
qed auto

text \<open>A message of a file: a button for each of its keys that is in an archive, whose address the server reads as the request for that part.\<close>

definition file_path :: "entity \<Rightarrow> string" where
  "file_path e = column_text file_Entity file_file_path e"

definition message_of :: "string \<Rightarrow> (EKey \<Rightarrow> ArchiveFileLocation option result) \<Rightarrow> string \<Rightarrow> string \<Rightarrow> FileLocation \<Rightarrow> message \<Rightarrow> bool" where
  "message_of root archive_of productName name location m \<longleftrightarrow>
     ms_title m = ''Download '' @ quoted name @ ''.'' \<and>
     (\<forall>(label, url) \<in> set (ms_buttons m). \<exists>j key l. j < fl_keyCount location \<and> label = ''Mirror #'' @ print_nat j \<and>
       FileLocation_at location j = Inr key \<and> archive_of key = Inr (Some l) \<and>
       (0 < al_fileSize l \<longrightarrow> parse_target (drop (length root) url) = Inr \<lparr>fq_Product = productName, fq_ArchiveName = al_archiveName l,
         fq_Offset = al_offset l, fq_Length = al_fileSize l, fq_DecompressedSize = al_fileSize l, fq_FileName = name\<rparr>)) \<and>
     (\<forall>j l. j < fl_keyCount location \<and> bindr (FileLocation_at location j) archive_of = Inr (Some l) \<longrightarrow>
       (\<exists>url. (''Mirror #'' @ print_nat j, url) \<in> set (ms_buttons m)))"

lemma publish_channel_messages:
  assumes "publish_channel path_filename root find_file archive_of productName newBuild trackedFiles c = Inr (Some t)"
  obtains xs where "list_all2 (\<lambda>(k, e) x. publish_file path_filename root find_file archive_of productName e = Inr x) (storage trackedFiles) xs"
    and "th_messages t = somes xs"
proof -
  obtain messages where m: "ForEach (\<lambda>e st. bindr st (\<lambda>xs. bindr (publish_file path_filename root find_file archive_of productName e) (\<lambda>x.
      Inr (case x of None \<Rightarrow> xs | Some y \<Rightarrow> xs @ [y])))) trackedFiles (Inr []) = Inr messages" "th_messages t = messages"
    using assms unfolding publish_channel_def by (auto elim!: bindr_InrE split: if_splits)
  from m(1) [unfolded ForEach_collects] show ?thesis using that m(2) by blast
qed

lemma publish_channel_threads:
  assumes "list_all2 (\<lambda>(k, c) x. publish_channel path_filename root find_file archive_of productName newBuild trackedFiles c = Inr x) cs xs"
  shows "map th_channel (somes xs) =
    map (column_number channel_Entity channel_channel_id) (filter (\<lambda>c. column_text channel_Entity channel_product_name c = productName) (map snd cs))"
  using assms
proof (induction rule: list_all2_induct)
  case (Cons p cs x xs)
  obtain k c where p: "p = (k, c)" by (cases p)
  then have "publish_channel path_filename root find_file archive_of productName newBuild trackedFiles c = Inr x" using Cons.hyps by simp
  then have "if column_text channel_Entity channel_product_name c = productName
      then \<exists>t. x = Some t \<and> th_channel t = column_number channel_Entity channel_channel_id c else x = None"
    by (auto simp: publish_channel_def elim!: bindr_InrE split: if_splits)
  then show ?case using Cons.IH by (auto simp: p split: if_splits)
qed simp

context product_access
begin

lemma published_file:
  assumes "loaded_ok p" and "part_ok productName" and "part_ok (path_filename (file_path e))" and "path_filename (file_path e) \<noteq> []"
    and "publish_file path_filename root (find_file p) (archive_of p) productName e = Inr (Some m)"
  shows "\<exists>location. find_file p (file_path e) = Inr (Some location) \<and> message_of root (archive_of p) productName (path_filename (file_path e)) location m"
proof -
  let ?name = "path_filename (file_path e)"
  obtain location buttons where l: "find_file p (file_path e) = Inr (Some location)"
    "publish_buttons root (archive_of p) productName ?name location (fl_keyCount location) 0 = Inr buttons"
    "ms_title m = ''Download '' @ quoted ?name @ ''.''" "ms_buttons m = buttons"
    using assms(5) by (auto simp: publish_file_def file_path_def Let_def elim!: bindr_InrE split: option.splits if_splits)
  have link: "parse_target (drop (length root) (GenerateAdress root productName l ?name (al_fileSize l))) = Inr \<lparr>fq_Product = productName,
      fq_ArchiveName = al_archiveName l, fq_Offset = al_offset l, fq_Length = al_fileSize l, fq_DecompressedSize = al_fileSize l, fq_FileName = ?name\<rparr>"
    if "archive_of p key = Inr (Some l)" "0 < al_fileSize l" for key l
    using parse_address [of productName l ?name "al_fileSize l" root] archive_located [OF assms(1) that(1)] that(2) assms(2-4)
    by (simp add: location_ok_def)
  have "\<exists>j key l. j < fl_keyCount location \<and> label = ''Mirror #'' @ print_nat j \<and> FileLocation_at location j = Inr key \<and>
      archive_of p key = Inr (Some l) \<and> (0 < al_fileSize l \<longrightarrow> parse_target (drop (length root) url) = Inr \<lparr>fq_Product = productName,
        fq_ArchiveName = al_archiveName l, fq_Offset = al_offset l, fq_Length = al_fileSize l, fq_DecompressedSize = al_fileSize l, fq_FileName = ?name\<rparr>)"
    if "(label, url) \<in> set buttons" for label url
  proof -
    obtain j key l where "j < fl_keyCount location" "label = ''Mirror #'' @ print_nat j" "FileLocation_at location j = Inr key"
      "archive_of p key = Inr (Some l)" "url = GenerateAdress root productName l ?name (al_fileSize l)"
      using publish_buttons_links [OF l(2)] \<open>(label, url) \<in> set buttons\<close> by auto
    then show ?thesis using link by blast
  qed
  moreover have "\<exists>url. (''Mirror #'' @ print_nat j, url) \<in> set buttons"
    if "j < fl_keyCount location" "bindr (FileLocation_at location j) (archive_of p) = Inr (Some l)" for j l
    using publish_buttons_links [OF l(2), THEN conjunct2, rule_format, of j l] that by auto
  ultimately have "message_of root (archive_of p) productName ?name location m"
    unfolding message_of_def l(3,4) by blast
  then show ?thesis using l(1) by blast
qed

lemma published:
  assumes "loaded_ok p" and "part_ok productName" and "publish_build path_filename root (find_file p) (archive_of p) productName newBuild files channels = Inr threads"
    and "\<forall>e \<in> snd ` set (storage files). part_ok (path_filename (file_path e)) \<and> path_filename (file_path e) \<noteq> []"
  shows "map th_channel threads = map (column_number channel_Entity channel_channel_id)
      (filter (\<lambda>c. column_text channel_Entity channel_product_name c = productName) (map snd (storage channels))) \<and>
    (\<forall>t \<in> set threads. (\<forall>m \<in> set (th_messages t). \<exists>e \<in> snd ` set (storage files). \<exists>location. find_file p (file_path e) = Inr (Some location) \<and>
        message_of root (archive_of p) productName (path_filename (file_path e)) location m) \<and>
      (\<forall>e \<in> snd ` set (storage files). \<forall>location. find_file p (file_path e) = Inr (Some location) \<and> fl_keyCount location \<noteq> 0 \<longrightarrow>
        (\<exists>m \<in> set (th_messages t). message_of root (archive_of p) productName (path_filename (file_path e)) location m)))"
proof -
  let ?file = "publish_file path_filename root (find_file p) (archive_of p) productName"
  let ?channel = "publish_channel path_filename root (find_file p) (archive_of p) productName newBuild files"
  obtain ts where ts: "list_all2 (\<lambda>(k, c) x. ?channel c = Inr x) (storage channels) ts" "threads = somes ts"
    using assms(3) unfolding publish_build_def ForEach_collects by blast
  have right: "\<exists>location. find_file p (file_path e) = Inr (Some location) \<and> message_of root (archive_of p) productName (path_filename (file_path e)) location m"
    if "e \<in> snd ` set (storage files)" "?file e = Inr (Some m)" for e m
    using published_file [OF assms(1,2) _ _ that(2)] assms(4) that(1) by blast
  have thread: "(\<forall>m \<in> set (th_messages t). \<exists>e \<in> snd ` set (storage files). ?file e = Inr (Some m)) \<and>
      (\<forall>e \<in> snd ` set (storage files). (\<exists>r. ?file e = Inr r) \<and> (\<forall>m. ?file e = Inr (Some m) \<longrightarrow> m \<in> set (th_messages t)))" if "t \<in> set threads" for t
  proof -
    have "t \<in> set (somes ts)" using that ts(2) by simp
    from iffD1 [OF collected_member [OF ts(1)] this] obtain c where "?channel c = Inr (Some t)" by blast
    then obtain xs where xs: "list_all2 (\<lambda>(k, e) x. ?file e = Inr x) (storage files) xs" "th_messages t = somes xs"
      by (rule publish_channel_messages)
    have member: "m \<in> set (th_messages t) \<longleftrightarrow> (\<exists>e \<in> snd ` set (storage files). ?file e = Inr (Some m))" for m
      unfolding xs(2) by (rule collected_member [OF xs(1)])
    show ?thesis
    proof (intro conjI ballI allI impI)
      fix e m
      show "\<exists>e \<in> snd ` set (storage files). ?file e = Inr (Some m)" if "m \<in> set (th_messages t)" using that unfolding member .
      assume e: "e \<in> snd ` set (storage files)"
      show "\<exists>r. ?file e = Inr r" by (rule bspec [OF list_all2_conj_exists [OF xs(1)] e])
      show "m \<in> set (th_messages t)" if "?file e = Inr (Some m)" using that e unfolding member by (rule bexI)
    qed
  qed
  have file_message: "\<exists>m \<in> set (th_messages t). message_of root (archive_of p) productName (path_filename (file_path e)) location m"
    if "t \<in> set threads" "e \<in> snd ` set (storage files)" "find_file p (file_path e) = Inr (Some location)" "fl_keyCount location \<noteq> 0" for t e location
  proof -
    note t = that
    obtain r where r: "?file e = Inr r" using thread [OF t(1)] t(2) by blast
    then obtain m where m: "?file e = Inr (Some m)"
      using t(3,4) by (auto simp: publish_file_def file_path_def Let_def elim!: bindr_InrE)
    then have "m \<in> set (th_messages t)" using thread [OF t(1)] t(2) by blast
    moreover have "message_of root (archive_of p) productName (path_filename (file_path e)) location m"
      using right [OF t(2) m] t(3) by auto
    ultimately show ?thesis by blast
  qed
  have "\<exists>e \<in> snd ` set (storage files). \<exists>location. find_file p (file_path e) = Inr (Some location) \<and>
      message_of root (archive_of p) productName (path_filename (file_path e)) location m" if "t \<in> set threads" "m \<in> set (th_messages t)" for t m
    using thread [OF that(1)] that(2) right by blast
  then show ?thesis using publish_channel_threads [OF ts(1)] file_message ts(2) by blast
qed

end

section \<open>Properties\<close>


section \<open>Witnesses\<close>

lemma example_entities:
  "\<exists>e. file_path e = ''d/a''"
  "\<exists>c. column_number channel_Entity channel_channel_id c = 5 \<and> column_text channel_Entity channel_product_name c = ''wow''"
proof -
  let ?fvs = "map (\<lambda>v. (v, v)) [Num 1, Str ''wow'', Str ''d/a'', Str ''a'']"
  let ?cs = "[Column ''id'' uint32, file_product_name, file_file_path, file_display_name]"
  have "\<exists>p. Entity_row (\<lambda>_. 8) partition_sort (\<lambda>_. Num 0) (\<lambda>t. Some) file_Entity (map fst ?fvs) = Some (Inr p) \<and>
      (\<forall>i < length ?cs. Entity_get file_Entity (?cs ! i) p = Some (snd (?fvs ! i)))"
    unfolding file_Entity_def by (rule Entity_row_reads [OF partition_sort_permutes])
      (simp_all add: declared_types_def file_product_name_def file_file_path_def file_display_name_def)
  then obtain e where "\<forall>i < length ?cs. Entity_get file_Entity (?cs ! i) e = Some (snd (?fvs ! i))" by blast
  then have "Entity_get file_Entity file_file_path e = Some (Str ''d/a'')" by (auto dest: spec [of _ 2])
  then have "file_path e = ''d/a''" by (simp add: file_path_def column_text_def)
  then show "\<exists>e. file_path e = ''d/a''" ..
next
  let ?fvs = "map (\<lambda>v. (v, v)) [Num 1, Num 2, Num 5, Str ''wow'']"
  let ?cs = "[Column ''id'' uint32, channel_guild_id, channel_channel_id, channel_product_name]"
  have "\<exists>p. Entity_row (\<lambda>_. 8) partition_sort (\<lambda>_. Num 0) (\<lambda>t. Some) channel_Entity (map fst ?fvs) = Some (Inr p) \<and>
      (\<forall>i < length ?cs. Entity_get channel_Entity (?cs ! i) p = Some (snd (?fvs ! i)))"
    unfolding channel_Entity_def by (rule Entity_row_reads [OF partition_sort_permutes])
      (simp_all add: declared_types_def channel_guild_id_def channel_channel_id_def channel_product_name_def)
  then obtain c where "\<forall>i < length ?cs. Entity_get channel_Entity (?cs ! i) c = Some (snd (?fvs ! i))" by blast
  then have "Entity_get channel_Entity channel_channel_id c = Some (Num 5)" "Entity_get channel_Entity channel_product_name c = Some (Str ''wow'')"
    by (auto dest: spec [of _ 2] spec [of _ 3])
  then have "column_number channel_Entity channel_channel_id c = 5 \<and> column_text channel_Entity channel_product_name c = ''wow''"
    by (simp add: column_number_def column_text_def)
  then show "\<exists>c. column_number channel_Entity channel_channel_id c = 5 \<and> column_text channel_Entity channel_product_name c = ''wow''" ..
qed


end
