(* ===== verification/Program.thy ===== *)
theory Program
  imports Publish Monitor
begin

text \<open>
  \<^verbatim>\<open>tactmon/Program.cpp\<close>: how the parts of the program are put together. It registers the products it knows, and the
  listener of \<open>Updates\<close> as the only one of the monitor, so each notification of an update runs the listener before the
  next row of the summary is looked at, on the same database. What the version service answers is a parameter.
\<close>

section \<open>The products\<close>

definition WOW_PRODUCTS :: "string list" where
  "WOW_PRODUCTS = [''wow'', ''wow_beta'', ''wow_classic'', ''wow_classic_beta'', ''wow_classic_ptr'']"

definition program_cache :: "(WowProduct, string \<times> nat) product_cache" where
  "program_cache = fold (\<lambda>gameProduct. RegisterFactory gameProduct (WowProduct_new gameProduct)) WOW_PRODUCTS ProductCache_new"

section \<open>The monitor and its listener\<close>

text \<open>The state of the program: the monitor with the database, the files of the cache, the new builds and the products in memory.\<close>

type_synonym 'db program_state = "('db, unit) monitor \<times> files \<times> NewBuild list \<times> (WowProduct, string \<times> nat) product_cache"

definition program_monitor :: "'db \<Rightarrow> ('db, unit) monitor" where
  "program_monitor db = RegisterListener () \<lparr>database = db, listeners = [], notified = []\<rparr>"

record 'c service =
  sv_resolver :: "'c resolver"
  sv_load :: "WowProduct loader"
  sv_versions :: "string \<Rightarrow> Versions option"
  sv_cdns :: "string \<Rightarrow> CDNsRecord list option"
  sv_proxy :: bool
  sv_now :: nat

text \<open>The call of the listener that \<^verbatim>\<open>NotifyProductUpdate\<close> makes.\<close>

definition call_listener :: "'c service \<Rightarrow> 'db sql_env \<Rightarrow> unit \<times> string \<times> nat \<times> ProductState \<Rightarrow> 'db program_state \<Rightarrow> 'db program_state result" where
  "call_listener S env = (\<lambda>(_, productName, sequenceID, state) (m, files, newBuilds, cache).
     bindr (on_update (sv_resolver S) env (sv_load S) (sv_now S) (sv_proxy S) (sv_versions S productName) (sv_cdns S productName) productName
         (files, database m, newBuilds) cache) (\<lambda>((files, db, newBuilds), cache). Inr (m\<lparr>database := db\<rparr>, files, newBuilds, cache)))"

text \<open>One row of the summary; an exception leaves the update.\<close>

definition program_record :: "'c service \<Rightarrow> 'db sql_env \<Rightarrow> SummaryRecord \<Rightarrow> 'db program_state \<Rightarrow> 'db program_state result" where
  "program_record S env r = (\<lambda>(m, files, newBuilds, cache). case OnUpdate_record env r m of
     (m', Inl e) \<Rightarrow> Inl e
   | (m', Inr _) \<Rightarrow> foldr_res (call_listener S env) (drop (length (notified m)) (notified m')) (m', files, newBuilds, cache))"

definition program_update :: "'c service \<Rightarrow> 'db sql_env \<Rightarrow> SummaryRecord list option \<Rightarrow> 'db program_state \<Rightarrow> 'db program_state result" where
  "program_update S env summary st = (case summary of None \<Rightarrow> Inr st | Some rs \<Rightarrow> foldr_res (program_record S env) rs st)"

section \<open>Statements leave other tables alone\<close>

definition untouched :: "'db sql_env \<Rightarrow> component option \<Rightarrow> ('db \<Rightarrow> 'v) \<Rightarrow> bool" where
  "untouched env query f \<longleftrightarrow> (\<forall>sql vs db. statement_text query = Some sql \<longrightarrow> f (fst (exec_prepared env sql vs db)) = f db)"

definition independent :: "'db sql_env \<Rightarrow> ('db \<Rightarrow> string \<Rightarrow> nat option) \<Rightarrow> ('db \<Rightarrow> build_row list) \<Rightarrow> bool" where
  "independent env products builds \<longleftrightarrow>
     untouched env product_SelByName builds \<and> untouched env product_Insert builds \<and> untouched env product_Update builds \<and>
     untouched env build_SelByName products \<and> untouched env build_Insert products"

lemma ExecuteOne_frame:
  assumes "untouched env query f" and "\<forall>db. f (fst (open_connection env db)) = f db"
  shows "f (fst (ExecuteOne env query result_type vs db)) = f db"
proof -
  obtain db1 opened where o: "open_connection env db = (db1, opened)" by (cases "open_connection env db")
  then have same: "f db1 = f db" using assms(2) by (metis fst_conv)
  have "f (fst (ExecuteOne_work env query result_type vs db1)) = f db1"
  proof (cases "statement_text query")
    case (Some sql)
    obtain db2 r where r: "exec_prepared env sql vs db1 = (db2, r)" by (cases "exec_prepared env sql vs db1")
    then have "f db2 = f db1" using assms(1) Some unfolding untouched_def by (metis fst_conv)
    then show ?thesis using Some r by (simp add: ExecuteOne_work_def split: option.split)
  qed (simp add: ExecuteOne_work_def)
  then show ?thesis using o same by (cases opened) (simp_all add: ExecuteOne_def)
qed

lemma ExecuteOne_void_frame:
  assumes "untouched env query f" and "\<forall>db. f (fst (open_connection env db)) = f db"
  shows "f (fst (ExecuteOne_void env query vs db)) = f db"
proof -
  obtain db1 opened where o: "open_connection env db = (db1, opened)" by (cases "open_connection env db")
  then have "f db1 = f db" using assms(2) by (metis fst_conv)
  then show ?thesis using assms(1) o by (cases opened) (auto simp: ExecuteOne_void_def untouched_def split: option.split)
qed

lemma OnUpdate_record_builds:
  assumes "independent env products builds" and "build_laws env builds"
  shows "builds (database (fst (OnUpdate_record env r m))) = builds (database m)"
proof -
  have opened: "\<forall>db. builds (fst (open_connection env db)) = builds db" using assms(2) by (simp add: build_laws_def)
  have frames: "builds (fst (products_GetByName env n db)) = builds db" "builds (fst (products_Insert env n s db)) = builds db"
    "builds (fst (products_Update env n s db)) = builds db" for n s db
    using assms(1) opened
    by (simp_all add: products_GetByName_def products_Insert_def products_Update_def ExecuteOne_frame ExecuteOne_void_frame independent_def)
  obtain db1 g where g: "products_GetByName env (sr_Product r) (database m) = (db1, g)" by (cases "products_GetByName env (sr_Product r) (database m)")
  obtain db2 i where i: "products_Insert env (sr_Product r) (sr_SequenceID r) db1 = (db2, i)" by (cases "products_Insert env (sr_Product r) (sr_SequenceID r) db1")
  obtain db3 u where u: "products_Update env (sr_Product r) (sr_SequenceID r) db1 = (db3, u)" by (cases "products_Update env (sr_Product r) (sr_SequenceID r) db1")
  have "builds db1 = builds (database m)" "builds db2 = builds db1" "builds db3 = builds db1"
    using frames(1) [of "sr_Product r" "database m"] frames(2,3) [of "sr_Product r" "sr_SequenceID r" db1] g i u by simp_all
  then show ?thesis using g i u by (simp add: OnUpdate_record_def split: option.split sum.split)
qed

lemma insert_build_products:
  assumes "independent env products builds" and "product_laws env products"
  shows "products (fst (insert_build env now productName name v db)) = products db"
proof -
  have opened: "\<forall>db. products (fst (open_connection env db)) = products db" using assms(2) by (simp add: product_laws_def)
  obtain db1 g where g: "builds_GetByBuildName env name (vr_Region v) db = (db1, g)" by (cases "builds_GetByBuildName env name (vr_Region v) db")
  have "products (fst (builds_GetByBuildName env name (vr_Region v) db)) = products db"
    "products (fst (builds_Insert env now region productName name c d db1)) = products db1" for region c d
    using assms(1) opened by (simp_all add: builds_GetByBuildName_def builds_Insert_def ExecuteOne_frame independent_def)
  then show ?thesis using g by (simp add: insert_build_def split: sum.split option.split)
qed

lemma on_versions_products:
  assumes "independent env products builds" and "product_laws env products"
  shows "foldr_res (on_version resolver env now productName cdns) vs (files, db, newBuilds) = Inr (files', db', newBuilds') \<Longrightarrow> products db' = products db"
proof (induction vs arbitrary: files db newBuilds)
  case (Cons v vs)
  obtain files1 db1 newBuilds1 where step: "on_version resolver env now productName cdns v (files, db, newBuilds) = Inr (files1, db1, newBuilds1)"
    "foldr_res (on_version resolver env now productName cdns) vs (files1, db1, newBuilds1) = Inr (files', db', newBuilds')"
    using Cons.prems by (auto elim!: bindr_InrE)
  have "products db1 = products db"
    using step(1) insert_build_products [OF assms, of now productName _ v db]
    by (auto simp: on_version_def elim!: bindr_InrE split: option.splits prod.splits sum.splits) (metis fst_conv)+
  then show ?case using Cons.IH [OF step(2)] by simp
qed simp

section \<open>What an update learns\<close>

text \<open>
  The abstract program: the names and regions of the builds that are known, beside the files of the cache. \<open>known\<close> tells the products of the
  program.
\<close>

definition learned :: "'c service \<Rightarrow> (string \<Rightarrow> bool) \<Rightarrow> string \<Rightarrow> files \<times> (string \<times> string) list \<Rightarrow> (files \<times> (string \<times> string) list) result" where
  "learned S known productName = (\<lambda>(files, keys). if \<not> known productName then Inr (files, keys) else
     case (sv_versions S productName, sv_cdns S productName) of
       (Some versions, Some cdns) \<Rightarrow> bindr (resolved_builds (sv_resolver S) cdns (vs_Records versions) files) (\<lambda>(rs, files).
         Inr (files, fold add_key (map version_key rs) keys))
     | _ \<Rightarrow> Inr (files, keys))"

definition learned_all :: "'c service \<Rightarrow> (string \<Rightarrow> bool) \<Rightarrow> SummaryRecord list \<Rightarrow> files \<times> (string \<times> string) list \<Rightarrow> (files \<times> (string \<times> string) list) result" where
  "learned_all S known rs st = foldr_res (\<lambda>r. learned S known (sr_Product r)) rs st"

lemma LoadConfiguration_factories: "productFactories (fst (LoadConfiguration load productName configuration handler lifetime now c)) = productFactories c"
  by (auto simp: LoadConfiguration_def Let_def split: option.split prod.split)

lemma load_new_builds_factories: "productFactories (load_new_builds load productName now newBuilds cache) = productFactories cache"
proof -
  have "productFactories (fold (\<lambda>(i, b) cache. fst (LoadConfiguration load productName (entity_build (Configuration b)) (productName, i) (2 * 60) now cache)) xs cache) =
      productFactories cache" for xs cache
    by (induction xs arbitrary: cache) (auto simp: LoadConfiguration_factories)
  then show ?thesis by (simp add: load_new_builds_def)
qed

text \<open>What holds between two rows of the summary.\<close>

definition program_inv :: "('db \<Rightarrow> build_row list) \<Rightarrow> 'db program_state \<Rightarrow> bool" where
  "program_inv builds = (\<lambda>(m, files, newBuilds, cache). listeners m = [()] \<and> distinct (map build_key (builds (database m))) \<and>
     distinct (map identity_of newBuilds))"

text \<open>The laws of a database that answers.\<close>

definition database_ok :: "'db sql_env \<Rightarrow> ('db \<Rightarrow> string \<Rightarrow> nat option) \<Rightarrow> ('db \<Rightarrow> build_row list) \<Rightarrow> bool" where
  "database_ok env products builds \<longleftrightarrow> product_laws env products \<and> products_reliable env products \<and> build_laws env builds \<and> builds_reliable env \<and>
     independent env products builds"

lemma call_listener_refines:
  assumes "database_ok env products builds" and "program_inv builds (m, files, newBuilds, cache)"
    and "learned S (\<lambda>p. IsAwareOf p cache) productName (files, map build_key (builds (database m))) = Inr (files', keys')"
  shows "\<exists>m' newBuilds' cache'. call_listener S env ((), productName, n, state) (m, files, newBuilds, cache) = Inr (m', files', newBuilds', cache') \<and>
    program_inv builds (m', files', newBuilds', cache') \<and> products (database m') = products (database m) \<and>
    map build_key (builds (database m')) = keys' \<and> productFactories cache' = productFactories cache"
proof (cases "IsAwareOf productName cache \<and> sv_versions S productName \<noteq> None \<and> sv_cdns S productName \<noteq> None")
  case True
  then obtain versions cdns where answers: "sv_versions S productName = Some versions" "sv_cdns S productName = Some cdns" "IsAwareOf productName cache" by auto
  then obtain rs where rs: "resolved_builds (sv_resolver S) cdns (vs_Records versions) files = Inr (rs, files')"
    "keys' = fold add_key (map version_key rs) (map build_key (builds (database m)))"
    using assms(3) by (auto simp: learned_def elim!: bindr_InrE)
  have laws: "build_laws env builds" "builds_reliable env" "independent env products builds" "product_laws env products"
    using assms(1) by (simp_all add: database_ok_def)
  have inv: "distinct (map build_key (builds (database m)))" "distinct (map identity_of newBuilds)" "listeners m = [()]"
    using assms(2) by (simp_all add: program_inv_def)
  obtain db' newBuilds' where r: "foldr_res (on_version (sv_resolver S) env (sv_now S) productName cdns) (vs_Records versions) (files, database m, newBuilds) =
      Inr (files', db', newBuilds')" "map build_key (builds db') = keys'" "distinct (map identity_of newBuilds')"
    using on_versions_record [OF laws(1,2) inv(1,2) rs(1), of "sv_now S" productName] unfolding rs(2) by blast
  have "products db' = products (database m)" by (rule on_versions_products [OF laws(3,4) r(1)])
  moreover have "distinct keys'" unfolding rs(2) by (rule distinct_add_keys [OF inv(1)])
  ultimately show ?thesis
    using r answers inv load_new_builds_factories
    by (auto simp: call_listener_def on_update_def program_inv_def simp del: set_map)
next
  case False
  then have "files' = files" "keys' = map build_key (builds (database m))"
    using assms(3) by (auto simp: learned_def split: if_splits option.splits)
  then show ?thesis using False assms(2) by (auto simp: call_listener_def on_update_def split: option.split)
qed

lemma program_record_refines:
  assumes "database_ok env products builds" and "program_inv builds (m, files, newBuilds, cache)"
    and "learned_all S (\<lambda>p. IsAwareOf p cache) (news [r] (products (database m))) (files, map build_key (builds (database m))) = Inr (files', keys')"
  shows "\<exists>m' newBuilds' cache'. program_record S env r (m, files, newBuilds, cache) = Inr (m', files', newBuilds', cache') \<and>
    program_inv builds (m', files', newBuilds', cache') \<and> products (database m') = raise r (products (database m)) \<and>
    map build_key (builds (database m')) = keys' \<and> productFactories cache' = productFactories cache"
proof -
  have laws: "product_laws env products" "products_reliable env products" "build_laws env builds" "independent env products builds"
    using assms(1) by (simp_all add: database_ok_def)
  obtain m1 where m1: "OnUpdate_record env r m = (m1, Inr ())" "products (database m1) = raise r (products (database m))"
    "listeners m1 = listeners m" "notified m1 = notified m @ notifications (listeners m) (news [r] (products (database m)))"
    using OnUpdate_record_reliable [OF laws(1,2), of r m] by blast
  have keys: "map build_key (builds (database m1)) = map build_key (builds (database m))"
    using OnUpdate_record_builds [OF laws(4,3), of r m] m1(1) by simp
  have inv: "program_inv builds (m1, files, newBuilds, cache)" using assms(2) m1(3) keys by (simp add: program_inv_def)
  have "listeners m = [()]" using assms(2) by (simp add: program_inv_def)
  then have new: "drop (length (notified m)) (notified m1) = (if newer r (products (database m)) then [((), sr_Product r, sr_SequenceID r, Updated)] else [])"
    using m1(4) by simp
  show ?thesis
  proof (cases "newer r (products (database m))")
    case False
    then show ?thesis using m1 new inv keys assms(3) by (simp add: program_record_def learned_all_def)
  next
    case True
    then have "learned S (\<lambda>p. IsAwareOf p cache) (sr_Product r) (files, map build_key (builds (database m1))) = Inr (files', keys')"
      using assms(3) keys by (cases "learned S (\<lambda>p. IsAwareOf p cache) (sr_Product r) (files, map build_key (builds (database m)))") (simp_all add: learned_all_def)
    from call_listener_refines [OF assms(1) inv this, of "sr_SequenceID r" Updated]
    show ?thesis using True m1 new by (auto simp: program_record_def)
  qed
qed

lemma program_records_refine:
  assumes "database_ok env products builds"
  shows "program_inv builds (m, files, newBuilds, cache) \<Longrightarrow>
    learned_all S (\<lambda>p. IsAwareOf p cache) (news rs (products (database m))) (files, map build_key (builds (database m))) = Inr (files', keys') \<Longrightarrow>
    \<exists>m' newBuilds' cache'. foldr_res (program_record S env) rs (m, files, newBuilds, cache) = Inr (m', files', newBuilds', cache') \<and>
      program_inv builds (m', files', newBuilds', cache') \<and> products (database m') = fold raise rs (products (database m)) \<and>
      map build_key (builds (database m')) = keys' \<and> productFactories cache' = productFactories cache"
proof (induction rs arbitrary: m files newBuilds cache)
  case (Cons r rs)
  let ?known = "\<lambda>p. IsAwareOf p cache" and ?st = "products (database m)"
  have "news (r # rs) ?st = news [r] ?st @ news rs (raise r ?st)" by simp
  then obtain files1 keys1 where l: "learned_all S ?known (news [r] ?st) (files, map build_key (builds (database m))) = Inr (files1, keys1)"
    "learned_all S ?known (news rs (raise r ?st)) (files1, keys1) = Inr (files', keys')"
    using Cons.prems(2) by (auto simp: learned_all_def foldr_res_append elim!: bindr_InrE simp del: news.simps)
  obtain m1 newBuilds1 cache1 where s: "program_record S env r (m, files, newBuilds, cache) = Inr (m1, files1, newBuilds1, cache1)"
    "program_inv builds (m1, files1, newBuilds1, cache1)" "products (database m1) = raise r ?st"
    "map build_key (builds (database m1)) = keys1" "productFactories cache1 = productFactories cache"
    using program_record_refines [OF assms Cons.prems(1) l(1)] by blast
  have "(\<lambda>p. IsAwareOf p cache1) = ?known" using s(5) by (simp add: IsAwareOf_def)
  then have "learned_all S (\<lambda>p. IsAwareOf p cache1) (news rs (products (database m1))) (files1, map build_key (builds (database m1))) = Inr (files', keys')"
    using l(2) s(3,4) by simp
  from Cons.IH [OF s(2) this] show ?case using s by auto
qed (simp add: learned_all_def)

section \<open>Properties\<close>


lemma learned_unanswered:
  "\<forall>r \<in> set rs. sv_versions S (sr_Product r) = None \<Longrightarrow> learned_all S known rs st = Inr st"
  by (induction rs) (cases st; simp add: learned_all_def learned_def)+

text \<open>C34: an update that the service does not explain is lost. The sequence number is stored before the versions are asked for; when they cannot be had,
  nothing is recorded, and the next update with the same summary finds nothing newer and does not ask again, whatever the
  service would answer then.\<close>

theorem unanswered_update_lost:
  assumes "database_ok env products builds" and "listeners m = [()]" and "distinct (map build_key (builds (database m)))" and "distinct (map identity_of newBuilds)"
    and "\<forall>r \<in> set rs. sv_versions S (sr_Product r) = None"
  shows "\<exists>m1 newBuilds1 cache1. program_update S env (Some rs) (m, files, newBuilds, cache) = Inr (m1, files, newBuilds1, cache1) \<and>
    products (database m1) = fold raise rs (products (database m)) \<and> map build_key (builds (database m1)) = map build_key (builds (database m)) \<and>
    (\<forall>S'. \<exists>m2 newBuilds2 cache2. program_update S' env (Some rs) (m1, files, newBuilds1, cache1) = Inr (m2, files, newBuilds2, cache2) \<and>
      map build_key (builds (database m2)) = map build_key (builds (database m)))"
proof -
  have news_subset: "set (news rs st) \<subseteq> set rs" for rs st
    by (induction rs arbitrary: st) auto
  then have "learned_all S (\<lambda>p. IsAwareOf p cache) (news rs (products (database m))) (files, map build_key (builds (database m))) =
      Inr (files, map build_key (builds (database m)))"
    using assms(5) by (intro learned_unanswered) blast
  moreover have inv: "program_inv builds (m, files, newBuilds, cache)" using assms(2-4) by (simp add: program_inv_def)
  ultimately obtain m1 newBuilds1 cache1 where u1: "program_update S env (Some rs) (m, files, newBuilds, cache) = Inr (m1, files, newBuilds1, cache1)"
    "program_inv builds (m1, files, newBuilds1, cache1)" "products (database m1) = fold raise rs (products (database m))"
    "map build_key (builds (database m1)) = map build_key (builds (database m))"
    using program_records_refine [OF assms(1), of m files newBuilds cache S rs] by (auto simp: program_update_def)
  have "news rs (products (database m1)) = []" unfolding u1(3) using nothing_newer [of rs] by (simp add: fold_raise_reached)
  then have stays: "learned_all S' (\<lambda>p. IsAwareOf p cache1) (news rs (products (database m1))) (files, map build_key (builds (database m1))) =
      Inr (files, map build_key (builds (database m)))" for S' :: "'c service"
    using u1(4) by (simp add: learned_all_def)
  have "\<exists>m2 newBuilds2 cache2. program_update S' env (Some rs) (m1, files, newBuilds1, cache1) = Inr (m2, files, newBuilds2, cache2) \<and>
      map build_key (builds (database m2)) = map build_key (builds (database m))" for S' :: "'c service"
  proof -
    obtain m2 newBuilds2 cache2 where "foldr_res (program_record S' env) rs (m1, files, newBuilds1, cache1) = Inr (m2, files, newBuilds2, cache2)"
      "map build_key (builds (database m2)) = map build_key (builds (database m))"
      using program_records_refine [OF assms(1) u1(2) stays [of S']] by blast
    then show ?thesis by (intro exI [of _ m2] exI [of _ newBuilds2] exI [of _ cache2]) (simp add: program_update_def)
  qed
  then show ?thesis using u1 by blast
qed

section \<open>Witnesses\<close>

text \<open>A database with both tables.\<close>

definition program_exec :: "string \<Rightarrow> sql_value list \<Rightarrow> sequences \<times> build_row list \<Rightarrow> (sequences \<times> build_row list) \<times> sql_value list list option" where
  "program_exec sql vs = (\<lambda>(ps, bs).
     if Some sql \<in> {statement_text product_SelByName, statement_text product_Insert, statement_text product_Update}
     then (case example_exec sql vs ps of (ps, r) \<Rightarrow> ((ps, bs), r))
     else (case example_build_exec sql vs bs of (bs, r) \<Rightarrow> ((ps, bs), r)))"

definition program_env :: "(sequences \<times> build_row list) sql_env" where
  "program_env = \<lparr>alignment_of = (\<lambda>_. 8), mp_sort = partition_sort, default_of = (\<lambda>_. Num 0),
     as_type = (\<lambda>t v. Some v), open_connection = (\<lambda>db. (db, True)), exec_prepared = program_exec\<rparr>"

lemma program_texts_differ:
  "statement_text build_SelByName \<notin> {statement_text product_SelByName, statement_text product_Insert, statement_text product_Update}"
  "statement_text build_Insert \<notin> {statement_text product_SelByName, statement_text product_Insert, statement_text product_Update}"
  by code_simp+

text \<open>Each statement runs on its table.\<close>

lemma program_exec_product:
  assumes "Some sql \<in> {statement_text product_SelByName, statement_text product_Insert, statement_text product_Update}"
  shows "exec_prepared program_env sql vs db = (db', r) \<longleftrightarrow> exec_prepared example_sql_env sql vs (fst db) = (fst db', r) \<and> snd db' = snd db"
  using assms by (cases db; cases db'; cases "example_exec sql vs (fst db)") (auto simp: program_env_def program_exec_def example_sql_env_def)

lemma program_exec_build:
  assumes "Some sql \<in> {statement_text build_SelByName, statement_text build_Insert}"
  shows "exec_prepared program_env sql vs db = (db', r) \<longleftrightarrow> exec_prepared example_build_env sql vs (snd db) = (snd db', r) \<and> fst db' = fst db"
  using assms program_texts_differ
  by (cases db; cases db'; cases "example_build_exec sql vs (snd db)") (auto simp: program_env_def program_exec_def example_build_env_def)

lemma program_exec_total:
  "Some sql \<in> {statement_text product_SelByName, statement_text product_Insert, statement_text product_Update} \<Longrightarrow>
    snd (exec_prepared program_env sql vs db) = snd (exec_prepared example_sql_env sql vs (fst db)) \<and> snd (fst (exec_prepared program_env sql vs db)) = snd db"
  "Some sql \<in> {statement_text build_SelByName, statement_text build_Insert} \<Longrightarrow>
    snd (exec_prepared program_env sql vs db) = snd (exec_prepared example_build_env sql vs (snd db)) \<and> fst (fst (exec_prepared program_env sql vs db)) = fst db"
  using program_exec_product [of sql vs db "fst (exec_prepared program_env sql vs db)" "snd (exec_prepared program_env sql vs db)"]
    program_exec_build [of sql vs db "fst (exec_prepared program_env sql vs db)" "snd (exec_prepared program_env sql vs db)"] by simp_all

lemma program_exec_productD:
  "statement_text query = Some sql \<Longrightarrow> query \<in> {product_SelByName, product_Insert, product_Update} \<Longrightarrow>
    exec_prepared program_env sql vs db = (db', r) \<Longrightarrow> exec_prepared example_sql_env sql vs (fst db) = (fst db', r)"
  using program_exec_product [of sql vs db db' r] by auto

lemma program_exec_buildD:
  "statement_text query = Some sql \<Longrightarrow> query \<in> {build_SelByName, build_Insert} \<Longrightarrow>
    exec_prepared program_env sql vs db = (db', r) \<Longrightarrow> exec_prepared example_build_env sql vs (snd db) = (snd db', r)"
  using program_exec_build [of sql vs db db' r] by auto

lemma program_product_laws: "product_laws program_env fst"
proof -
  have p: "select_law example_sql_env id" "insert_law example_sql_env id" "update_law example_sql_env id"
    using example_laws(1) by (simp_all add: product_laws_def)
  have "select_law program_env fst"
    unfolding select_law_def
  proof (intro allI impI)
    fix sql name db db' r
    assume s: "statement_text product_SelByName = Some sql" and e: "exec_prepared program_env sql [Str name] db = (db', r)"
    show "fst db' = fst db \<and> (case r of None \<Rightarrow> True | Some rows \<Rightarrow> (case fst db name of None \<Rightarrow> rows = [] | Some s \<Rightarrow> \<exists>i. rows = [product_row i name s]))"
      using p(1) [unfolded select_law_def, rule_format, OF s program_exec_productD [OF s _ e]] by (simp only: id_apply) simp
  qed
  moreover have "insert_law program_env fst"
    unfolding insert_law_def
  proof (intro allI impI)
    fix sql name k db db' r
    assume s: "statement_text product_Insert = Some sql" and e: "exec_prepared program_env sql [Str name, Num k] db = (db', r)"
    show "fst db' = fst db \<and> r = None \<or> fst db name = None \<and> fst db' = (fst db)(name \<mapsto> k)"
      using p(2) [unfolded insert_law_def, rule_format, OF s program_exec_productD [OF s _ e]] by (simp only: id_apply) simp
  qed
  moreover have "update_law program_env fst"
    unfolding update_law_def
  proof (intro allI impI)
    fix sql name k db db' r
    assume s: "statement_text product_Update = Some sql" and e: "exec_prepared program_env sql [Num k, Str name] db = (db', r)"
    show "fst db' = fst db \<and> (r = None \<or> fst db name = None) \<or> fst db name \<noteq> None \<and> fst db' = (fst db)(name \<mapsto> k)"
      using p(3) [unfolded update_law_def, rule_format, OF s program_exec_productD [OF s _ e]] by (simp only: id_apply) simp
  qed
  ultimately show ?thesis by (simp add: product_laws_def program_env_def partition_sort_permutes)
qed

lemma program_build_laws: "build_laws program_env snd"
proof -
  have b: "select_build_law example_build_env id" "insert_build_law example_build_env id"
    using example_build_laws(1) by (simp_all add: build_laws_def)
  have "select_build_law program_env snd"
    unfolding select_build_law_def
  proof (intro allI impI)
    fix sql name region db db' r
    assume s: "statement_text build_SelByName = Some sql" and e: "exec_prepared program_env sql [Str name, Str region] db = (db', r)"
    show "snd db' = snd db \<and> (r = None \<or> r = Some (map row_fields (filter (\<lambda>r. build_key r = (name, region)) (snd db))))"
      using b(1) [unfolded select_build_law_def, rule_format, OF s program_exec_buildD [OF s _ e]] by (simp only: id_apply) simp
  qed
  moreover have "insert_build_law program_env snd"
    unfolding insert_build_law_def
  proof (intro allI impI)
    fix sql region productName name config cdn now db db' r
    assume s: "statement_text build_Insert = Some sql"
      and e: "exec_prepared program_env sql [Str region, Str productName, Str name, Str config, Str cdn, Num now] db = (db', r)"
    show "snd db' = snd db \<and> r = None \<or> (\<exists>i. i \<notin> row_id ` set (snd db) \<and> (let row = \<lparr>row_id = i, row_product_name = productName, row_build_name = name,
        row_build_config = config, row_cdn_config = cdn, row_detected_at = now, row_region = region\<rparr>
      in snd db' = snd db @ [row] \<and> (r = None \<or> r = Some [row_fields row])))"
      using b(2) [unfolded insert_build_law_def, rule_format, OF s program_exec_buildD [OF s _ e]] by (simp only: id_apply) simp
  qed
  ultimately show ?thesis by (simp add: build_laws_def program_env_def partition_sort_permutes)
qed

lemma program_database: "database_ok program_env fst snd"
proof -
  have "products_reliable program_env fst"
    using example_laws(2) unfolding products_reliable_def
    by (auto simp: program_exec_total) (simp_all add: program_env_def)
  moreover have "builds_reliable program_env"
    using example_build_laws(2) unfolding builds_reliable_def
    by (auto simp: program_exec_total) (simp_all add: program_env_def)
  moreover have "independent program_env fst snd"
    by (auto simp: independent_def untouched_def program_exec_total)
  ultimately show ?thesis using program_product_laws program_build_laws by (simp add: database_ok_def)
qed


definition example_service :: "bool \<Rightarrow> unit service" where
  "example_service answers = \<lparr>sv_resolver = ev_resolver example_env, sv_load = (\<lambda>_ _ p. (p, True)),
     sv_versions = (\<lambda>_. if answers then Some \<lparr>vs_Records = [example_version ''us'', example_version ''eu''], vs_SequenceID = 42\<rparr> else None),
     sv_cdns = (\<lambda>_. Some [example_cdn_record]), sv_proxy = False, sv_now = 9\<rparr>"

definition example_monitor :: "(sequences \<times> build_row list, unit) monitor" where
  "example_monitor = program_monitor ([''wow'' \<mapsto> 41], [example_build_row 1 ''us''])"

lemma example_monitor_simps [simp]:
  "listeners example_monitor = [()]"
  "database example_monitor = ([''wow'' \<mapsto> 41], [example_build_row 1 ''us''])"
  by (simp_all add: example_monitor_def program_monitor_def RegisterListener_def)

lemma example_key: "build_key (example_build_row i region) = (''WOW'', region)"
  by (simp add: build_key_def example_build_row_def)


lemma unanswered_update_lost_witness:
  "\<exists>m1 newBuilds1 cache1. program_update (example_service False) program_env (Some [\<lparr>sr_Product = ''wow'', sr_SequenceID = 42, sr_Flags = []\<rparr>])
      (example_monitor, example_files, [], program_cache) = Inr (m1, example_files, newBuilds1, cache1) \<and>
    (\<exists>m2 newBuilds2 cache2. program_update (example_service True) program_env (Some [\<lparr>sr_Product = ''wow'', sr_SequenceID = 42, sr_Flags = []\<rparr>])
      (m1, example_files, newBuilds1, cache1) = Inr (m2, example_files, newBuilds2, cache2) \<and> map build_key (snd (database m2)) = [(''WOW'', ''us'')])"
proof -
  have keys: "distinct (map build_key (snd (database example_monitor)))" "distinct (map identity_of [])" by simp_all
  have "\<forall>r \<in> set [\<lparr>sr_Product = ''wow'', sr_SequenceID = 42, sr_Flags = []\<rparr>]. sv_versions (example_service False) (sr_Product r) = None"
    by (simp add: example_service_def)
  from unanswered_update_lost [OF program_database example_monitor_simps(1) keys this, where files = example_files and cache = program_cache]
  obtain m1 newBuilds1 cache1 where first: "program_update (example_service False) program_env (Some [\<lparr>sr_Product = ''wow'', sr_SequenceID = 42, sr_Flags = []\<rparr>])
      (example_monitor, example_files, [], program_cache) = Inr (m1, example_files, newBuilds1, cache1)"
    and again: "\<forall>S' :: unit service. \<exists>m2 newBuilds2 cache2. program_update S' program_env (Some [\<lparr>sr_Product = ''wow'', sr_SequenceID = 42, sr_Flags = []\<rparr>])
      (m1, example_files, newBuilds1, cache1) = Inr (m2, example_files, newBuilds2, cache2) \<and>
      map build_key (snd (database m2)) = map build_key (snd (database example_monitor))" by blast
  from again [rule_format, of "example_service True"] first show ?thesis by (auto simp: example_key)
qed

end
