(* ===== verification/Spec2Isabelle.thy ===== *)
theory Spec2Isabelle
  imports Prelude Lookup3 Endian Hex Key Tokenizer Streams Reads Hash BLTE Config FileLocation Encoding Index Install Root Numbers Ribbit Cache Download Resolver Product WowProduct Transform Session Orm Statements Tuple Rows Database Monitor ConnectionPool ProductCache Updates Repository Commands Frontend Discord Publish Program
begin

text \<open>
  \<^bold>\<open>tactmon\<close> follows the builds of games on a content delivery network and serves single files out of them. It has two
  parts. \<^verbatim>\<open>src/src/libtactmon\<close> is the library: it asks the version service (Ribbit) for the current build of a product,
  downloads the manifests of that build into a cache on disk, and answers where the contents of a file are stored.
  \<^verbatim>\<open>src/src/tactmon\<close> is a service on top of it: it polls the version service, keeps products loaded, and streams files to
  HTTP clients while they arrive.

  \<^bold>\<open>The theories, from the bottom up.\<close>

  \<^item> \<open>Prelude\<close>: the result type (\<open>cxx_error + 'a\<close>), spans, arithmetic on \<^verbatim>\<open>std::size_t\<close>, computations that end (\<open>outcome\<close>).
  \<^item> \<open>Lookup3\<close> (\<^verbatim>\<open>crypto/lookup3.hpp\<close>, \<^verbatim>\<open>crypto/Jenkins.cpp\<close>): the hash of paths. The three ways in which \<^verbatim>\<open>hashlittle\<close> loads
    its words agree; the mixing steps are invertible; the hash of a path does not depend on case or slashes.
  \<^item> \<open>Endian\<close>, \<open>Hex\<close>, \<open>Key\<close>, \<open>Numbers\<close>, \<open>Tokenizer\<close> (\<^verbatim>\<open>utility/Endian.hpp\<close>, \<^verbatim>\<open>utility/Hex.cpp\<close>, \<^verbatim>\<open>tact/detail/Key.cpp\<close>,
    \<^verbatim>\<open>tact/CKey.cpp\<close>, \<^verbatim>\<open>tact/EKey.cpp\<close>, \<^verbatim>\<open>detail/Tokenizer.hpp\<close>): conversions, with their round trips.
  \<^item> \<open>Streams\<close>, \<open>Reads\<close> (\<^verbatim>\<open>io/\<close>): a record \<open>readable\<close> holds the virtual functions of \<^verbatim>\<open>IReadableStream\<close>; the four classes
    of streams are values of it. The locale \<open>readable_stream\<close> states the contract of a stream that reads what it contains,
    and is interpreted for \<^verbatim>\<open>FileStream\<close> and \<^verbatim>\<open>GrowableMemoryStream\<close>. \<^verbatim>\<open>SpanStream\<close> and \<^verbatim>\<open>MemoryStream\<close> break it, which is
    proved. \<open>Reads\<close> is a calculus of parsers over the locale that all the manifests use.
  \<^item> \<open>Hash\<close>, \<open>BLTE\<close> (\<^verbatim>\<open>crypto/Hash.hpp\<close>, \<^verbatim>\<open>tact/BLTE.cpp\<close>): archives of chunks, with their validation.
  \<^item> \<open>Config\<close>, \<open>FileLocation\<close>, \<open>Encoding\<close>, \<open>Index\<close>, \<open>Install\<close>, \<open>Root\<close> (\<^verbatim>\<open>tact/config/\<close>, \<^verbatim>\<open>tact/data/\<close>): the parsers of the
    manifests and the lookups in them. For each there is a printer, written from the format that the parser expects,
    and a round trip for manifests of any size; then the lookups, and the inputs on which the code misbehaves.
  \<^item> \<open>Ribbit\<close> (\<^verbatim>\<open>ribbit/\<close>): the commands of the version service and the tables in its answers.
  \<^item> \<open>Cache\<close>, \<open>Download\<close>, \<open>Resolver\<close> (\<^verbatim>\<open>tact/Cache.cpp\<close>, \<^verbatim>\<open>net/\<close>, \<^verbatim>\<open>tact/data/product/Utility.hpp\<close>): the cache, the download
    of a file into it, and the resolver that asks the cache first and then each server.
  \<^item> \<open>Product\<close>, \<open>WowProduct\<close> (\<^verbatim>\<open>tact/data/product/\<close>): loading a product, and its lookups.
  \<^item> \<open>Transform\<close> (\<^verbatim>\<open>tactmon/beast/\<close>): the decoder of archives that is fed piece by piece.
  \<^item> \<open>Session\<close> (\<^verbatim>\<open>tactmon/net/\<close>): addresses of files on the program's own server, the parser of requests, and a session as a step
    relation of its queue and handlers: the queue is kept, but the writes of a client that pipelines requests overlap.
  \<^item> \<open>Orm\<close>, \<open>Statements\<close> (\<^verbatim>\<open>tactmon/backend/db/orm/\<close>, \<^verbatim>\<open>backend/db/entity/\<close>): the expressions of which statements are built, a
    printer for each, and the texts of all statements of the program, three of which are no SQL.
  \<^item> \<open>Tuple\<close>, \<open>Rows\<close> (\<^verbatim>\<open>tactmon/utility/Tuple.hpp\<close>, \<^verbatim>\<open>backend/db/orm/\<close>): tuples laid out by alignment, and the entities that rows are read into.
    A tuple refines the list of its elements, for any alignment and any way to sort that permutes.
  \<^item> \<open>Database\<close>, \<open>Monitor\<close> (\<^verbatim>\<open>backend/db/orm/PreparedStatement.hpp\<close>, \<^verbatim>\<open>backend/db/repository/\<close>, \<^verbatim>\<open>backend/RibbitMonitor.cpp\<close>): the execution of a statement, and
    the update of the sequence numbers. With a database that answers, it refines a map from products to numbers.
  \<^item> \<open>ConnectionPool\<close> (\<^verbatim>\<open>backend/ConnectionPool.cpp\<close>): threads that take connections from a pool and wait for them, as a step relation.
  \<^item> \<open>ProductCache\<close> (\<^verbatim>\<open>backend/Product.cpp\<close>, \<^verbatim>\<open>backend/ProductCache.cpp\<close>): the products in memory, their waiting handlers and their expiry.
  \<^item> \<open>Repository\<close> (\<^verbatim>\<open>backend/db/repository/\<close>): the copies of tables that are kept in memory and refreshed by a timer.
  \<^item> \<open>Updates\<close>, \<open>Publish\<close>, \<open>Program\<close> (\<^verbatim>\<open>tactmon/Program.cpp\<close>): the listener that records new builds, what it publishes of them in the channels
    that are bound to a product, and the program that runs the listener inside of the monitor's update. \<open>Program\<close> refines an
    abstract program on sequence numbers and the names and regions of builds.
  \<^item> \<open>Commands\<close>, \<open>Frontend\<close>, \<open>Discord\<close> (\<^verbatim>\<open>tactmon/frontend/\<close>): the completions that commands offer; what each command answers, over a
    locale of products that is interpreted for both kinds; and the registration of commands and the dispatch of events.

  \<^bold>\<open>How the code is translated.\<close> A class is a record of its fields, a method a function from the object to the object and
  the result. The machine is little endian with a \<^verbatim>\<open>std::size_t\<close> of 64 bits. What a parser must not do (reads out of
  bounds, null dereferences, divisions by zero, uninitialised reads) is an \<open>Inl\<close> of the result, so that a theorem with
  \<open>Inr\<close> excludes it. An exception that leaves a \<^verbatim>\<open>noexcept\<close> function ends the program and is \<open>Inl Thrown\<close>. The file
  system is a map from paths to bytes. Tasks that a thread pool runs share nothing and are run one after the other.

  \<^bold>\<open>Loops.\<close> Loops over a range or a list are structural recursion. The others have fuel, and running out of it is the error
  \<open>Diverges\<close>; the functions that the code calls fix the fuel as a number that is large enough for every run that ends:
  the length of the stream and one more for \<^verbatim>\<open>ReadCString\<close>, where each iteration but the last consumes a byte
  (\<open>ReadCString_fuel\<close>); the length of the compressed bytes for the loop around \<^verbatim>\<open>inflate\<close> (\<open>inflate_loop_returns\<close>,
  \<open>inflate_feed_outcome\<close>); the bytes that are left and one more for the streaming decoder (\<open>loop_outcome\<close>); the length of the
  file for \<^verbatim>\<open>Root::Parse\<close>, whose pages have at least the size of their headers. Where a run does not end, this is proved for
  every fuel.

  \<^bold>\<open>Parameters.\<close> MD5 (\<open>digest\<close>), zlib (the outcome of \<^verbatim>\<open>inflateInit\<close> and of one call of \<^verbatim>\<open>inflate\<close>), the network (the answers of
  hosts), Boost.Beast's header parser and \<^verbatim>\<open>boost::split\<close> are arguments of the definitions that use them. So are the sort of
  Boost.Mp11, of which only is used that it permutes; the database (the outcome of a prepared statement, under laws that say
  what each statement does to its table, and for some theorems that it answers) and pqxx's conversions of fields; \<^verbatim>\<open>hash_combine\<close>; the
  events and the lookup of parameters of D++; the formats of times; and \<^verbatim>\<open>std::filesystem::path::filename\<close>. A theorem that has laws as
  hypotheses is applied to an example that keeps them: a table that is a list of rows.

  \<^bold>\<open>Not modelled.\<close>
  \<^item> \<^verbatim>\<open>detail/ctre.hpp\<close> and \<^verbatim>\<open>src/dep/libassert\<close> are other projects, copied into this one. They are almost half of the lines.
  \<^item> Log messages (\<^verbatim>\<open>utility/Logging.cpp\<close>) do not change what the program does.
  \<^item> Thread pools (\<^verbatim>\<open>utility/ThreadPool.cpp\<close>) only start and stop threads of Boost.Asio; what runs in them is modelled, with the
    interleaving where threads share state (\<open>ConnectionPool\<close>, \<open>ProductCache\<close>).
  \<^item> The options, signals and the construction of the parts in \<^verbatim>\<open>Program.cpp\<close> and \<^verbatim>\<open>Database.cpp\<close>, the preparation of statements, the loop that
    accepts connections and the connection to D++ are calls of libraries without logic of their own.
  \<^item> Concepts and other traits at compile time restrict which programs compile and have no behaviour.
  \<^item> Files that are empty or only declare: nothing is left to model.
\<close>

end
